(* ===== verification/Prelude.thy ===== *)
theory Prelude
  imports Main "HOL-Library.Word"
begin

text \<open>
  Shared vocabulary of the development: the machine types of the RV32 port
  (\<^verbatim>\<open>portmacro.h\<close>: \<^verbatim>\<open>StackType_t\<close>, \<^verbatim>\<open>BaseType_t\<close>, \<^verbatim>\<open>UBaseType_t\<close> and
  \<^verbatim>\<open>TickType_t\<close> are 32 bits wide), the collections of rewrite rules that the
  component theories extend, and the generic lemmas on lists, functions and words
  that several components use.
\<close>

unbundle bit_operations_syntax

type_synonym word32 = "32 word"
type_synonym word64 = "64 word"
type_synonym byte = "8 word"

text \<open>
  \<^verbatim>\<open>portMAX_DELAY\<close> of \<^verbatim>\<open>portmacro.h\<close>: the largest tick value, which is also
  the value of every list's end marker.
\<close>

abbreviation portMAX_DELAY :: word32 where
  "portMAX_DELAY \<equiv> 0xFFFFFFFF"

named_theorems hw_simps "rewrite rules of the register-window hardware"
named_theorems exec_simps "symbolic execution of the port's assembly macros"
named_theorems frame_simps "fields an operation leaves unchanged"

subsection \<open>Words\<close>

lemma unat_word32_less: "unat (x :: word32) < 4294967296"
  using unsigned_less [of x] by simp

lemma word32_le_max [simp]: "(x :: word32) \<le> portMAX_DELAY"
  using unat_word32_less [of x] by (simp add: word_le_nat_alt)

lemma word32_less_max_iff: "(x :: word32) < portMAX_DELAY \<longleftrightarrow> x \<noteq> portMAX_DELAY"
  using word32_le_max [of x] by (auto simp: order.strict_iff_order)

text \<open>Unsigned subtraction that does not underflow is subtraction of the values.\<close>

lemma unat_minus_le: "b \<le> a \<Longrightarrow> unat (a - b) = unat a - unat (b :: 'a::len word)"
  by (simp add: unat_sub)

lemma unat_add_no_overflow:
  "unat a + unat (b :: word32) < 4294967296 \<Longrightarrow> unat (a + b) = unat a + unat b"
  by (simp add: unat_word_ariths)

subsection \<open>Lists\<close>

lemma nth_list_update_if:
  "i < length xs \<Longrightarrow> xs[i := v] ! j = (if i = j then v else xs ! j)"
  by simp

end
