(* ===== verification/Window_Regfile.thy ===== *)
theory Window_Regfile
  imports Prelude
begin

text \<open>
  The partitioned integer register file, in its two implementations: the Spike fork
  (\<^verbatim>\<open>riscv/decode.h\<close> class \<^verbatim>\<open>regfile_t\<close>, \<^verbatim>\<open>riscv/processor.cc\<close>,
  \<^verbatim>\<open>riscv/insns/mret.h\<close>) and the CVA6 RTL (\<^verbatim>\<open>core/ariane_regfile_ff.sv\<close>,
  \<^verbatim>\<open>core/csr_regfile.sv\<close>). The locale \<open>window_hw\<close> states what the FreeRTOS port
  relies on; both cores interpret it.
\<close>

section \<open>Window configuration words\<close>

text \<open>A window configuration is \<^verbatim>\<open>(size << 16) | base\<close>.\<close>

definition cfg_base :: "word32 \<Rightarrow> nat" where
  "cfg_base c = unat (c AND 0xFFFF)"

definition cfg_size :: "word32 \<Rightarrow> nat" where
  "cfg_size c = unat (drop_bit 16 c AND 0xFFFF)"

section \<open>Spike: \<^verbatim>\<open>regfile_t\<close>\<close>

text \<open>
  \<^verbatim>\<open>class regfile_t<T, N, zero_reg>\<close>: \<open>N\<close> is the length of the data vector,
  \<open>zero_reg\<close> an argument of the accessors. Indices and sizes are \<^verbatim>\<open>size_t\<close>,
  64 bits wide on the simulator's host; \<open>size_t_add\<close> and \<open>size_t_sub\<close> are their wrapping
  sum and difference.
\<close>

record 'a regfile =
  rf_data :: "'a list"
  base_offset :: nat
  window_size :: nat

definition size_t_add :: "nat \<Rightarrow> nat \<Rightarrow> nat" where
  "size_t_add a b = (a + b) mod 2 ^ 64"

definition size_t_sub :: "nat \<Rightarrow> nat \<Rightarrow> nat" where
  "size_t_sub a b = (if b \<le> a then a - b else 2 ^ 64 + a - b)"

definition regfile_reset :: "nat \<Rightarrow> 'a::zero regfile" where
  "regfile_reset n = \<lparr>rf_data = replicate n 0, base_offset = 0, window_size = n\<rparr>"

definition set_window_config :: "nat \<Rightarrow> nat \<Rightarrow> 'a regfile \<Rightarrow> 'a regfile" where
  "set_window_config base sz rf =
     (let n = length (rf_data rf);
          rf1 = (if base < n then rf\<lparr>base_offset := base\<rparr> else rf)
      in if size_t_add base sz > n then rf1\<lparr>window_size := size_t_sub n base\<rparr>
         else rf1\<lparr>window_size := sz\<rparr>)"

definition regfile_write :: "bool \<Rightarrow> nat \<Rightarrow> 'a \<Rightarrow> 'a regfile \<Rightarrow> 'a regfile" where
  "regfile_write zero_reg i v rf =
     (if zero_reg \<and> i = 0 then rf
      else if i \<ge> window_size rf then rf
      else let physical_index = size_t_add i (base_offset rf)
           in if physical_index < length (rf_data rf)
              then rf\<lparr>rf_data := (rf_data rf)[physical_index := v]\<rparr>
              else rf)"

definition regfile_read :: "bool \<Rightarrow> 'a regfile \<Rightarrow> nat \<Rightarrow> 'a" where
  "regfile_read zero_reg rf i =
     (if zero_reg \<and> i = 0 then rf_data rf ! 0
      else if i \<ge> window_size rf then rf_data rf ! 0
      else let physical_index = size_t_add i (base_offset rf)
           in if physical_index \<ge> length (rf_data rf) then rf_data rf ! 0
              else rf_data rf ! physical_index)"

section \<open>Spike: the window CSRs, trap entry and \<^verbatim>\<open>mret\<close>\<close>

text \<open>
  The window part of \<^verbatim>\<open>state_t\<close> and \<^verbatim>\<open>processor_t\<close>. \<^verbatim>\<open>NXPR\<close> is 64
  and \<^verbatim>\<open>NFPR\<close> is 32; registers hold 32-bit values, as the port is built for RV32.
\<close>

record spike =
  XPR :: "word32 regfile"
  FPR :: "word64 regfile"
  window_active :: word32
  window_staged :: word32
  previous_window_config :: word32

definition window_cfg_of :: "nat \<Rightarrow> nat \<Rightarrow> word32" where
  "window_cfg_of base sz = push_bit 16 (of_nat sz) OR (of_nat base AND 0xFFFF)"

definition spike_reset :: "spike \<Rightarrow> spike" where
  "spike_reset s = s\<lparr>XPR := regfile_reset 64, FPR := regfile_reset 32,
                    previous_window_config := 0\<rparr>"

text \<open>\<^verbatim>\<open>window_config_csr_t::read\<close> and \<^verbatim>\<open>write\<close>, the object behind CSR 0x800.\<close>

definition window_config_csr_read :: "spike \<Rightarrow> word32" where
  "window_config_csr_read s = window_cfg_of (base_offset (XPR s)) (window_size (XPR s))"

definition window_config_csr_write :: "word32 \<Rightarrow> spike \<Rightarrow> spike" where
  "window_config_csr_write val s =
     (let new_base = cfg_base val;
          new_size = (if cfg_size val = 0 then 32 else cfg_size val)
      in s\<lparr>XPR := set_window_config new_base new_size (XPR s),
           FPR := set_window_config new_base new_size (FPR s)\<rparr>)"

text \<open>
  CSR instructions go through \<^verbatim>\<open>put_csr\<close> and \<^verbatim>\<open>get_csr\<close>, which intercept both
  window CSRs. The dump that \<^verbatim>\<open>put_csr\<close> prints for 0x801 moves the window over the
  two banks and puts back the configuration it saved.
\<close>

definition put_csr_800 :: "word32 \<Rightarrow> spike \<Rightarrow> spike" where
  "put_csr_800 val s = s\<lparr>window_active := val\<rparr>"

definition put_csr_801 :: "word32 \<Rightarrow> spike \<Rightarrow> spike" where
  "put_csr_801 val s =
     (let saved_base = base_offset (XPR s);
          saved_size = window_size (XPR s);
          x0 = set_window_config 0 32 (XPR s);
          x1 = set_window_config 32 32 x0
      in s\<lparr>window_staged := val, XPR := set_window_config saved_base saved_size x1\<rparr>)"

definition get_csr_800 :: "spike \<Rightarrow> word32" where
  "get_csr_800 s = window_active s"

definition get_csr_801 :: "spike \<Rightarrow> word32" where
  "get_csr_801 s = window_staged s"

text \<open>The window part of \<^verbatim>\<open>take_trap\<close> and of the \<^verbatim>\<open>mret\<close> instruction.\<close>

definition spike_take_trap :: "spike \<Rightarrow> spike" where
  "spike_take_trap s =
     s\<lparr>previous_window_config := window_cfg_of (base_offset (XPR s)) (window_size (XPR s)),
       XPR := set_window_config 0 32 (XPR s),
       FPR := set_window_config 0 32 (FPR s)\<rparr>"

definition spike_mret :: "spike \<Rightarrow> spike" where
  "spike_mret s =
     (let prev_win_config = window_staged s;
          restore_size = cfg_size prev_win_config;
          restore_base = cfg_base prev_win_config;
          s1 = s\<lparr>window_active := prev_win_config,
                 XPR := set_window_config restore_base restore_size (XPR s)\<rparr>
      in window_config_csr_write prev_win_config s1)"

section \<open>CVA6: \<^verbatim>\<open>ariane_regfile_ff\<close> and the window CSRs\<close>

text \<open>
  \<open>mem\<close> is the flip-flop array of \<^verbatim>\<open>PHYSICAL_REGS = 64\<close> words; the window translation
  is combinational on \<^verbatim>\<open>window_config_i\<close>. A write is one commit port with its write
  enable set; \<^verbatim>\<open>ZERO_REG_ZERO\<close> is set for the integer file.
\<close>

record cva6 =
  ff_mem :: "word32 list"
  window_config_q :: word32
  prev_window_config_q :: word32

definition DEFAULT_WINDOW_CONFIG :: word32 where
  "DEFAULT_WINDOW_CONFIG = 0x00200000"

definition cva6_reset :: cva6 where
  "cva6_reset = \<lparr>ff_mem = replicate 64 0, window_config_q = DEFAULT_WINDOW_CONFIG,
                prev_window_config_q = 0\<rparr>"

definition in_window :: "word32 \<Rightarrow> nat \<Rightarrow> bool" where
  "in_window cfg i \<longleftrightarrow> i < cfg_size cfg \<and> cfg_base cfg + i < 64"

definition cva6_read :: "cva6 \<Rightarrow> nat \<Rightarrow> word32" where
  "cva6_read c i =
     (if i = 0 then 0
      else if in_window (window_config_q c) i
           then ff_mem c ! (cfg_base (window_config_q c) + i) else 0)"

definition cva6_write :: "nat \<Rightarrow> word32 \<Rightarrow> cva6 \<Rightarrow> cva6" where
  "cva6_write i v c =
     (let m = (if in_window (window_config_q c) i
               then (ff_mem c)[cfg_base (window_config_q c) + i := v] else ff_mem c)
      in c\<lparr>ff_mem := m[0 := 0]\<rparr>)"

definition cva6_csrw_801 :: "word32 \<Rightarrow> cva6 \<Rightarrow> cva6" where
  "cva6_csrw_801 v c = c\<lparr>prev_window_config_q := v\<rparr>"

definition cva6_csrr_801 :: "cva6 \<Rightarrow> word32" where
  "cva6_csrr_801 c = prev_window_config_q c"

definition cva6_trap :: "cva6 \<Rightarrow> cva6" where
  "cva6_trap c = c\<lparr>prev_window_config_q := window_config_q c,
                   window_config_q := DEFAULT_WINDOW_CONFIG\<rparr>"

definition cva6_mret :: "cva6 \<Rightarrow> cva6" where
  "cva6_mret c = c\<lparr>window_config_q := prev_window_config_q c\<rparr>"

section \<open>What the port relies on\<close>

text \<open>
  The instructions of \<^verbatim>\<open>portContext.h\<close> reach the hardware through six operations:
  reading and writing an architectural register, \<^verbatim>\<open>csrr\<close> and \<^verbatim>\<open>csrw\<close> on the
  staged-window CSR 0x801, trap entry and \<^verbatim>\<open>mret\<close>.
\<close>

record 'h hw_ops =
  hw_read :: "'h \<Rightarrow> nat \<Rightarrow> word32"
  hw_write :: "nat \<Rightarrow> word32 \<Rightarrow> 'h \<Rightarrow> 'h"
  hw_csrr :: "'h \<Rightarrow> word32"
  hw_csrw :: "word32 \<Rightarrow> 'h \<Rightarrow> 'h"
  hw_trap :: "'h \<Rightarrow> 'h"
  hw_mret :: "'h \<Rightarrow> 'h"

definition spike_hw :: "spike hw_ops" where
  "spike_hw = \<lparr>hw_read = (\<lambda>s. regfile_read True (XPR s)),
     hw_write = (\<lambda>i v s. s\<lparr>XPR := regfile_write True i v (XPR s)\<rparr>),
     hw_csrr = get_csr_801, hw_csrw = put_csr_801,
     hw_trap = spike_take_trap, hw_mret = spike_mret\<rparr>"

definition cva6_hw :: "cva6 hw_ops" where
  "cva6_hw = \<lparr>hw_read = cva6_read, hw_write = cva6_write,
     hw_csrr = cva6_csrr_801, hw_csrw = cva6_csrw_801,
     hw_trap = cva6_trap, hw_mret = cva6_mret\<rparr>"

text \<open>A configuration that designates a non-empty window inside the 64 physical registers.\<close>

definition valid_cfg :: "word32 \<Rightarrow> bool" where
  "valid_cfg c \<longleftrightarrow> 0 < cfg_size c \<and> cfg_base c + cfg_size c \<le> 64"

locale window_hw =
  fixes ops :: "'h hw_ops"
    and inv :: "'h \<Rightarrow> bool"
    and phys :: "'h \<Rightarrow> nat \<Rightarrow> word32"
    and base :: "'h \<Rightarrow> nat"
    and wsize :: "'h \<Rightarrow> nat"
  assumes read_window: "inv h \<Longrightarrow> i < 32 \<Longrightarrow> hw_read ops h i =
      (if i \<noteq> 0 \<and> i < wsize h \<and> base h + i < 64 then phys h (base h + i) else 0)"
    and phys_write: "inv h \<Longrightarrow> 0 < i \<Longrightarrow> i < 32 \<Longrightarrow> phys (hw_write ops i v h) =
      (if i < wsize h \<and> base h + i < 64 then (phys h)(base h + i := v) else phys h)"
    and phys_write_zero: "inv h \<Longrightarrow> j \<noteq> base h \<or> wsize h = 0 \<Longrightarrow>
      phys (hw_write ops 0 v h) j = phys h j"
    and inv_write: "inv h \<Longrightarrow> i < 32 \<Longrightarrow> inv (hw_write ops i v h)"
    and base_write: "inv h \<Longrightarrow> i < 32 \<Longrightarrow> base (hw_write ops i v h) = base h"
    and wsize_write: "inv h \<Longrightarrow> i < 32 \<Longrightarrow> wsize (hw_write ops i v h) = wsize h"
    and csrr_write: "inv h \<Longrightarrow> i < 32 \<Longrightarrow> hw_csrr ops (hw_write ops i v h) = hw_csrr ops h"
    and inv_trap: "inv h \<Longrightarrow> inv (hw_trap ops h)"
    and phys_trap: "inv h \<Longrightarrow> phys (hw_trap ops h) = phys h"
    and base_trap: "inv h \<Longrightarrow> base (hw_trap ops h) = 0"
    and wsize_trap: "inv h \<Longrightarrow> wsize (hw_trap ops h) = 32"
    and inv_csrw: "inv h \<Longrightarrow> inv (hw_csrw ops v h)"
    and phys_csrw: "inv h \<Longrightarrow> phys (hw_csrw ops v h) = phys h"
    and base_csrw: "inv h \<Longrightarrow> base (hw_csrw ops v h) = base h"
    and wsize_csrw: "inv h \<Longrightarrow> wsize (hw_csrw ops v h) = wsize h"
    and csrr_csrw: "inv h \<Longrightarrow> hw_csrr ops (hw_csrw ops v h) = v"
    and phys_mret: "inv h \<Longrightarrow> phys (hw_mret ops h) = phys h"
    and inv_mret: "inv h \<Longrightarrow> valid_cfg (hw_csrr ops h) \<Longrightarrow> inv (hw_mret ops h)"
    and base_mret: "inv h \<Longrightarrow> valid_cfg (hw_csrr ops h) \<Longrightarrow>
      base (hw_mret ops h) = cfg_base (hw_csrr ops h)"
    and wsize_mret: "inv h \<Longrightarrow> valid_cfg (hw_csrr ops h) \<Longrightarrow>
      wsize (hw_mret ops h) = cfg_size (hw_csrr ops h)"
    and csrr_trap_mret: "inv h \<Longrightarrow> hw_csrr ops (hw_trap ops (hw_mret ops h)) = hw_csrr ops h"
    and csrr_trap_write: "inv h \<Longrightarrow> i < 32 \<Longrightarrow>
      hw_csrr ops (hw_trap ops (hw_write ops i v h)) = hw_csrr ops (hw_trap ops h)"
begin

lemmas hw_laws = inv_write base_write wsize_write csrr_write inv_trap phys_trap base_trap
  wsize_trap inv_csrw phys_csrw base_csrw wsize_csrw csrr_csrw

lemma write_outside:
  assumes "inv h" "i < 32" "j < base h \<or> base h + wsize h \<le> j"
  shows "phys (hw_write ops i v h) j = phys h j"
proof (cases "i = 0")
  case True
  then show ?thesis using assms by (auto intro!: phys_write_zero)
next
  case False
  then show ?thesis using assms by (auto simp: phys_write)
qed

lemma read_write:
  assumes "inv h" "0 < i" "i < 32" "k < 32" "i < wsize h" "base h + i < 64"
  shows "hw_read ops (hw_write ops i v h) k = (if k = i then v else hw_read ops h k)"
  using assms by (auto simp: read_window phys_write hw_laws)

text \<open>Any sequence of register writes, as a program running in one window makes them.\<close>

definition writes :: "(nat \<times> word32) list \<Rightarrow> 'h \<Rightarrow> 'h" where
  "writes ws h = fold (\<lambda>(i, v). hw_write ops i v) ws h"

lemma writes_simps [simp]:
  "writes [] h = h" "writes ((i, v) # ws) h = writes ws (hw_write ops i v h)"
  by (simp_all add: writes_def)

lemma writes_frame:
  assumes "inv h" "\<forall>(i, v) \<in> set ws. i < 32"
  shows "inv (writes ws h) \<and> base (writes ws h) = base h \<and> wsize (writes ws h) = wsize h"
  using assms by (induction ws arbitrary: h) (auto simp: hw_laws)

lemma writes_outside:
  assumes "inv h" "\<forall>(i, v) \<in> set ws. i < 32" "j < base h \<or> base h + wsize h \<le> j"
  shows "phys (writes ws h) j = phys h j"
  using assms
proof (induction ws arbitrary: h)
  case Nil
  then show ?case by simp
next
  case (Cons w ws)
  obtain i v where w: "w = (i, v)" by (cases w)
  have "phys (writes ws (hw_write ops i v h)) j = phys (hw_write ops i v h) j"
    using Cons.prems w by (intro Cons.IH) (auto simp: hw_laws)
  also have "\<dots> = phys h j" using Cons.prems w by (intro write_outside) auto
  finally show ?case using w by simp
qed

end

section \<open>Both cores provide it\<close>

definition regfile_wf :: "nat \<Rightarrow> word32 regfile \<Rightarrow> bool" where
  "regfile_wf n rf \<longleftrightarrow> length (rf_data rf) = n \<and> rf_data rf ! 0 = 0 \<and>
     base_offset rf < n \<and> base_offset rf + window_size rf \<le> n"

definition spike_inv :: "spike \<Rightarrow> bool" where
  "spike_inv s \<longleftrightarrow> regfile_wf 64 (XPR s)"

definition spike_phys :: "spike \<Rightarrow> nat \<Rightarrow> word32" where
  "spike_phys s j = rf_data (XPR s) ! j"

definition cva6_inv :: "cva6 \<Rightarrow> bool" where
  "cva6_inv c \<longleftrightarrow> length (ff_mem c) = 64 \<and> ff_mem c ! 0 = 0"

definition cva6_phys :: "cva6 \<Rightarrow> nat \<Rightarrow> word32" where
  "cva6_phys c j = ff_mem c ! j"

lemma set_window_config_fields:
  assumes "base < length (rf_data rf)" "base + sz \<le> length (rf_data rf)"
    "length (rf_data rf) < 2 ^ 64"
  shows "set_window_config base sz rf = rf\<lparr>base_offset := base, window_size := sz\<rparr>"
  using assms by (simp add: set_window_config_def size_t_add_def Let_def)

lemma set_window_config_data [simp]: "rf_data (set_window_config base sz rf) = rf_data rf"
  by (simp add: set_window_config_def Let_def)

lemma regfile_wf_set_window_config:
  "regfile_wf 64 rf \<Longrightarrow> b < 64 \<Longrightarrow> b + sz \<le> 64 \<Longrightarrow>
   set_window_config b sz rf = rf\<lparr>base_offset := b, window_size := sz\<rparr>"
  by (rule set_window_config_fields) (auto simp: regfile_wf_def)

lemma regfile_write_eq:
  assumes "regfile_wf 64 rf" "i < 64"
  shows "regfile_write True i v rf =
    (if 0 < i \<and> i < window_size rf
     then rf\<lparr>rf_data := (rf_data rf)[base_offset rf + i := v]\<rparr> else rf)"
  using assms by (auto simp: regfile_write_def regfile_wf_def size_t_add_def Let_def ac_simps)

lemma regfile_read_eq:
  assumes "regfile_wf 64 rf" "i < 64"
  shows "regfile_read True rf i =
    (if 0 < i \<and> i < window_size rf then rf_data rf ! (base_offset rf + i) else 0)"
  using assms by (auto simp: regfile_read_def regfile_wf_def size_t_add_def Let_def ac_simps)

lemma regfile_wf_write:
  "regfile_wf 64 rf \<Longrightarrow> i < 64 \<Longrightarrow> regfile_wf 64 (regfile_write True i v rf)"
  by (auto simp: regfile_write_eq) (auto simp: regfile_wf_def nth_list_update)

lemma spike_mret_valid:
  assumes "spike_inv s" "valid_cfg (window_staged s)"
  shows "XPR (spike_mret s) = (XPR s)\<lparr>base_offset := cfg_base (window_staged s),
                                      window_size := cfg_size (window_staged s)\<rparr>"
  using assms
  by (simp add: spike_mret_def window_config_csr_write_def Let_def spike_inv_def valid_cfg_def
      regfile_wf_set_window_config regfile_wf_def set_window_config_fields)

lemma put_csr_801_eq: "spike_inv s \<Longrightarrow> put_csr_801 v s = s\<lparr>window_staged := v\<rparr>"
  by (simp add: put_csr_801_def Let_def spike_inv_def regfile_wf_def set_window_config_fields)

lemma spike_mret_frame:
  "rf_data (XPR (spike_mret s)) = rf_data (XPR s)"
  "window_staged (spike_mret s) = window_staged s"
  by (simp_all add: spike_mret_def window_config_csr_write_def Let_def)

lemmas spike_defs = spike_hw_def spike_phys_def spike_inv_def spike_take_trap_def get_csr_801_def

interpretation spk: window_hw spike_hw spike_inv spike_phys
  "\<lambda>s. base_offset (XPR s)" "\<lambda>s. window_size (XPR s)"
proof (unfold_locales, goal_cases)
  case (1 h i)
  then show ?case by (auto simp: spike_defs regfile_read_eq regfile_wf_def)
next
  case (2 h i v)
  then show ?case by (auto simp: spike_defs regfile_write_eq regfile_wf_def fun_eq_iff)
next
  case (3 h j v)
  then show ?case by (simp add: spike_defs regfile_write_def)
next
  case (4 h i v)
  then show ?case by (simp add: spike_defs regfile_wf_write)
next
  case (5 h i v)
  then show ?case by (simp add: spike_defs regfile_write_eq)
next
  case (6 h i v)
  then show ?case by (simp add: spike_defs regfile_write_eq)
next
  case (7 h i v)
  then show ?case by (simp add: spike_defs)
next
  case (8 h)
  then show ?case by (simp add: spike_defs regfile_wf_set_window_config) (simp add: regfile_wf_def)
next
  case (9 h)
  then show ?case by (simp add: spike_defs fun_eq_iff)
next
  case (10 h)
  then show ?case by (simp add: spike_defs regfile_wf_set_window_config)
next
  case (11 h)
  then show ?case by (simp add: spike_defs regfile_wf_set_window_config)
next
  case (12 h v)
  then show ?case by (simp add: spike_hw_def put_csr_801_eq spike_inv_def)
next
  case (13 h v)
  then show ?case by (simp add: spike_hw_def put_csr_801_eq spike_phys_def fun_eq_iff)
next
  case (14 h v)
  then show ?case by (simp add: spike_hw_def put_csr_801_eq)
next
  case (15 h v)
  then show ?case by (simp add: spike_hw_def put_csr_801_eq)
next
  case (16 h v)
  then show ?case by (simp add: spike_hw_def put_csr_801_eq get_csr_801_def)
next
  case (17 h)
  then show ?case by (simp add: spike_hw_def spike_phys_def spike_mret_frame fun_eq_iff)
next
  case (18 h)
  then have "valid_cfg (window_staged h)" by (simp add: spike_defs)
  with 18 show ?case
    by (simp add: spike_hw_def spike_inv_def [of "spike_mret h"] spike_mret_valid)
      (auto simp: spike_inv_def regfile_wf_def valid_cfg_def)
next
  case (19 h)
  then show ?case by (simp add: spike_hw_def get_csr_801_def spike_mret_valid)
next
  case (20 h)
  then show ?case by (simp add: spike_hw_def get_csr_801_def spike_mret_valid)
next
  case (21 h)
  then show ?case by (simp add: spike_defs spike_mret_frame)
next
  case (22 h i v)
  then show ?case by (simp add: spike_defs)
qed

lemma default_window: "cfg_base DEFAULT_WINDOW_CONFIG = 0" "cfg_size DEFAULT_WINDOW_CONFIG = 32"
  by (simp_all add: cfg_base_def cfg_size_def DEFAULT_WINDOW_CONFIG_def drop_bit_eq_div
      unat_div unsigned_and_eq)

lemmas cva6_defs = cva6_hw_def cva6_phys_def cva6_inv_def cva6_trap_def cva6_mret_def
  cva6_csrr_801_def cva6_csrw_801_def

interpretation cva: window_hw cva6_hw cva6_inv cva6_phys
  "\<lambda>c. cfg_base (window_config_q c)" "\<lambda>c. cfg_size (window_config_q c)"
proof (unfold_locales, goal_cases)
  case (1 h i)
  then show ?case by (auto simp: cva6_defs cva6_read_def in_window_def)
next
  case (2 h i v)
  then show ?case
    by (auto simp: cva6_defs cva6_write_def in_window_def fun_eq_iff nth_list_update)
next
  case (3 h j v)
  then show ?case by (auto simp: cva6_defs cva6_write_def in_window_def nth_list_update)
next
  case (4 h i v)
  then show ?case by (auto simp: cva6_defs cva6_write_def Let_def)
qed (auto simp: cva6_defs cva6_write_def Let_def fun_eq_iff default_window)

end
