(* ===== verification/Port_Context.thy ===== *)
theory Port_Context
  imports Window_Regfile
begin

text \<open>
  The context switch of the RISC-V port: the assembly macros of
  \<^verbatim>\<open>portable/GCC/RISC-V/portContext.h\<close> and \<^verbatim>\<open>portASM.S\<close> as instruction lists run
  on a machine over either register file, and the window API of \<^verbatim>\<open>port.c\<close> and
  \<^verbatim>\<open>tasks.c\<close>. The configuration is the one of the CVA6 and Spike demos: RV32I register
  set, \<^verbatim>\<open>portasmUSE_REGISTER_WINDOWS = 1\<close>, \<^verbatim>\<open>portasmENABLE_MINIMAL_SAVE = 1\<close>,
  no FPU, no VPU, no chip-specific registers, no \<^verbatim>\<open>CYCLE_BREAKDOWN_PROFILE\<close>.
\<close>

section \<open>The machine\<close>

text \<open>The window members of a TCB (\<^verbatim>\<open>tskTaskControlBlock\<close> in \<^verbatim>\<open>tasks.c\<close>).\<close>

record window_tcb =
  ulPortWindowConfig :: word32
  ucPortBorrowKernelWindow :: byte
  ucPortLastContextType :: byte

text \<open>
  \<open>stk\<close> is the RAM that holds task stacks, a word at each word address;
  \<open>pxTopOfStack\<close> is the first member of the TCB at an address. The C globals that the
  assembly uses are fields: the C language keeps them apart from the stacks. \<open>addr_of\<close> is
  the address the linker gave a symbol, which \<^verbatim>\<open>la\<close> leaves in a register.
\<close>

datatype symbol =
    port_current_task_window_base
  | port_window_invalid_minimal_restore
  | port_window_kernel_borrow_restores
  | port_window_kernel_stage_count
  | xCriticalNesting
  | pxCurrentTCB
  | xISRStackTop
  | xTaskReturnAddress

record 'h machine =
  hart :: 'h
  stk :: "word32 \<Rightarrow> word32"
  pxTopOfStack :: "word32 \<Rightarrow> word32"
  window_tcbs :: "word32 \<Rightarrow> window_tcb"
  glob :: "symbol \<Rightarrow> word32"
  addr_of :: "symbol \<Rightarrow> word32"
  mstatus :: word32
  mepc :: word32
  mcause :: word32
  pc :: word32

abbreviation ra :: nat where "ra \<equiv> 1"
abbreviation sp :: nat where "sp \<equiv> 2"
abbreviation t0 :: nat where "t0 \<equiv> 5"
abbreviation t1 :: nat where "t1 \<equiv> 6"
abbreviation t2 :: nat where "t2 \<equiv> 7"
abbreviation a0 :: nat where "a0 \<equiv> 10"
abbreviation a1 :: nat where "a1 \<equiv> 11"
abbreviation a2 :: nat where "a2 \<equiv> 12"
abbreviation t3 :: nat where "t3 \<equiv> 28"
abbreviation t4 :: nat where "t4 \<equiv> 29"
abbreviation t5 :: nat where "t5 \<equiv> 30"
abbreviation t6 :: nat where "t6 \<equiv> 31"

text \<open>
  The instructions the macros use. Offsets of \<open>Load_x\<close> and \<open>Store_x\<close> count words
  (\<^verbatim>\<open>portWORD_SIZE\<close> is 4). \<open>Load_sym\<close> is \<^verbatim>\<open>load_x rd, symbol\<close>; the pair
  \<^verbatim>\<open>la rs, symbol\<close> and \<^verbatim>\<open>load_x rd, 0(rs)\<close> is \<open>La\<close> and \<open>Load_g\<close>, and
  \<open>Store_g\<close> is the store \<^verbatim>\<open>store_x r, 0(rs)\<close> that follows such a \<^verbatim>\<open>la\<close>.
  \<open>Load_top\<close> and \<open>Store_top\<close> access the first member of the TCB a register points to.
\<close>

datatype instr =
    Load_x nat nat nat
  | Store_x nat nat nat
  | Addi nat nat word32
  | Li nat word32
  | And_x nat nat nat
  | Andi nat nat word32
  | Or_x nat nat nat
  | Slli nat nat nat
  | La nat symbol
  | Load_sym nat symbol
  | Load_g nat symbol
  | Store_g nat symbol
  | Load_top nat nat
  | Store_top nat nat
  | Csrr_mstatus nat
  | Csrw_mstatus nat
  | Csrr_mepc nat
  | Csrw_mepc nat
  | Csrr_mcause nat
  | Csrr_staged nat
  | Csrw_staged nat
  | Ret
  | Mret

definition xr :: "'h hw_ops \<Rightarrow> 'h machine \<Rightarrow> nat \<Rightarrow> word32" where
  "xr ops m r = hw_read ops (hart m) r"

definition xw :: "'h hw_ops \<Rightarrow> nat \<Rightarrow> word32 \<Rightarrow> 'h machine \<Rightarrow> 'h machine" where
  "xw ops r v m = m\<lparr>hart := hw_write ops r v (hart m)\<rparr>"

definition stage :: "'h hw_ops \<Rightarrow> word32 \<Rightarrow> 'h machine \<Rightarrow> 'h machine" where
  "stage ops v m = m\<lparr>hart := hw_csrw ops v (hart m)\<rparr>"

text \<open>
  The machine-mode trap and return on \<^verbatim>\<open>mstatus\<close>: entry moves MIE (bit 3) to MPIE
  (bit 7), clears MIE and sets MPP (bits 11 and 12) to M; \<^verbatim>\<open>mret\<close> moves MPIE to MIE, sets
  MPIE and leaves the least privilege (U) in MPP.
\<close>

definition trap_mstatus :: "word32 \<Rightarrow> word32" where
  "trap_mstatus s =
     (let s1 = (if bit s 3 then set_bit 7 s else unset_bit 7 s)
      in unset_bit 3 s1 OR 0x1800)"

definition mret_mstatus :: "word32 \<Rightarrow> word32" where
  "mret_mstatus s =
     (let s1 = (if bit s 7 then set_bit 3 s else unset_bit 3 s)
      in set_bit 7 s1 AND NOT 0x1800)"

fun exec :: "'h hw_ops \<Rightarrow> instr \<Rightarrow> 'h machine \<Rightarrow> 'h machine" where
  "exec ops (Load_x rd off rs) m = xw ops rd (stk m (xr ops m rs + 4 * of_nat off)) m"
| "exec ops (Store_x r off rs) m =
     m\<lparr>stk := (stk m)(xr ops m rs + 4 * of_nat off := xr ops m r)\<rparr>"
| "exec ops (Addi rd rs i) m = xw ops rd (xr ops m rs + i) m"
| "exec ops (Li rd i) m = xw ops rd i m"
| "exec ops (And_x rd r s) m = xw ops rd (xr ops m r AND xr ops m s) m"
| "exec ops (Andi rd r i) m = xw ops rd (xr ops m r AND i) m"
| "exec ops (Or_x rd r s) m = xw ops rd (xr ops m r OR xr ops m s) m"
| "exec ops (Slli rd r n) m = xw ops rd (push_bit n (xr ops m r)) m"
| "exec ops (La rd g) m = xw ops rd (addr_of m g) m"
| "exec ops (Load_sym rd g) m = xw ops rd (glob m g) m"
| "exec ops (Load_g rd g) m = xw ops rd (glob m g) m"
| "exec ops (Store_g r g) m = m\<lparr>glob := (glob m)(g := xr ops m r)\<rparr>"
| "exec ops (Load_top rd rs) m = xw ops rd (pxTopOfStack m (xr ops m rs)) m"
| "exec ops (Store_top r rs) m =
     m\<lparr>pxTopOfStack := (pxTopOfStack m)(xr ops m rs := xr ops m r)\<rparr>"
| "exec ops (Csrr_mstatus rd) m = xw ops rd (mstatus m) m"
| "exec ops (Csrw_mstatus r) m = m\<lparr>mstatus := xr ops m r\<rparr>"
| "exec ops (Csrr_mepc rd) m = xw ops rd (mepc m) m"
| "exec ops (Csrw_mepc r) m = m\<lparr>mepc := xr ops m r\<rparr>"
| "exec ops (Csrr_mcause rd) m = xw ops rd (mcause m) m"
| "exec ops (Csrr_staged rd) m = xw ops rd (hw_csrr ops (hart m)) m"
| "exec ops (Csrw_staged r) m = stage ops (xr ops m r) m"
| "exec ops Ret m = m\<lparr>pc := xr ops m ra\<rparr>"
| "exec ops Mret m = m\<lparr>hart := hw_mret ops (hart m), pc := mepc m,
                      mstatus := mret_mstatus (mstatus m)\<rparr>"

definition run :: "'h hw_ops \<Rightarrow> instr list \<Rightarrow> 'h machine \<Rightarrow> 'h machine" where
  "run ops is m = fold (exec ops) is m"

lemma run_simps [simp]:
  "run ops [] m = m" "run ops (i # is) m = run ops is (exec ops i m)"
  "run ops (is @ js) m = run ops js (run ops is m)"
  by (simp_all add: run_def)

text \<open>Trap entry: the hardware switches to the kernel window and vectors to the handler.\<close>

definition take_trap :: "'h hw_ops \<Rightarrow> word32 \<Rightarrow> 'h machine \<Rightarrow> 'h machine" where
  "take_trap ops cause m =
     m\<lparr>hart := hw_trap ops (hart m), mepc := pc m, mcause := cause,
       mstatus := trap_mstatus (mstatus m)\<rparr>"

section \<open>The stack frame\<close>

definition portCONTEXT_SIZE :: word32 where "portCONTEXT_SIZE = 33 * 4"
abbreviation portCRITICAL_NESTING_OFFSET :: nat where "portCRITICAL_NESTING_OFFSET \<equiv> 30"
abbreviation portWINDOW_CFG_OFFSET :: nat where "portWINDOW_CFG_OFFSET \<equiv> 31"
abbreviation portCONTEXT_TYPE_OFFSET :: nat where "portCONTEXT_TYPE_OFFSET \<equiv> 32"

text \<open>The slot of each general-purpose register, in the order the save macro stores them.\<close>

definition save_layout :: "(nat \<times> nat) list" where
  "save_layout = [(30, 28), (31, 29), (1, 2), (5, 3), (6, 4), (7, 5), (8, 6), (9, 7),
     (10, 8), (11, 9), (12, 10), (13, 11), (14, 12), (15, 13), (16, 14), (17, 15),
     (18, 16), (19, 17), (20, 18), (21, 19), (22, 20), (23, 21), (24, 22), (25, 23),
     (26, 24), (27, 25), (28, 26), (29, 27)]"

definition restore_layout :: "(nat \<times> nat) list" where
  "restore_layout = [(1, 2), (5, 3), (6, 4), (7, 5), (8, 6), (9, 7),
     (10, 8), (11, 9), (12, 10), (13, 11), (14, 12), (15, 13), (16, 14), (17, 15),
     (18, 16), (19, 17), (20, 18), (21, 19), (22, 20), (23, 21), (24, 22), (25, 23),
     (26, 24), (27, 25), (28, 26), (29, 27), (30, 28), (31, 29)]"

definition stores :: "(nat \<times> nat) list \<Rightarrow> instr list" where
  "stores l = map (\<lambda>(r, off). Store_x r off sp) l"

definition loads :: "(nat \<times> nat) list \<Rightarrow> instr list" where
  "loads l = map (\<lambda>(r, off). Load_x r off sp) l"

section \<open>Saving a context\<close>

definition save_full :: "instr list" where
  "save_full = [Addi sp sp (- portCONTEXT_SIZE)] @ stores save_layout @
     [Load_sym t0 xCriticalNesting, Store_x t0 portCRITICAL_NESTING_OFFSET sp,
      Csrr_mstatus t0, Store_x t0 1 sp,
      Store_x 0 portWINDOW_CFG_OFFSET sp, Store_x 0 portCONTEXT_TYPE_OFFSET sp,
      Load_sym t0 pxCurrentTCB, Store_top sp t0]"

definition save_minimal :: "instr list" where
  "save_minimal = [Addi sp sp (- portCONTEXT_SIZE),
      Csrr_mstatus t0, Store_x t0 1 sp,
      Load_sym t0 xCriticalNesting, Store_x t0 portCRITICAL_NESTING_OFFSET sp,
      Csrr_staged t0, Store_x t0 portWINDOW_CFG_OFFSET sp,
      Addi t0 0 1, Store_x t0 portCONTEXT_TYPE_OFFSET sp,
      Load_sym t0 pxCurrentTCB, Store_top sp t0]"

definition portcontextSAVE_CONTEXT_INTERNAL :: "'h hw_ops \<Rightarrow> 'h machine \<Rightarrow> 'h machine" where
  "portcontextSAVE_CONTEXT_INTERNAL ops m =
     (let m1 = run ops [La t0 port_current_task_window_base,
                        Load_g t0 port_current_task_window_base] m
      in if xr ops m1 t0 \<noteq> 0 then run ops save_minimal m1 else run ops save_full m1)"

definition portcontextSAVE_EXCEPTION_CONTEXT :: "'h hw_ops \<Rightarrow> 'h machine \<Rightarrow> 'h machine" where
  "portcontextSAVE_EXCEPTION_CONTEXT ops m =
     run ops [Csrr_mcause a0, Csrr_mepc a1, Addi a1 a1 4, Store_x a1 0 sp,
              Load_sym sp xISRStackTop]
       (portcontextSAVE_CONTEXT_INTERNAL ops m)"

definition portcontextSAVE_INTERRUPT_CONTEXT :: "'h hw_ops \<Rightarrow> 'h machine \<Rightarrow> 'h machine" where
  "portcontextSAVE_INTERRUPT_CONTEXT ops m =
     run ops [Csrr_mcause a0, Csrr_mepc a1, Store_x a1 0 sp, Load_sym sp xISRStackTop]
       (portcontextSAVE_CONTEXT_INTERNAL ops m)"

section \<open>Restoring a context\<close>

definition bump :: "symbol \<Rightarrow> instr list" where
  "bump g = [La t5 g, Load_g t6 g, Addi t6 t6 1, Store_g t6 g]"

definition restore_full_head :: "instr list" where
  "restore_full_head = [Load_x t0 0 sp, Csrw_mepc t0, Load_x t3 1 sp, Csrw_mstatus t3,
      Load_x t0 portCRITICAL_NESTING_OFFSET sp, La t1 xCriticalNesting,
      Store_g t0 xCriticalNesting] @ loads restore_layout @
     [Addi sp sp portCONTEXT_SIZE, Addi t4 sp (- portCONTEXT_SIZE),
      Load_x t2 portWINDOW_CFG_OFFSET t4]"

definition restore_full :: "'h hw_ops \<Rightarrow> 'h machine \<Rightarrow> 'h machine" where
  "restore_full ops m =
     (let m1 = run ops restore_full_head m;
          m2 = (if xr ops m1 t2 = 0
                then run ops (bump port_window_kernel_borrow_restores @
                              bump port_window_kernel_stage_count) m1
                else m1)
      in run ops [Csrw_staged t2, Mret] m2)"

definition restore_minimal :: "instr list" where
  "restore_minimal = [Load_x t0 0 sp, Csrw_mepc t0, Load_x t3 1 sp, Csrw_mstatus t3,
      Load_x t0 portWINDOW_CFG_OFFSET sp, Csrw_staged t0,
      Load_x t0 portCRITICAL_NESTING_OFFSET sp, La t1 xCriticalNesting,
      Store_g t0 xCriticalNesting,
      Addi sp sp portCONTEXT_SIZE, Mret]"

definition restore_head :: "instr list" where
  "restore_head = [Load_sym t1 pxCurrentTCB, Load_top sp t1,
      Load_x t0 portWINDOW_CFG_OFFSET sp, Li t5 0xFFFF, And_x t0 t0 t5,
      La t5 port_current_task_window_base, Store_g t0 port_current_task_window_base,
      Load_x t2 portCONTEXT_TYPE_OFFSET sp]"

definition portcontextRESTORE_CONTEXT :: "'h hw_ops \<Rightarrow> 'h machine \<Rightarrow> 'h machine" where
  "portcontextRESTORE_CONTEXT ops m =
     (let m1 = run ops restore_head m
      in if xr ops m1 t2 = 0 then restore_full ops m1
         else let m2 = run ops [Load_x t4 portWINDOW_CFG_OFFSET sp] m1
              in if xr ops m2 t4 \<noteq> 0 then run ops restore_minimal m2
                 else restore_full ops
                   (run ops (bump port_window_invalid_minimal_restore) m2))"

section \<open>The trap handler\<close>

text \<open>
  \<^verbatim>\<open>freertos_risc_v_trap_handler\<close>, the address both start-up files put in
  \<^verbatim>\<open>mtvec\<close>. The C functions it calls are state transformers: \<^verbatim>\<open>vTaskSwitchContext\<close>,
  \<^verbatim>\<open>xTaskIncrementTick\<close> (its result in \<^verbatim>\<open>a0\<close>), the update of the timer compare
  register and the two weak application handlers. \<open>has_mtime\<close> is
  \<^verbatim>\<open>portasmHAS_MTIME\<close>.
\<close>

record 'h c_calls =
  c_vTaskSwitchContext :: "'h machine \<Rightarrow> 'h machine"
  c_xTaskIncrementTick :: "'h machine \<Rightarrow> 'h machine"
  c_update_mtimer_compare :: "'h machine \<Rightarrow> 'h machine"
  c_application_interrupt_handler :: "'h machine \<Rightarrow> 'h machine"
  c_application_exception_handler :: "'h machine \<Rightarrow> 'h machine"

definition handle_exception :: "'h hw_ops \<Rightarrow> 'h c_calls \<Rightarrow> 'h machine \<Rightarrow> 'h machine" where
  "handle_exception ops c m =
     (let m1 = run ops [Li t0 11] m
      in if xr ops m1 a0 \<noteq> xr ops m1 t0 then c_application_exception_handler c m1
         else c_vTaskSwitchContext c m1)"

definition handle_interrupt :: "'h hw_ops \<Rightarrow> 'h c_calls \<Rightarrow> bool \<Rightarrow> 'h machine \<Rightarrow> 'h machine" where
  "handle_interrupt ops c has_mtime m =
     (if has_mtime then
        let m1 = run ops [Addi t0 0 1, Slli t0 t0 31, Addi t1 t0 7] m
        in if xr ops m1 a0 \<noteq> xr ops m1 t1 then c_application_interrupt_handler c m1
           else let m2 = c_xTaskIncrementTick c (c_update_mtimer_compare c m1)
                in if xr ops m2 a0 = 0 then m2 else c_vTaskSwitchContext c m2
      else c_application_interrupt_handler c m)"

definition freertos_risc_v_trap_handler ::
  "'h hw_ops \<Rightarrow> 'h c_calls \<Rightarrow> bool \<Rightarrow> 'h machine \<Rightarrow> 'h machine" where
  "freertos_risc_v_trap_handler ops c has_mtime m =
     (let m1 = run ops [Csrr_mcause a0, Csrr_mepc a1] (portcontextSAVE_CONTEXT_INTERNAL ops m)
      in portcontextRESTORE_CONTEXT ops
           (if 0 \<le> sint (xr ops m1 a0)
            then handle_exception ops c
                   (run ops [Addi a1 a1 4, Store_x a1 0 sp, Load_sym sp xISRStackTop] m1)
            else handle_interrupt ops c has_mtime
                   (run ops [Store_x a1 0 sp, Load_sym sp xISRStackTop] m1)))"

section \<open>Creating and starting a task\<close>

text \<open>
  \<^verbatim>\<open>pxPortInitialiseStack\<close>: the top of the stack comes in \<^verbatim>\<open>a0\<close>, the task's code in
  \<^verbatim>\<open>a1\<close>, its parameter in \<^verbatim>\<open>a2\<close>; the new top of stack goes out in \<^verbatim>\<open>a0\<close>.
  \<^verbatim>\<open>portasmADDITIONAL_CONTEXT_SIZE\<close> is 0, so the loop over chip-specific registers ends at
  its first test.
\<close>

definition pxPortInitialiseStack :: "instr list" where
  "pxPortInitialiseStack =
     [Addi a0 a0 (- 4), Store_x 0 0 a0, Addi a0 a0 (- 4), Store_x 0 0 a0,
      Addi a0 a0 (- 4), Store_x 0 0 a0,
      Addi a0 a0 (- (22 * 4)), Store_x a2 0 a0,
      Addi a0 a0 (- (6 * 4)), Load_sym t0 xTaskReturnAddress, Store_x t0 0 a0,
      Csrr_mstatus t0, Andi t0 t0 (NOT 8), Addi t1 0 0x188, Slli t1 t1 4, Or_x t0 t0 t1,
      Addi a0 a0 (- 4), Store_x t0 0 a0,
      Addi t0 0 0,
      Addi a0 a0 (- 4), Store_x a1 0 a0, Ret]"

definition start_layout :: "(nat \<times> nat) list" where
  "start_layout = [(7, 5), (8, 6), (9, 7), (10, 8), (11, 9), (12, 10), (13, 11), (14, 12),
     (15, 13), (16, 14), (17, 15), (18, 16), (19, 17), (20, 18), (21, 19), (22, 20), (23, 21),
     (24, 22), (25, 23), (26, 24), (27, 25), (28, 26), (29, 27), (30, 28), (31, 29)]"

definition start_legacy :: "instr list" where
  "start_legacy = [Load_x 1 0 sp, Load_x 5 1 sp, Addi 5 5 8, Csrw_mstatus 5] @
     loads start_layout @
     [Load_x 5 portCRITICAL_NESTING_OFFSET sp, La 6 xCriticalNesting, Store_g 5 xCriticalNesting,
      Load_x 5 3 sp, Load_x 6 4 sp, Addi sp sp portCONTEXT_SIZE, Ret]"

definition xPortStartFirstTaskWindowed :: "instr list" where
  "xPortStartFirstTaskWindowed =
     [Li t5 0xFFFF, And_x t5 t0 t5, La t6 port_current_task_window_base,
      Store_g t5 port_current_task_window_base,
      Load_x t1 0 sp, Load_x t2 1 sp, Addi t2 t2 8,
      Load_x t3 portCRITICAL_NESTING_OFFSET sp, La t4 xCriticalNesting,
      Store_g t3 xCriticalNesting, Csrw_mepc t1, Csrw_mstatus t2] @
     loads restore_layout @
     [Addi sp sp 0, Csrw_staged t0, Mret]"

definition xPortStartFirstTask :: "'h hw_ops \<Rightarrow> 'h machine \<Rightarrow> 'h machine" where
  "xPortStartFirstTask ops m =
     (let m1 = run ops [Load_sym sp pxCurrentTCB, Load_top sp sp,
                        Load_x t0 portWINDOW_CFG_OFFSET sp] m
      in if xr ops m1 t0 \<noteq> 0 then run ops xPortStartFirstTaskWindowed m1
         else run ops start_legacy m1)"

section \<open>The window API of \<^verbatim>\<open>tasks.c\<close> and \<^verbatim>\<open>port.c\<close>\<close>

text \<open>
  Handles are TCB addresses, \<open>0\<close> is \<^verbatim>\<open>NULL\<close>. \<open>None\<close> is a failed
  \<^verbatim>\<open>configASSERT\<close>, which never returns. An output pointer is a flag that says whether it
  is not \<^verbatim>\<open>NULL\<close>; what is written through it is returned.
\<close>

definition prvGetTCBFromHandle :: "word32 \<Rightarrow> 'h machine \<Rightarrow> word32" where
  "prvGetTCBFromHandle h m = (if h = 0 then glob m pxCurrentTCB else h)"

definition vTaskSetWindowingContext ::
  "word32 \<Rightarrow> word32 \<Rightarrow> word32 \<Rightarrow> 'h machine \<Rightarrow> 'h machine option" where
  "vTaskSetWindowingContext xTask ulWindowConfig xBorrowKernelWindow m =
     (let pxTCB = prvGetTCBFromHandle xTask m
      in if pxTCB = 0 then None
         else Some (m\<lparr>window_tcbs := (window_tcbs m)(pxTCB := (window_tcbs m pxTCB)
                \<lparr>ulPortWindowConfig := ulWindowConfig,
                  ucPortBorrowKernelWindow := (if xBorrowKernelWindow \<noteq> 0 then 1 else 0)\<rparr>)\<rparr>))"

definition xTaskGetWindowingContext ::
  "word32 \<Rightarrow> 'h machine \<Rightarrow> (word32 \<times> bool \<times> byte) option" where
  "xTaskGetWindowingContext xTask m =
     (let pxTCB = prvGetTCBFromHandle xTask m; w = window_tcbs m pxTCB
      in if pxTCB = 0 then None
         else Some (ulPortWindowConfig w, ucPortBorrowKernelWindow w \<noteq> 0, ucPortLastContextType w))"

definition vTaskSetLastWindowContextType ::
  "word32 \<Rightarrow> word32 \<Rightarrow> 'h machine \<Rightarrow> 'h machine option" where
  "vTaskSetLastWindowContextType xTask uxContextType m =
     (let pxTCB = prvGetTCBFromHandle xTask m
      in if pxTCB = 0 then None
         else Some (m\<lparr>window_tcbs := (window_tcbs m)(pxTCB := (window_tcbs m pxTCB)
                \<lparr>ucPortLastContextType := (if uxContextType \<noteq> 0 then 1 else 0)\<rparr>)\<rparr>))"

definition set_window_slot :: "word32 \<Rightarrow> word32 \<Rightarrow> 'h machine \<Rightarrow> 'h machine" where
  "set_window_slot xTask v m =
     (let top = pxTopOfStack m xTask
      in if top \<noteq> 0
         then m\<lparr>stk := (stk m)(top + 4 * of_nat portWINDOW_CFG_OFFSET := v)\<rparr> else m)"

definition vPortTaskSetRegisterWindow ::
  "word32 \<Rightarrow> word32 \<Rightarrow> word32 \<Rightarrow> 'h machine \<Rightarrow> 'h machine option" where
  "vPortTaskSetRegisterWindow xTask ulBase ulSize m =
     (if xTask = 0 then Some m
      else let ulWindowConfig = push_bit 16 ulSize OR (ulBase AND 0xFFFF)
           in map_option (set_window_slot xTask ulWindowConfig)
                (vTaskSetWindowingContext xTask ulWindowConfig 0 m))"

definition vPortTaskSetKernelBorrowing ::
  "word32 \<Rightarrow> word32 \<Rightarrow> 'h machine \<Rightarrow> 'h machine option" where
  "vPortTaskSetKernelBorrowing xTask xEnable m =
     (if xTask = 0 then Some m
      else let ulWindowConfig =
             (if xEnable = 0
              then (case xTaskGetWindowingContext xTask m of
                      None \<Rightarrow> 0 | Some (cfg, _, _) \<Rightarrow> cfg)
              else 0)
           in map_option
                (set_window_slot xTask (if xEnable \<noteq> 0 then 0 else ulWindowConfig))
                (vTaskSetWindowingContext xTask ulWindowConfig xEnable m))"

definition vPortGetWindowIntegrityCounters :: "'h machine \<Rightarrow> word32 \<times> word32 \<times> word32" where
  "vPortGetWindowIntegrityCounters m =
     (glob m port_window_invalid_minimal_restore,
      glob m port_window_kernel_borrow_restores,
      glob m port_window_kernel_stage_count)"

end
