(* ===== verification/Port_Switch.thy ===== *)
theory Port_Switch
  imports Port_Context
begin

text \<open>
  Correctness of the context switch. The locale context of \<open>window_hw\<close> carries the symbolic
  execution of the save and restore macros for any register file that keeps its laws; the
  theorems at the end state the switch for the Spike and the CVA6 core.
\<close>

section \<open>Frame facts of the register operations\<close>

lemma xw_frame [simp]:
  "stk (xw ops r v m) = stk m" "pxTopOfStack (xw ops r v m) = pxTopOfStack m"
  "window_tcbs (xw ops r v m) = window_tcbs m" "glob (xw ops r v m) = glob m"
  "addr_of (xw ops r v m) = addr_of m" "mstatus (xw ops r v m) = mstatus m"
  "mepc (xw ops r v m) = mepc m" "mcause (xw ops r v m) = mcause m" "pc (xw ops r v m) = pc m"
  by (simp_all add: xw_def)

lemma stage_frame [simp]:
  "stk (stage ops v m) = stk m" "pxTopOfStack (stage ops v m) = pxTopOfStack m"
  "window_tcbs (stage ops v m) = window_tcbs m" "glob (stage ops v m) = glob m"
  "addr_of (stage ops v m) = addr_of m" "mstatus (stage ops v m) = mstatus m"
  "mepc (stage ops v m) = mepc m" "mcause (stage ops v m) = mcause m" "pc (stage ops v m) = pc m"
  by (simp_all add: stage_def)

lemma xr_upd [simp]:
  "xr ops (m\<lparr>stk := s\<rparr>) k = xr ops m k" "xr ops (m\<lparr>pxTopOfStack := p\<rparr>) k = xr ops m k"
  "xr ops (m\<lparr>glob := g\<rparr>) k = xr ops m k" "xr ops (m\<lparr>mstatus := w\<rparr>) k = xr ops m k"
  "xr ops (m\<lparr>mepc := w\<rparr>) k = xr ops m k" "xr ops (m\<lparr>mcause := w\<rparr>) k = xr ops m k"
  "xr ops (m\<lparr>pc := w\<rparr>) k = xr ops m k"
  by (simp_all add: xr_def)


section \<open>What a suspended task needs from the kernel\<close>

text \<open>
  Between the save and the restore of a task the kernel and other tasks run. The task is
  resumed intact if it is the current task again, its TCB still points at its frame and the
  33 words of the frame are as the save left them.
\<close>

definition frame_kept :: "'h machine \<Rightarrow> 'h machine \<Rightarrow> bool" where
  "frame_kept s k \<longleftrightarrow>
     (let t = glob s pxCurrentTCB; f = pxTopOfStack s t
      in glob k pxCurrentTCB = t \<and> pxTopOfStack k t = f \<and>
         (\<forall>off<33. stk k (f + 4 * of_nat off) = stk s (f + 4 * of_nat off)))"

lemma frame_keptD:
  assumes "frame_kept s k" "t = glob s pxCurrentTCB" "f = pxTopOfStack s t"
  shows "glob k pxCurrentTCB = t" "pxTopOfStack k t = f"
    "off < 33 \<Longrightarrow> stk k (f + 4 * of_nat off) = stk s (f + 4 * of_nat off)"
    "stk k f = stk s f" "stk k (f + 4) = stk s (f + 4)" "stk k (f + 120) = stk s (f + 120)"
    "stk k (f + 124) = stk s (f + 124)" "stk k (f + 128) = stk s (f + 128)"
proof -
  have *: "\<forall>off<33. stk k (f + 4 * of_nat off) = stk s (f + 4 * of_nat off)"
    using assms by (simp add: frame_kept_def Let_def)
  show "glob k pxCurrentTCB = t" "pxTopOfStack k t = f"
    using assms by (simp_all add: frame_kept_def Let_def)
  show "off < 33 \<Longrightarrow> stk k (f + 4 * of_nat off) = stk s (f + 4 * of_nat off)" using * by blast
  show "stk k f = stk s f" using *[rule_format, of 0] by simp
  show "stk k (f + 4) = stk s (f + 4)" using *[rule_format, of 1] by simp
  show "stk k (f + 120) = stk s (f + 120)" using *[rule_format, of 30] by simp
  show "stk k (f + 124) = stk s (f + 124)" using *[rule_format, of 31] by simp
  show "stk k (f + 128) = stk s (f + 128)" using *[rule_format, of 32] by simp
qed

lemma mstatus_round_trip: "bit (mret_mstatus (trap_mstatus s)) 3 = bit s 3"
  by (simp add: mret_mstatus_def trap_mstatus_def Let_def bit_simps)

text \<open>
  A task that owns the window \<open>c\<close>: the window is active, lies above the kernel's 32
  registers, is what a trap hands over in CSR 0x801, and the port has recorded its base.
\<close>

definition windowed_task ::
  "'h hw_ops \<Rightarrow> ('h \<Rightarrow> bool) \<Rightarrow> ('h \<Rightarrow> nat) \<Rightarrow> ('h \<Rightarrow> nat) \<Rightarrow> word32 \<Rightarrow> 'h machine \<Rightarrow> bool" where
  "windowed_task ops hinv hbase hsize c m \<longleftrightarrow>
     hinv (hart m) \<and> valid_cfg c \<and> 32 \<le> cfg_base c \<and>
     hbase (hart m) = cfg_base c \<and> hsize (hart m) = cfg_size c \<and>
     hw_csrr ops (hw_trap ops (hart m)) = c \<and>
     glob m port_current_task_window_base = c AND 0xFFFF"

text \<open>A machine that executes in the kernel's window (base 0, size 32).\<close>

definition kernel_window ::
  "('h \<Rightarrow> bool) \<Rightarrow> ('h \<Rightarrow> nat) \<Rightarrow> ('h \<Rightarrow> nat) \<Rightarrow> 'h machine \<Rightarrow> bool" where
  "kernel_window hinv hbase hsize m \<longleftrightarrow>
     hinv (hart m) \<and> hbase (hart m) = 0 \<and> hsize (hart m) = 32"

lemma cfg_base_nonzero: "32 \<le> cfg_base c \<Longrightarrow> c AND 0xFFFF \<noteq> 0 \<and> c \<noteq> 0"
  by (auto simp: cfg_base_def)

lemma restore_layout_covers:
  "\<forall>i \<in> set [0..<32]. i \<in> {0, 2, 3, 4} \<or> i \<in> set (map fst restore_layout)"
  by code_simp

section \<open>Symbolic execution of the macros\<close>

context window_hw
begin

definition kwin :: "'h machine \<Rightarrow> bool" where
  "kwin m \<longleftrightarrow> inv (hart m) \<and> base (hart m) = 0 \<and> wsize (hart m) = 32"

lemma kwin_iff: "kwin m = kernel_window inv base wsize m"
  by (simp add: kwin_def kernel_window_def)

lemma kwin_upd [simp]:
  "kwin (m\<lparr>stk := s\<rparr>) = kwin m" "kwin (m\<lparr>pxTopOfStack := p\<rparr>) = kwin m"
  "kwin (m\<lparr>glob := g\<rparr>) = kwin m" "kwin (m\<lparr>mstatus := w\<rparr>) = kwin m"
  "kwin (m\<lparr>mepc := w\<rparr>) = kwin m" "kwin (m\<lparr>mcause := w\<rparr>) = kwin m"
  "kwin (m\<lparr>pc := w\<rparr>) = kwin m"
  by (simp_all add: kwin_def)

lemma kwin_xw [simp]: "kwin m \<Longrightarrow> r < 32 \<Longrightarrow> kwin (xw ops r v m)"
  by (simp add: kwin_def xw_def hw_laws)

lemma kwin_xr_zero [simp]: "kwin m \<Longrightarrow> xr ops m 0 = 0"
  by (simp add: kwin_def xr_def read_window)

lemma kwin_xr_xw [simp]:
  "kwin m \<Longrightarrow> 0 < r \<Longrightarrow> r < 32 \<Longrightarrow> k < 32 \<Longrightarrow>
   xr ops (xw ops r v m) k = (if k = r then v else xr ops m k)"
  by (simp add: kwin_def xr_def xw_def read_write)

lemma kwin_csrr_xw [simp]:
  "kwin m \<Longrightarrow> r < 32 \<Longrightarrow> hw_csrr ops (hart (xw ops r v m)) = hw_csrr ops (hart m)"
  by (simp add: kwin_def xw_def hw_laws)

lemma kwin_phys_xw [simp]:
  "kwin m \<Longrightarrow> r < 32 \<Longrightarrow> 32 \<le> j \<Longrightarrow> phys (hart (xw ops r v m)) j = phys (hart m) j"
  by (simp add: kwin_def xw_def write_outside)

lemma kwin_stage [simp]:
  "kwin m \<Longrightarrow> kwin (stage ops v m)"
  "kwin m \<Longrightarrow> r < 32 \<Longrightarrow> xr ops (stage ops v m) r = xr ops m r"
  "kwin m \<Longrightarrow> hw_csrr ops (hart (stage ops v m)) = v"
  "kwin m \<Longrightarrow> phys (hart (stage ops v m)) = phys (hart m)"
  by (simp_all add: kwin_def stage_def xr_def read_window hw_laws)

lemma kwin_phys: "kwin m \<Longrightarrow> 0 < r \<Longrightarrow> r < 32 \<Longrightarrow> phys (hart m) r = xr ops m r"
  by (simp add: kwin_def xr_def read_window)

lemma kwin_take_trap [simp]: "inv (hart m) \<Longrightarrow> kwin (take_trap ops cause m)"
  by (simp add: kwin_def take_trap_def hw_laws)

text \<open>The state a minimal save leaves: the frame words it writes, and what it keeps.\<close>

lemma save_minimal_run:
  assumes "kwin m" "m' = run ops save_minimal m" "f = xr ops m sp - portCONTEXT_SIZE"
  shows "kwin m'" "xr ops m' sp = f"
    "stk m' (f + 4) = mstatus m" "stk m' (f + 120) = glob m xCriticalNesting"
    "stk m' (f + 124) = hw_csrr ops (hart m)" "stk m' (f + 128) = 1"
    "pxTopOfStack m' = (pxTopOfStack m)(glob m pxCurrentTCB := f)"
    "glob m' = glob m" "mepc m' = mepc m" "mcause m' = mcause m"
    "\<And>j. 32 \<le> j \<Longrightarrow> phys (hart m') j = phys (hart m) j"
  using assms by (simp_all add: save_minimal_def)

lemma save_full_run:
  assumes "kwin m" "m' = run ops save_full m" "f = xr ops m sp - portCONTEXT_SIZE"
  shows "kwin m'" "xr ops m' sp = f"
    "stk m' (f + 4) = mstatus m" "stk m' (f + 120) = glob m xCriticalNesting"
    "stk m' (f + 124) = 0" "stk m' (f + 128) = 0"
    "\<forall>(r, off) \<in> set save_layout. stk m' (f + 4 * of_nat off) = xr ops m r"
    "pxTopOfStack m' = (pxTopOfStack m)(glob m pxCurrentTCB := f)"
    "glob m' = glob m" "mepc m' = mepc m" "mcause m' = mcause m"
    "xr ops m' 3 = xr ops m 3" "xr ops m' 4 = xr ops m 4"
    "\<And>j. 32 \<le> j \<Longrightarrow> phys (hart m') j = phys (hart m) j"
  using assms by (simp_all add: save_full_def stores_def save_layout_def)

lemma restore_head_run:
  assumes "kwin m" "m' = run ops restore_head m"
    "f = pxTopOfStack m (glob m pxCurrentTCB)"
  shows "kwin m'" "xr ops m' sp = f" "stk m' = stk m" "pxTopOfStack m' = pxTopOfStack m"
    "glob m' = (glob m)(port_current_task_window_base := stk m (f + 124) AND 0xFFFF)"
    "xr ops m' t2 = stk m (f + 128)" "xr ops m' 3 = xr ops m 3" "xr ops m' 4 = xr ops m 4"
    "\<And>j. 32 \<le> j \<Longrightarrow> phys (hart m') j = phys (hart m) j" "addr_of m' = addr_of m"
  using assms by (simp_all add: restore_head_def)


lemma loads_run:
  assumes "kwin m" "\<forall>(r, off) \<in> set l. 0 < r \<and> r < 32 \<and> r \<noteq> sp" "distinct (map fst l)"
    "m' = run ops (loads l) m"
  shows "kwin m' \<and> stk m' = stk m \<and> pxTopOfStack m' = pxTopOfStack m \<and> glob m' = glob m \<and>
    addr_of m' = addr_of m \<and> mepc m' = mepc m \<and> mstatus m' = mstatus m \<and>
    (\<forall>j\<ge>32. phys (hart m') j = phys (hart m) j) \<and>
    (\<forall>k<32. xr ops m' k = (case map_of l k of None \<Rightarrow> xr ops m k
                            | Some off \<Rightarrow> stk m (xr ops m sp + 4 * of_nat off)))"
  using assms
proof (induction l arbitrary: m)
  case Nil
  then show ?case by (simp add: loads_def)
next
  case (Cons a l)
  obtain r off where a: "a = (r, off)" by (cases a)
  let ?m = "exec ops (Load_x r off sp) m"
  have "map_of l r = None" using Cons.prems(3) a by (simp add: map_of_eq_None_iff)
  moreover have "m' = run ops (loads l) ?m" using Cons.prems(4) a by (simp add: loads_def)
  ultimately show ?case
    using Cons.IH [of ?m] Cons.prems a by (auto split: option.splits)
qed

lemma restore_full_head_run:
  assumes "kwin m" "m' = run ops restore_full_head m" "f = xr ops m sp"
  shows "kwin m'" "xr ops m' sp = f + portCONTEXT_SIZE"
    "\<forall>(r, off) \<in> set restore_layout. r \<notin> {t2, t4} \<longrightarrow> xr ops m' r = stk m (f + 4 * of_nat off)"
    "xr ops m' t4 = f" "xr ops m' t2 = stk m (f + 124)"
    "xr ops m' 3 = xr ops m 3" "xr ops m' 4 = xr ops m 4"
    "mepc m' = stk m f" "mstatus m' = stk m (f + 4)"
    "glob m' = (glob m)(xCriticalNesting := stk m (f + 120))" "addr_of m' = addr_of m"
    "stk m' = stk m" "pxTopOfStack m' = pxTopOfStack m"
    "\<And>j. 32 \<le> j \<Longrightarrow> phys (hart m') j = phys (hart m) j"
proof -
  let ?m1 = "run ops [Load_x t0 0 sp, Csrw_mepc t0, Load_x t3 1 sp, Csrw_mstatus t3,
      Load_x t0 portCRITICAL_NESTING_OFFSET sp, La t1 xCriticalNesting,
      Store_g t0 xCriticalNesting] m"
  let ?m2 = "run ops (loads restore_layout) ?m1"
  have layout: "\<forall>(r, off) \<in> set restore_layout. 0 < r \<and> r < 32 \<and> r \<noteq> sp"
    "distinct (map fst restore_layout)" by (simp_all add: restore_layout_def)
  have k1: "kwin ?m1" using assms(1) by simp
  note m2 = loads_run [OF k1 layout refl]
  have m': "m' = run ops [Addi sp sp portCONTEXT_SIZE, Addi t4 sp (- portCONTEXT_SIZE),
      Load_x t2 portWINDOW_CFG_OFFSET t4] ?m2"
    using assms(2) by (simp add: restore_full_head_def del: exec.simps)
  have k2: "kwin ?m2" using m2 by blast
  have sp2: "xr ops ?m2 sp = f" using m2 assms by (simp add: restore_layout_def)
  show "kwin m'" "xr ops m' sp = f + portCONTEXT_SIZE" "xr ops m' t4 = f"
    unfolding m' using k2 sp2 by simp_all
  show "xr ops m' t2 = stk m (f + 124)" "stk m' = stk m" "pxTopOfStack m' = pxTopOfStack m"
    "addr_of m' = addr_of m" "mepc m' = stk m f" "mstatus m' = stk m (f + 4)"
    "glob m' = (glob m)(xCriticalNesting := stk m (f + 120))"
    unfolding m' using k2 sp2 m2 assms by simp_all
  show "xr ops m' 3 = xr ops m 3" "xr ops m' 4 = xr ops m 4"
    unfolding m' using k2 m2 assms by (simp_all add: restore_layout_def)
  show "\<And>j. 32 \<le> j \<Longrightarrow> phys (hart m') j = phys (hart m) j"
    unfolding m' using k2 m2 assms by simp
  have lay: "xr ops ?m2 r = stk m (f + 4 * of_nat off)" if "(r, off) \<in> set restore_layout" for r off
    using m2 layout that assms map_of_is_SomeI [OF layout(2) that] by (auto simp: case_prod_beta)
  have "xr ops m' r = xr ops ?m2 r" if "r < 32" "r \<notin> {t2, t4, sp}" for r
    unfolding m' using k2 that by simp
  then show "\<forall>(r, off) \<in> set restore_layout. r \<notin> {t2, t4} \<longrightarrow> xr ops m' r = stk m (f + 4 * of_nat off)"
    using lay layout by auto
qed

lemma take_trap_frame [simp]:
  "stk (take_trap ops c m) = stk m" "pxTopOfStack (take_trap ops c m) = pxTopOfStack m"
  "glob (take_trap ops c m) = glob m" "addr_of (take_trap ops c m) = addr_of m"
  "mepc (take_trap ops c m) = pc m" "mstatus (take_trap ops c m) = trap_mstatus (mstatus m)"
  "hart (take_trap ops c m) = hw_trap ops (hart m)"
  by (simp_all add: take_trap_def)

lemma save_exception_minimal:
  assumes "windowed_task ops inv base wsize c m"
    "s = portcontextSAVE_EXCEPTION_CONTEXT ops (take_trap ops cause m)"
    "t = glob m pxCurrentTCB" "f = phys (hart m) sp - portCONTEXT_SIZE"
  shows "kwin s" "glob s = glob m" "pxTopOfStack s = (pxTopOfStack m)(t := f)"
    "stk s f = pc m + 4" "stk s (f + 4) = trap_mstatus (mstatus m)"
    "stk s (f + 120) = glob m xCriticalNesting" "stk s (f + 124) = c" "stk s (f + 128) = 1"
    "\<And>j. 32 \<le> j \<Longrightarrow> phys (hart s) j = phys (hart m) j"
proof -
  have i: "inv (hart m)" and c: "hw_csrr ops (hw_trap ops (hart m)) = c"
    and wb: "glob m port_current_task_window_base \<noteq> 0"
    using assms(1) cfg_base_nonzero by (auto simp: windowed_task_def)
  let ?m0 = "take_trap ops cause m"
  let ?m1 = "run ops [La t0 port_current_task_window_base,
                      Load_g t0 port_current_task_window_base] ?m0"
  have k1: "kwin ?m1" using i by simp
  have f: "f = xr ops ?m1 sp - portCONTEXT_SIZE"
    using i assms(4) kwin_phys [of "take_trap ops cause m" sp] by (simp add: phys_trap)
  note sm = save_minimal_run [OF k1 refl f]
  have s: "s = run ops [Csrr_mcause a0, Csrr_mepc a1, Addi a1 a1 4, Store_x a1 0 sp,
              Load_sym sp xISRStackTop] (run ops save_minimal ?m1)"
    using assms(2) i wb
    by (simp add: portcontextSAVE_EXCEPTION_CONTEXT_def portcontextSAVE_CONTEXT_INTERNAL_def Let_def)
  show "kwin s" "glob s = glob m" "pxTopOfStack s = (pxTopOfStack m)(t := f)"
    "stk s f = pc m + 4" "stk s (f + 4) = trap_mstatus (mstatus m)"
    "stk s (f + 120) = glob m xCriticalNesting" "stk s (f + 124) = c" "stk s (f + 128) = 1"
    unfolding s using sm i c assms(3) by simp_all
  show "\<And>j. 32 \<le> j \<Longrightarrow> phys (hart s) j = phys (hart m) j"
    unfolding s using sm i by (simp add: phys_trap)
qed

lemma restore_minimal_run:
  assumes k: "kwin k" and t: "t = glob k pxCurrentTCB" and f: "f = pxTopOfStack k t"
    and ctx: "stk k (f + 128) \<noteq> 0" and c: "stk k (f + 124) = c" "c \<noteq> 0" "valid_cfg c"
    and r: "r = portcontextRESTORE_CONTEXT ops k"
  shows "inv (hart r)" "base (hart r) = cfg_base c" "wsize (hart r) = cfg_size c"
    "hw_csrr ops (hw_trap ops (hart r)) = c"
    "pc r = stk k f" "mstatus r = mret_mstatus (stk k (f + 4))"
    "glob r xCriticalNesting = stk k (f + 120)"
    "glob r port_current_task_window_base = c AND 0xFFFF"
    "phys (hart r) sp = f + portCONTEXT_SIZE"
    "\<And>j. 32 \<le> j \<Longrightarrow> phys (hart r) j = phys (hart k) j"
proof -
  define m1 where "m1 = run ops restore_head k"
  note h = restore_head_run [OF k m1_def f [unfolded t]]
  define m5 where "m5 = run ops [Load_x t4 portWINDOW_CFG_OFFSET sp,
      Load_x t0 0 sp, Csrw_mepc t0, Load_x t3 1 sp, Csrw_mstatus t3,
      Load_x t0 portWINDOW_CFG_OFFSET sp, Csrw_staged t0,
      Load_x t0 portCRITICAL_NESTING_OFFSET sp, La t1 xCriticalNesting,
      Store_g t0 xCriticalNesting, Addi sp sp portCONTEXT_SIZE] m1"
  have k5: "kwin m5" and c5: "hw_csrr ops (hart m5) = c"
    and s5: "xr ops m5 sp = f + portCONTEXT_SIZE"
    and f5: "mepc m5 = stk k f" "mstatus m5 = stk k (f + 4)"
      "glob m5 xCriticalNesting = stk k (f + 120)"
      "glob m5 port_current_task_window_base = c AND 0xFFFF"
    and p5: "\<And>j. 32 \<le> j \<Longrightarrow> phys (hart m5) j = phys (hart k) j"
    unfolding m5_def using h c(1) by simp_all
  have r5: "r = exec ops Mret m5"
    unfolding r portcontextRESTORE_CONTEXT_def Let_def m1_def [symmetric] m5_def
    using h c ctx by (simp add: restore_minimal_def)
  have i5: "inv (hart m5)" using k5 by (simp add: kwin_def)
  show "inv (hart r)" "base (hart r) = cfg_base c" "wsize (hart r) = cfg_size c"
    "hw_csrr ops (hw_trap ops (hart r)) = c"
    unfolding r5 using i5 c5 c(3)
    by (simp_all add: inv_mret base_mret wsize_mret csrr_trap_mret)
  have hr: "phys (hart r) = phys (hart m5)" unfolding r5 using i5 by (simp add: phys_mret)
  show "phys (hart r) sp = f + portCONTEXT_SIZE"
    unfolding hr using kwin_phys [OF k5, of sp] s5 by simp
  show "\<And>j. 32 \<le> j \<Longrightarrow> phys (hart r) j = phys (hart k) j"
    unfolding hr using p5 by simp
  show "pc r = stk k f" "mstatus r = mret_mstatus (stk k (f + 4))"
    "glob r xCriticalNesting = stk k (f + 120)"
    "glob r port_current_task_window_base = c AND 0xFFFF"
    unfolding r5 using f5 by simp_all
qed

lemma windowed_switch:
  assumes m: "windowed_task ops inv base wsize c m"
    and s: "s = portcontextSAVE_EXCEPTION_CONTEXT ops (take_trap ops cause m)"
    and k: "kwin k" "frame_kept s k"
    and window: "\<forall>j. cfg_base c \<le> j \<and> j < cfg_base c + cfg_size c \<longrightarrow>
                   phys (hart k) j = phys (hart s) j"
    and r: "r = portcontextRESTORE_CONTEXT ops k"
  shows "windowed_task ops inv base wsize c r" "\<forall>i<32. xr ops r i = xr ops m i"
    "pc r = pc m + 4" "bit (mstatus r) 3 = bit (mstatus m) 3"
    "glob r xCriticalNesting = glob m xCriticalNesting"
    "phys (hart r) sp = phys (hart m) sp"
proof -
  have v: "valid_cfg c" "32 \<le> cfg_base c" "inv (hart m)" "base (hart m) = cfg_base c"
    "wsize (hart m) = cfg_size c"
    using m by (auto simp: windowed_task_def)
  define t where "t = glob m pxCurrentTCB"
  define f where "f = phys (hart m) sp - portCONTEXT_SIZE"
  note sv = save_exception_minimal [OF m s t_def f_def]
  have tf: "t = glob s pxCurrentTCB" "f = pxTopOfStack s t" using sv t_def by simp_all
  note fk = frame_keptD [OF k(2) tf]
  have ctx: "stk k (f + 128) \<noteq> 0" and c: "stk k (f + 124) = c" using fk sv by simp_all
  have tk: "t = glob k pxCurrentTCB" "f = pxTopOfStack k t" using fk by simp_all
  note rs = restore_minimal_run [OF k(1) tk ctx c _ v(1) r]
  have nz: "c \<noteq> 0" using cfg_base_nonzero [OF v(2)] by blast
  show "windowed_task ops inv base wsize c r"
    unfolding windowed_task_def using rs [OF nz] v by simp
  show "pc r = pc m + 4" "glob r xCriticalNesting = glob m xCriticalNesting"
    using rs [OF nz] fk sv by simp_all
  show "bit (mstatus r) 3 = bit (mstatus m) 3"
    using rs [OF nz] fk sv mstatus_round_trip by simp
  show "phys (hart r) sp = phys (hart m) sp" using rs [OF nz] by (simp add: f_def)
  have "phys (hart r) (cfg_base c + i) = phys (hart m) (cfg_base c + i)" if "i < cfg_size c" for i
    using rs(10) [OF nz] sv(9) window v(2) that by simp
  then show "\<forall>i<32. xr ops r i = xr ops m i"
    using rs [OF nz] v by (simp add: xr_def read_window)
qed


lemma save_exception_full:
  assumes i: "kwin m" and wb: "glob m port_current_task_window_base = 0"
    and s: "s = portcontextSAVE_EXCEPTION_CONTEXT ops (take_trap ops cause m)"
    and t: "t = glob m pxCurrentTCB" and f: "f = xr ops m sp - portCONTEXT_SIZE"
  shows "kwin s" "glob s = glob m" "pxTopOfStack s = (pxTopOfStack m)(t := f)"
    "stk s f = pc m + 4" "stk s (f + 4) = trap_mstatus (mstatus m)"
    "stk s (f + 120) = glob m xCriticalNesting" "stk s (f + 124) = 0" "stk s (f + 128) = 0"
    "\<forall>(r, off) \<in> set save_layout.
       stk s (f + 4 * of_nat off) = (if r = t0 then 0 else xr ops m r)"
    "xr ops s 3 = xr ops m 3" "xr ops s 4 = xr ops m 4" "addr_of s = addr_of m"
    "\<And>j. 32 \<le> j \<Longrightarrow> phys (hart s) j = phys (hart m) j"
proof -
  define m0 where "m0 = take_trap ops cause m"
  have inv: "inv (hart m)" using i by (simp add: kwin_def)
  have k0: "kwin m0" using inv by (simp add: m0_def)
  have x0: "xr ops m0 q = xr ops m q" if "q < 32" for q
    using k0 i that by (simp add: kwin_def xr_def read_window m0_def phys_trap)
  define m1 where "m1 = run ops [La t0 port_current_task_window_base,
                      Load_g t0 port_current_task_window_base] m0"
  have k1: "kwin m1" and x1: "\<And>q. q < 32 \<Longrightarrow> xr ops m1 q = (if q = t0 then 0 else xr ops m q)"
    and f1: "glob m1 = glob m" "mepc m1 = pc m" "mstatus m1 = trap_mstatus (mstatus m)"
      "pxTopOfStack m1 = pxTopOfStack m" "addr_of m1 = addr_of m"
    and p1: "\<And>j. 32 \<le> j \<Longrightarrow> phys (hart m1) j = phys (hart m) j"
    unfolding m1_def using k0 x0 wb inv by (simp_all add: m0_def phys_trap)
  have f': "f = xr ops m1 sp - portCONTEXT_SIZE" using f x1 by simp
  define m2 where "m2 = run ops save_full m1"
  note sf = save_full_run [OF k1 m2_def f']
  have a2: "addr_of m2 = addr_of m1"
    unfolding m2_def by (simp add: save_full_def stores_def save_layout_def)
  have s2: "s = run ops [Csrr_mcause a0, Csrr_mepc a1, Addi a1 a1 4, Store_x a1 0 sp,
              Load_sym sp xISRStackTop] m2"
    unfolding s portcontextSAVE_EXCEPTION_CONTEXT_def portcontextSAVE_CONTEXT_INTERNAL_def Let_def
      m0_def [symmetric] m1_def [symmetric] m2_def
    using x1 by simp
  have slots: "\<forall>(r, off) \<in> set save_layout. r < 32 \<and> f + 4 * of_nat off \<noteq> f"
    by (simp add: save_layout_def)
  show "kwin s" "glob s = glob m" "pxTopOfStack s = (pxTopOfStack m)(t := f)"
    "stk s f = pc m + 4" "stk s (f + 4) = trap_mstatus (mstatus m)"
    "stk s (f + 120) = glob m xCriticalNesting" "stk s (f + 124) = 0" "stk s (f + 128) = 0"
    "xr ops s 3 = xr ops m 3" "xr ops s 4 = xr ops m 4" "addr_of s = addr_of m"
    unfolding s2 using sf f1 x1 a2 t by simp_all
  show "\<And>j. 32 \<le> j \<Longrightarrow> phys (hart s) j = phys (hart m) j"
    unfolding s2 using sf p1 by simp
  have stk_s: "stk s = (stk m2)(f := pc m + 4)" unfolding s2 using sf f1 by simp
  show "\<forall>(r, off) \<in> set save_layout.
       stk s (f + 4 * of_nat off) = (if r = t0 then 0 else xr ops m r)"
  proof (clarify)
    fix r off assume ro: "(r, off) \<in> set save_layout"
    have "stk m2 (f + 4 * of_nat off) = xr ops m1 r" using sf(7) ro by auto
    moreover have "r < 32" "f + 4 * of_nat off \<noteq> f" using slots ro by auto
    ultimately show "stk s (f + 4 * of_nat off) = (if r = t0 then 0 else xr ops m r)"
      unfolding stk_s using x1 by simp
  qed
qed

text \<open>
  The full restore up to its \<^verbatim>\<open>mret\<close>, for a frame that stages \<open>c\<close>: the words it reads,
  and the registers its own tail overwrites.
\<close>

definition before_mret :: "'h machine \<Rightarrow> 'h machine" where
  "before_mret k =
     (let m1 = run ops restore_full_head (run ops restore_head k)
      in run ops [Csrw_staged t2]
           (if xr ops m1 t2 = 0 then run ops (bump port_window_kernel_borrow_restores @
              bump port_window_kernel_stage_count) m1 else m1))"

lemma restore_full_run:
  assumes k: "kwin k" and t: "t = glob k pxCurrentTCB" and f: "f = pxTopOfStack k t"
    and ctx: "stk k (f + 128) = 0"
    and b: "b = before_mret k"
  shows "portcontextRESTORE_CONTEXT ops k = exec ops Mret b" "kwin b"
    "hw_csrr ops (hart b) = stk k (f + 124)" "xr ops b sp = f + portCONTEXT_SIZE"
    "\<forall>(r, off) \<in> set restore_layout. r \<notin> {t2, t4, t5, t6} \<longrightarrow>
       xr ops b r = stk k (f + 4 * of_nat off)"
    "xr ops b 3 = xr ops k 3" "xr ops b 4 = xr ops k 4"
    "xr ops b t2 = stk k (f + 124)" "xr ops b t4 = f"
    "stk k (f + 124) = 0 \<Longrightarrow> xr ops b t5 = addr_of k port_window_kernel_stage_count"
    "stk k (f + 124) = 0 \<Longrightarrow> xr ops b t6 = glob k port_window_kernel_stage_count + 1"
    "mepc b = stk k f" "mstatus b = stk k (f + 4)"
    "glob b xCriticalNesting = stk k (f + 120)"
    "glob b port_current_task_window_base = stk k (f + 124) AND 0xFFFF"
    "\<And>j. 32 \<le> j \<Longrightarrow> phys (hart b) j = phys (hart k) j"
proof -
  define m1 where "m1 = run ops restore_head k"
  note h = restore_head_run [OF k m1_def f [unfolded t]]
  define m2 where "m2 = run ops restore_full_head m1"
  have f1: "f = xr ops m1 sp" using h t by simp
  note g = restore_full_head_run [OF h(1) m2_def f1]
  have b2: "b = run ops [Csrw_staged t2]
           (if xr ops m2 t2 = 0 then run ops (bump port_window_kernel_borrow_restores @
              bump port_window_kernel_stage_count) m2 else m2)"
    unfolding b before_mret_def Let_def m1_def m2_def ..
  show "portcontextRESTORE_CONTEXT ops k = exec ops Mret b"
    unfolding portcontextRESTORE_CONTEXT_def restore_full_def Let_def b2 m2_def m1_def [symmetric]
    using h ctx by simp
  have lay: "\<forall>(r, off) \<in> set restore_layout. 0 < r \<and> r < 32 \<and> r \<noteq> sp"
    by (simp add: restore_layout_def)
  show "kwin b" "hw_csrr ops (hart b) = stk k (f + 124)" "xr ops b sp = f + portCONTEXT_SIZE"
    "xr ops b 3 = xr ops k 3" "xr ops b 4 = xr ops k 4"
    "xr ops b t2 = stk k (f + 124)" "xr ops b t4 = f"
    "stk k (f + 124) = 0 \<Longrightarrow> xr ops b t5 = addr_of k port_window_kernel_stage_count"
    "stk k (f + 124) = 0 \<Longrightarrow> xr ops b t6 = glob k port_window_kernel_stage_count + 1"
    "mepc b = stk k f" "mstatus b = stk k (f + 4)"
    "glob b xCriticalNesting = stk k (f + 120)"
    "glob b port_current_task_window_base = stk k (f + 124) AND 0xFFFF"
    "\<And>j. 32 \<le> j \<Longrightarrow> phys (hart b) j = phys (hart k) j"
    unfolding b2 using g h by (simp_all add: bump_def)
  have "xr ops b r = xr ops m2 r" if "r < 32" "r \<notin> {t2, t4, t5, t6}" for r
    unfolding b2 using g(1) that by (simp add: bump_def)
  then show "\<forall>(r, off) \<in> set restore_layout. r \<notin> {t2, t4, t5, t6} \<longrightarrow>
       xr ops b r = stk k (f + 4 * of_nat off)"
    using g(3) h(3) lay by (auto simp: case_prod_beta)
qed


lemma legacy_switch:
  assumes m: "kwin m" "glob m port_current_task_window_base = 0"
    and s: "s = portcontextSAVE_EXCEPTION_CONTEXT ops (take_trap ops cause m)"
    and k: "kwin k" "frame_kept s k" "xr ops k 3 = xr ops s 3" "xr ops k 4 = xr ops s 4"
    and b: "b = before_mret k"
  shows "portcontextRESTORE_CONTEXT ops k = exec ops Mret b" "kwin b"
    "hw_csrr ops (hart b) = 0"
    "\<forall>i<32. i \<notin> {t0, t2, t4, t5, t6} \<longrightarrow> xr ops b i = xr ops m i"
    "xr ops b t0 = 0" "xr ops b t2 = 0" "xr ops b t4 = xr ops m sp - portCONTEXT_SIZE"
    "xr ops b t5 = addr_of k port_window_kernel_stage_count"
    "xr ops b t6 = glob k port_window_kernel_stage_count + 1"
    "mepc b = pc m + 4" "mstatus b = trap_mstatus (mstatus m)"
    "glob b xCriticalNesting = glob m xCriticalNesting"
    "glob b port_current_task_window_base = 0"
proof -
  define t where "t = glob m pxCurrentTCB"
  define f where "f = xr ops m sp - portCONTEXT_SIZE"
  note sv = save_exception_full [OF m s t_def f_def]
  have tf: "t = glob s pxCurrentTCB" "f = pxTopOfStack s t" using sv t_def by simp_all
  note fk = frame_keptD [OF k(2) tf]
  have tk: "t = glob k pxCurrentTCB" "f = pxTopOfStack k t" using fk by simp_all
  have ctx: "stk k (f + 128) = 0" and z: "stk k (f + 124) = 0" using fk sv by simp_all
  note rs = restore_full_run [OF k(1) tk ctx b]
  show "portcontextRESTORE_CONTEXT ops k = exec ops Mret b" "kwin b"
    "hw_csrr ops (hart b) = 0" "xr ops b t2 = 0" "xr ops b t4 = xr ops m sp - portCONTEXT_SIZE"
    "xr ops b t5 = addr_of k port_window_kernel_stage_count"
    "xr ops b t6 = glob k port_window_kernel_stage_count + 1"
    "mepc b = pc m + 4" "mstatus b = trap_mstatus (mstatus m)"
    "glob b xCriticalNesting = glob m xCriticalNesting"
    "glob b port_current_task_window_base = 0"
    using rs z fk sv f_def by simp_all
  have slot: "xr ops b r = (if r = t0 then 0 else xr ops m r)"
    if "(r, off) \<in> set restore_layout" "r \<notin> {t2, t4, t5, t6}" for r off
  proof -
    have "(r, off) \<in> set save_layout" "off < 33"
      using that(1) by (auto simp: restore_layout_def save_layout_def)
    then have "stk k (f + 4 * of_nat off) = (if r = t0 then 0 else xr ops m r)"
      using sv(9) fk(3) by auto
    then show ?thesis using rs(5) that by auto
  qed
  show "xr ops b t0 = 0" using slot [of t0 3] by (simp add: restore_layout_def)
  show "\<forall>i<32. i \<notin> {t0, t2, t4, t5, t6} \<longrightarrow> xr ops b i = xr ops m i"
  proof (intro allI impI)
    fix i assume i: "i < 32" "i \<notin> {t0, t2, t4, t5, t6}"
    consider "i = 0" | "i = sp" | "i = 3" | "i = 4" | "i \<in> fst ` set restore_layout"
      using i restore_layout_covers [rule_format, of i] by auto
    then show "xr ops b i = xr ops m i"
    proof cases
      case 1 then show ?thesis using rs(2) m(1) by simp
    next
      case 2 then show ?thesis using rs(4) by (simp add: f_def)
    next
      case 3 then show ?thesis using rs(6) k(3) sv(10) by simp
    next
      case 4 then show ?thesis using rs(7) k(4) sv(11) by simp
    next
      case 5 then show ?thesis using slot i by fastforce
    qed
  qed
qed

end

end
