(* ===== verification/Port_Properties.thy ===== *)
theory Port_Properties
  imports Port_Switch
begin

text \<open>
  The theorems of the port for the two cores: the switch of a windowed task, the switch of a
  task in the kernel's window, the first dispatch of a task, the trap handler and the window
  API.
\<close>

abbreviation spike_windowed :: "word32 \<Rightarrow> spike machine \<Rightarrow> bool" where
  "spike_windowed \<equiv> windowed_task spike_hw spike_inv
     (\<lambda>s. base_offset (XPR s)) (\<lambda>s. window_size (XPR s))"

abbreviation spike_kernel :: "spike machine \<Rightarrow> bool" where
  "spike_kernel \<equiv> kernel_window spike_inv (\<lambda>s. base_offset (XPR s)) (\<lambda>s. window_size (XPR s))"

abbreviation cva6_windowed :: "word32 \<Rightarrow> cva6 machine \<Rightarrow> bool" where
  "cva6_windowed \<equiv> windowed_task cva6_hw cva6_inv
     (\<lambda>c. cfg_base (window_config_q c)) (\<lambda>c. cfg_size (window_config_q c))"

abbreviation cva6_kernel :: "cva6 machine \<Rightarrow> bool" where
  "cva6_kernel \<equiv> kernel_window cva6_inv
     (\<lambda>c. cfg_base (window_config_q c)) (\<lambda>c. cfg_size (window_config_q c))"

section \<open>Starting tasks, for any core\<close>

context window_hw
begin

lemma first_dispatch:
  assumes k: "kwin k" and t: "t = glob k pxCurrentTCB" and f: "f = pxTopOfStack k t"
    and ctx: "stk k (f + 128) = 0" and c: "stk k (f + 124) = c" "valid_cfg c" "32 \<le> cfg_base c"
    and r: "r = portcontextRESTORE_CONTEXT ops k"
  shows "\<forall>i<32. xr ops r i = (if 0 < i \<and> i < cfg_size c then phys (hart k) (cfg_base c + i) else 0)"
    "pc r = stk k f" "base (hart r) = cfg_base c" "wsize (hart r) = cfg_size c"
proof -
  note b = restore_full_run [OF k t f ctx refl]
  have i: "inv (hart (before_mret k))" using b(2) by (simp add: kwin_def)
  have r': "r = exec ops Mret (before_mret k)" using r b(1) by simp
  have v: "valid_cfg (hw_csrr ops (hart (before_mret k)))" using b(3) c by simp
  show "base (hart r) = cfg_base c" "wsize (hart r) = cfg_size c"
    unfolding r' using b(3) c(1) base_mret [OF i v] wsize_mret [OF i v] by simp_all
  then show "\<forall>i<32. xr ops r i = (if 0 < i \<and> i < cfg_size c then phys (hart k) (cfg_base c + i) else 0)"
    unfolding r' using i v b(16) c
    by (auto simp: xr_def read_window inv_mret phys_mret valid_cfg_def)
  show "pc r = stk k f" unfolding r' using b by simp
qed

lemma start_first_windowed:
  assumes k: "kwin k" and f: "f = pxTopOfStack k (glob k pxCurrentTCB)"
    and c: "stk k (f + 124) \<noteq> 0" and r: "r = xPortStartFirstTask ops k"
  shows "hw_csrr ops (hw_trap ops (hart r)) = stk k (f + 12)" "pc r = stk k f"
proof -
  define m1 where "m1 = run ops [Load_sym sp pxCurrentTCB, Load_top sp sp,
                        Load_x t0 portWINDOW_CFG_OFFSET sp] k"
  have k1: "kwin m1" and x1: "xr ops m1 sp = f" "xr ops m1 t0 = stk k (f + 124)" "stk m1 = stk k"
    unfolding m1_def using k f by simp_all
  define m2 where "m2 = run ops [Li t5 0xFFFF, And_x t5 t0 t5, La t6 port_current_task_window_base,
      Store_g t5 port_current_task_window_base,
      Load_x t1 0 sp, Load_x t2 1 sp, Addi t2 t2 8,
      Load_x t3 portCRITICAL_NESTING_OFFSET sp, La t4 xCriticalNesting,
      Store_g t3 xCriticalNesting, Csrw_mepc t1, Csrw_mstatus t2] m1"
  have k2: "kwin m2" and x2: "xr ops m2 sp = f" "stk m2 = stk k" "mepc m2 = stk k f"
    unfolding m2_def using k1 x1 by simp_all
  define m3 where "m3 = run ops (loads restore_layout) m2"
  have "\<forall>(r, off) \<in> set restore_layout. 0 < r \<and> r < 32 \<and> r \<noteq> sp"
    "distinct (map fst restore_layout)" by (simp_all add: restore_layout_def)
  note ld = loads_run [OF k2 this m3_def]
  then have k3: "kwin m3" and x3: "xr ops m3 t0 = stk k (f + 12)" "mepc m3 = stk k f"
    using x2 by (simp_all add: restore_layout_def)
  have r3: "r = exec ops Mret (exec ops (Csrw_staged t0) (exec ops (Addi sp sp 0) m3))"
    unfolding r xPortStartFirstTask_def Let_def m1_def [symmetric] m3_def m2_def
    using x1 c by (simp add: xPortStartFirstTaskWindowed_def)
  define m4 where "m4 = exec ops (Csrw_staged t0) (exec ops (Addi sp sp 0) m3)"
  have "kwin m4" "hw_csrr ops (hart m4) = stk k (f + 12)" and e4: "mepc m4 = stk k f"
    unfolding m4_def using k3 x3 by simp_all
  then show "hw_csrr ops (hw_trap ops (hart r)) = stk k (f + 12)"
    unfolding r3 m4_def [symmetric] using csrr_trap_mret [of "hart m4"] by (simp add: kwin_def)
  show "pc r = stk k f" unfolding r3 m4_def [symmetric] using e4 by simp
qed

lemma initialise_stack_run:
  assumes k: "kwin k" and m: "m = run ops pxPortInitialiseStack k"
    and top: "f = xr ops k a0 - portCONTEXT_SIZE"
  shows "xr ops m a0 = f" "stk m f = xr ops k a1"
    "stk m (f + 4) = (mstatus k AND NOT 8) OR 0x1880"
    "stk m (f + 8) = glob k xTaskReturnAddress" "stk m (f + 32) = xr ops k a2"
    "stk m (f + 120) = 0" "stk m (f + 124) = 0" "stk m (f + 128) = 0" "pc m = xr ops k ra"
proof -
  have f: "xr ops k a0 = f + 132" using top by (simp add: portCONTEXT_SIZE_def)
  show "xr ops m a0 = f" "stk m f = xr ops k a1"
    "stk m (f + 4) = (mstatus k AND NOT 8) OR 0x1880"
    "stk m (f + 8) = glob k xTaskReturnAddress" "stk m (f + 32) = xr ops k a2"
    "stk m (f + 120) = 0" "stk m (f + 124) = 0" "stk m (f + 128) = 0" "pc m = xr ops k ra"
    unfolding m pxPortInitialiseStack_def using k f by simp_all
qed

lemma start_first_legacy:
  assumes k: "kwin k" and f: "f = pxTopOfStack k (glob k pxCurrentTCB)"
    and c: "stk k (f + 124) = 0" and r: "r = xPortStartFirstTask ops k"
  shows "pc r = stk k f" "xr ops r a0 = stk k (f + 32)" "xr ops r sp = f + portCONTEXT_SIZE"
    "mstatus r = stk k (f + 4) + 8" "glob r xCriticalNesting = stk k (f + 120)"
    "kwin r"
proof -
  define m1 where "m1 = run ops [Load_sym sp pxCurrentTCB, Load_top sp sp,
                        Load_x t0 portWINDOW_CFG_OFFSET sp] k"
  have k1: "kwin m1" and x1: "xr ops m1 sp = f" "xr ops m1 t0 = stk k (f + 124)" "stk m1 = stk k"
    unfolding m1_def using k f by simp_all
  define m2 where "m2 = run ops [Load_x 1 0 sp, Load_x 5 1 sp, Addi 5 5 8, Csrw_mstatus 5] m1"
  have k2: "kwin m2" and x2: "xr ops m2 sp = f" "xr ops m2 1 = stk k f" "stk m2 = stk k"
    "mstatus m2 = stk k (f + 4) + 8"
    unfolding m2_def using k1 x1 by simp_all
  define m3 where "m3 = run ops (loads start_layout) m2"
  have "\<forall>(r, off) \<in> set start_layout. 0 < r \<and> r < 32 \<and> r \<noteq> sp"
    "distinct (map fst start_layout)" by (simp_all add: start_layout_def)
  note ld = loads_run [OF k2 this m3_def]
  then have k3: "kwin m3" and x3: "xr ops m3 sp = f" "xr ops m3 1 = stk k f"
    "xr ops m3 a0 = stk k (f + 32)" "stk m3 = stk k" "mstatus m3 = stk k (f + 4) + 8"
    using x2 by (simp_all add: start_layout_def)
  have r3: "r = run ops [Load_x 5 portCRITICAL_NESTING_OFFSET sp, La 6 xCriticalNesting,
      Store_g 5 xCriticalNesting, Load_x 5 3 sp, Load_x 6 4 sp, Addi sp sp portCONTEXT_SIZE, Ret] m3"
    unfolding r xPortStartFirstTask_def Let_def m1_def [symmetric] m3_def m2_def
    using x1 c by (simp add: start_legacy_def)
  show "pc r = stk k f" "xr ops r a0 = stk k (f + 32)" "xr ops r sp = f + portCONTEXT_SIZE"
    "mstatus r = stk k (f + 4) + 8" "glob r xCriticalNesting = stk k (f + 120)" "kwin r"
    unfolding r3 using k3 x3 by simp_all
qed

text \<open>The handler on every branch, in terms of the two save macros.\<close>

lemma trap_handler_branches:
  assumes m: "inv (hart m)"
  shows "freertos_risc_v_trap_handler ops c has_mtime (take_trap ops cause m) =
    portcontextRESTORE_CONTEXT ops
      (if 0 \<le> sint cause
       then let s = run ops [Li t0 11] (portcontextSAVE_EXCEPTION_CONTEXT ops (take_trap ops cause m))
            in if cause = 11 then c_vTaskSwitchContext c s
               else c_application_exception_handler c s
       else let s = portcontextSAVE_INTERRUPT_CONTEXT ops (take_trap ops cause m);
                s' = run ops [Addi t0 0 1, Slli t0 t0 31, Addi t1 t0 7] s
            in if \<not> has_mtime then c_application_interrupt_handler c s
               else if cause \<noteq> 0x80000007 then c_application_interrupt_handler c s'
               else let k = c_xTaskIncrementTick c (c_update_mtimer_compare c s')
                    in if xr ops k a0 = 0 then k else c_vTaskSwitchContext c k)"
proof -
  define s where "s = portcontextSAVE_CONTEXT_INTERNAL ops (take_trap ops cause m)"
  have k: "kwin (take_trap ops cause m)" using m by simp
  have "kwin s" and "mcause s = cause"
    unfolding s_def portcontextSAVE_CONTEXT_INTERNAL_def Let_def
    using k by (simp_all add: save_minimal_def save_full_def stores_def save_layout_def take_trap_def)
  then show ?thesis
    unfolding freertos_risc_v_trap_handler_def portcontextSAVE_EXCEPTION_CONTEXT_def
      portcontextSAVE_INTERRUPT_CONTEXT_def handle_exception_def handle_interrupt_def Let_def
      s_def [symmetric]
    by simp
qed

end

section \<open>Helpers for the theorems and their instances\<close>

lemma mask16: "(0xFFFF :: word32) = mask 16"
  by (simp add: mask_eq_exp_minus_1)

lemma and_mask16: "w AND (0xFFFF :: word32) = take_bit 16 w"
  by (simp only: mask16 take_bit_eq_mask)

lemma cfg_encode:
  assumes "unat b < 65536" "unat sz < 65536"
  shows "cfg_base (push_bit 16 sz OR (b AND 0xFFFF)) = unat b"
    and "cfg_size (push_bit 16 sz OR (b AND 0xFFFF)) = unat sz"
proof -
  have tb: "take_bit 16 w = w" if "unat w < 65536" for w :: word32
    using that by (intro word_unat_eq_iff [THEN iffD2])
      (simp add: unsigned_take_bit_eq take_bit_nat_eq_self)
  have "(push_bit 16 sz OR take_bit 16 b) AND 0xFFFF = take_bit 16 b"
    unfolding and_mask16 by (rule bit_eqI) (auto simp: bit_simps)
  then show "cfg_base (push_bit 16 sz OR (b AND 0xFFFF)) = unat b"
    using tb [OF assms(1)] by (simp add: cfg_base_def and_mask16)
  have "drop_bit 16 (push_bit 16 sz OR take_bit 16 b) AND 0xFFFF = take_bit 16 sz"
    unfolding and_mask16 by (rule bit_eqI) (auto simp: bit_simps)
  then show "cfg_size (push_bit 16 sz OR (b AND 0xFFFF)) = unat sz"
    using tb [OF assms(2)] by (simp add: cfg_size_def and_mask16)
qed

definition demo_machine :: "'h \<Rightarrow> word32 \<Rightarrow> 'h machine" where
  "demo_machine h wb = \<lparr>hart = h, stk = (\<lambda>_. 0), pxTopOfStack = (\<lambda>_. 0),
     window_tcbs = (\<lambda>_. \<lparr>ulPortWindowConfig = 0, ucPortBorrowKernelWindow = 0, ucPortLastContextType = 0\<rparr>),
     glob = (\<lambda>_. 0)(port_current_task_window_base := wb, pxCurrentTCB := 0x1000),
     addr_of = (\<lambda>_. 0x2000), mstatus = 8, mepc = 0, mcause = 0, pc = 0x80000000\<rparr>"

definition demo_spike :: "word32 \<Rightarrow> nat \<Rightarrow> nat \<Rightarrow> spike" where
  "demo_spike c b sz = \<lparr>XPR = \<lparr>rf_data = map of_nat [0..<64], base_offset = b, window_size = sz\<rparr>,
     FPR = regfile_reset 32, window_active = c, window_staged = c, previous_window_config = 0\<rparr>"

lemma demo_cfg: "cfg_base 0x00100020 = 32" "cfg_size 0x00100020 = 16" "valid_cfg 0x00100020"
  by (simp_all add: valid_cfg_def cfg_base_def cfg_size_def)

lemma demo_spike_windowed: "spike_windowed 0x00100020 (demo_machine (demo_spike 0x00100020 32 16) 32)"
  by (simp add: windowed_task_def demo_machine_def demo_spike_def demo_cfg spike_inv_def
      regfile_wf_def spike_hw_def get_csr_801_def spike_take_trap_def)

lemma frame_kept_refl: "frame_kept s s"
  by (simp add: frame_kept_def Let_def)

lemma spike_kernel_iff: "spike_kernel m = spk.kwin m"
  by (simp add: spk.kwin_iff)

text \<open>
  C7. On the Spike register file, a task that runs in its own window and traps is saved by
  the minimal path; if the kernel work in between keeps its frame and its physical
  registers, the restore returns with every register, the critical nesting and the
  interrupt enable as they were, at the instruction after the trap, in the same window.
\<close>

theorem spike_windowed_task_switch:
  assumes "spike_windowed c m"
    and "s = portcontextSAVE_EXCEPTION_CONTEXT spike_hw (take_trap spike_hw cause m)"
    and "spike_kernel k" and "frame_kept s k"
    and "\<forall>j. cfg_base c \<le> j \<and> j < cfg_base c + cfg_size c \<longrightarrow>
           spike_phys (hart k) j = spike_phys (hart s) j"
    and "r = portcontextRESTORE_CONTEXT spike_hw k"
  shows "spike_windowed c r \<and> (\<forall>i<32. xr spike_hw r i = xr spike_hw m i) \<and>
    pc r = pc m + 4 \<and> bit (mstatus r) 3 = bit (mstatus m) 3 \<and>
    glob r xCriticalNesting = glob m xCriticalNesting"
  using spk.windowed_switch [OF assms(1,2) assms(3)[unfolded spike_kernel_iff] assms(4,5,6)]
  by blast

theorem spike_windowed_task_switch_witness:
  "let m = demo_machine (demo_spike 0x00100020 32 16) 32;
       s = portcontextSAVE_EXCEPTION_CONTEXT spike_hw (take_trap spike_hw 11 m);
       r = portcontextRESTORE_CONTEXT spike_hw s
   in xr spike_hw r 10 = 42 \<and> pc r = 0x80000004"
proof -
  define m where "m = demo_machine (demo_spike 0x00100020 32 16) 32"
  define s where "s = portcontextSAVE_EXCEPTION_CONTEXT spike_hw (take_trap spike_hw 11 m)"
  define r where "r = portcontextRESTORE_CONTEXT spike_hw s"
  have w: "spike_windowed 0x00100020 m" unfolding m_def by (rule demo_spike_windowed)
  have "spike_kernel s"
    unfolding spike_kernel_iff by (rule spk.save_exception_minimal(1) [OF w s_def refl refl])
  from spike_windowed_task_switch [OF w s_def this frame_kept_refl _ r_def]
  have "\<forall>i<32. xr spike_hw r i = xr spike_hw m i" "pc r = pc m + 4" by simp_all
  moreover have "xr spike_hw m 10 = 42" "pc m = 0x80000000"
    by (simp_all add: m_def demo_machine_def demo_spike_def xr_def spike_hw_def regfile_read_def
        size_t_add_def)
  ultimately show ?thesis unfolding Let_def m_def [symmetric] s_def [symmetric] r_def [symmetric]
    by simp
qed


lemma cva6_kernel_iff: "cva6_kernel m = cva.kwin m"
  by (simp add: cva.kwin_iff)

definition demo_cva6 :: "word32 \<Rightarrow> cva6" where
  "demo_cva6 c = \<lparr>ff_mem = map of_nat [0..<64], window_config_q = c, prev_window_config_q = 0\<rparr>"

lemma demo_cva6_windowed: "cva6_windowed 0x00100020 (demo_machine (demo_cva6 0x00100020) 32)"
  by (simp add: windowed_task_def demo_machine_def demo_cva6_def demo_cfg cva6_inv_def
      cva6_hw_def cva6_csrr_801_def cva6_trap_def)

lemma demo_spike_kernel: "spike_kernel (demo_machine (demo_spike 0 0 32) wb)"
  by (simp add: kernel_window_def demo_machine_def demo_spike_def spike_inv_def regfile_wf_def)

lemma demo_cva6_kernel: "cva6_kernel (demo_machine (demo_cva6 0x00200000) wb)"
  by (simp add: kernel_window_def demo_machine_def demo_cva6_def cva6_inv_def cfg_base_def cfg_size_def)

text \<open>
  C14. The same round trip of a windowed task's context through the minimal save and
  restore, on the CVA6 register file and CSRs.
\<close>

theorem cva6_windowed_task_switch:
  assumes "cva6_windowed c m"
    and "s = portcontextSAVE_EXCEPTION_CONTEXT cva6_hw (take_trap cva6_hw cause m)"
    and "cva6_kernel k" and "frame_kept s k"
    and "\<forall>j. cfg_base c \<le> j \<and> j < cfg_base c + cfg_size c \<longrightarrow>
           cva6_phys (hart k) j = cva6_phys (hart s) j"
    and "r = portcontextRESTORE_CONTEXT cva6_hw k"
  shows "cva6_windowed c r \<and> (\<forall>i<32. xr cva6_hw r i = xr cva6_hw m i) \<and>
    pc r = pc m + 4 \<and> bit (mstatus r) 3 = bit (mstatus m) 3 \<and>
    glob r xCriticalNesting = glob m xCriticalNesting"
  using cva.windowed_switch [OF assms(1,2) assms(3)[unfolded cva6_kernel_iff] assms(4,5,6)]
  by blast

theorem cva6_windowed_task_switch_witness:
  "let m = demo_machine (demo_cva6 0x00100020) 32;
       s = portcontextSAVE_EXCEPTION_CONTEXT cva6_hw (take_trap cva6_hw 11 m);
       r = portcontextRESTORE_CONTEXT cva6_hw s
   in xr cva6_hw r 10 = 42 \<and> pc r = 0x80000004"
proof -
  define m where "m = demo_machine (demo_cva6 0x00100020) 32"
  define s where "s = portcontextSAVE_EXCEPTION_CONTEXT cva6_hw (take_trap cva6_hw 11 m)"
  define r where "r = portcontextRESTORE_CONTEXT cva6_hw s"
  have w: "cva6_windowed 0x00100020 m" unfolding m_def by (rule demo_cva6_windowed)
  have "cva6_kernel s"
    unfolding cva6_kernel_iff by (rule cva.save_exception_minimal(1) [OF w s_def refl refl])
  from cva6_windowed_task_switch [OF w s_def this frame_kept_refl _ r_def]
  have "\<forall>i<32. xr cva6_hw r i = xr cva6_hw m i" "pc r = pc m + 4" by simp_all
  moreover have "xr cva6_hw m 10 = 42" "pc m = 0x80000000"
    by (simp_all add: m_def demo_machine_def demo_cva6_def xr_def cva6_hw_def cva6_read_def
        in_window_def demo_cfg)
  ultimately show ?thesis unfolding Let_def m_def [symmetric] s_def [symmetric] r_def [symmetric]
    by simp
qed

lemma spike_mret_zero:
  assumes "spike_inv s" "window_staged s = 0" "base_offset (XPR s) = 0" "window_size (XPR s) = 32"
  shows "XPR (spike_mret s) = XPR s"
proof -
  have "cfg_base 0 = 0" "cfg_size 0 = 0" by (simp_all add: cfg_base_def cfg_size_def)
  then show ?thesis using assms
    by (simp add: spike_mret_def window_config_csr_write_def Let_def spike_inv_def
        regfile_wf_def set_window_config_fields)
qed

lemma spike_mret_kernel:
  assumes "spk.kwin b" "hw_csrr spike_hw (hart b) = 0" "i < 32"
  shows "xr spike_hw (exec spike_hw Mret b) i = xr spike_hw b i"
  using assms spike_mret_zero [of "hart b"]
  by (simp add: spk.kwin_def xr_def spike_hw_def get_csr_801_def)

text \<open>
  C21. On Spike, the full save and restore of a task that runs in the kernel window give
  back every register but t0, t2, t4, t5 and t6, and the program counter, interrupt enable
  and critical nesting.
\<close>

theorem spike_legacy_task_switch:
  assumes "spike_kernel m" and "glob m port_current_task_window_base = 0"
    and "s = portcontextSAVE_EXCEPTION_CONTEXT spike_hw (take_trap spike_hw cause m)"
    and "spike_kernel k" and "frame_kept s k"
    and "xr spike_hw k 3 = xr spike_hw s 3" and "xr spike_hw k 4 = xr spike_hw s 4"
    and "r = portcontextRESTORE_CONTEXT spike_hw k"
  shows "(\<forall>i<32. i \<notin> {t0, t2, t4, t5, t6} \<longrightarrow> xr spike_hw r i = xr spike_hw m i) \<and>
    pc r = pc m + 4 \<and> bit (mstatus r) 3 = bit (mstatus m) 3 \<and>
    glob r xCriticalNesting = glob m xCriticalNesting"
proof -
  note l = spk.legacy_switch [OF assms(1)[unfolded spike_kernel_iff] assms(2,3)
      assms(4)[unfolded spike_kernel_iff] assms(5-7) refl]
  show ?thesis unfolding assms(8) l(1)
    using l spike_mret_kernel [OF l(2,3)] mstatus_round_trip by auto
qed

text \<open>
  C32. The five registers the legacy round trip loses: a task in the kernel window resumes
  with t0 and t2 zero, the frame address in t4, the address of a counter in t5 and its
  value in t6.
\<close>

theorem spike_legacy_switch_clobbers:
  assumes "spike_kernel m" and "glob m port_current_task_window_base = 0"
    and "s = portcontextSAVE_EXCEPTION_CONTEXT spike_hw (take_trap spike_hw cause m)"
    and "spike_kernel k" and "frame_kept s k"
    and "xr spike_hw k 3 = xr spike_hw s 3" and "xr spike_hw k 4 = xr spike_hw s 4"
    and "r = portcontextRESTORE_CONTEXT spike_hw k"
  shows "xr spike_hw r t0 = 0 \<and> xr spike_hw r t2 = 0 \<and>
    xr spike_hw r t4 = xr spike_hw m sp - portCONTEXT_SIZE \<and>
    xr spike_hw r t5 = addr_of k port_window_kernel_stage_count \<and>
    xr spike_hw r t6 = glob k port_window_kernel_stage_count + 1"
proof -
  note l = spk.legacy_switch [OF assms(1)[unfolded spike_kernel_iff] assms(2,3)
      assms(4)[unfolded spike_kernel_iff] assms(5-7) refl]
  show ?thesis unfolding assms(8) l(1)
    using l spike_mret_kernel [OF l(2,3)] by simp
qed

text \<open>
  C33. On CVA6, restoring a task that runs in the kernel window stages the configuration 0,
  whose size field is 0, so every register of the resumed task reads 0.
\<close>

theorem cva6_legacy_restore_dead_window:
  assumes "cva6_kernel m" and "glob m port_current_task_window_base = 0"
    and "s = portcontextSAVE_EXCEPTION_CONTEXT cva6_hw (take_trap cva6_hw cause m)"
    and "cva6_kernel k" and "frame_kept s k"
    and "xr cva6_hw k 3 = xr cva6_hw s 3" and "xr cva6_hw k 4 = xr cva6_hw s 4"
    and "r = portcontextRESTORE_CONTEXT cva6_hw k"
  shows "(\<forall>i<32. xr cva6_hw r i = 0) \<and> pc r = pc m + 4"
proof -
  note l = cva.legacy_switch [OF assms(1)[unfolded cva6_kernel_iff] assms(2,3)
      assms(4)[unfolded cva6_kernel_iff] assms(5-7) refl]
  have "cfg_size 0 = 0" by (simp add: cfg_size_def)
  then show ?thesis unfolding assms(8) l(1) using l
    by (simp add: xr_def cva6_hw_def cva6_read_def in_window_def cva6_mret_def cva6_csrr_801_def)
qed


lemma demo_spike_legacy_saved:
  assumes "m = demo_machine (demo_spike 0 0 32) 0"
    "s = portcontextSAVE_EXCEPTION_CONTEXT spike_hw (take_trap spike_hw 11 m)"
  shows "spike_kernel s" "addr_of s = addr_of m" "glob s = glob m"
proof -
  have k: "spk.kwin m" unfolding assms(1) by (simp add: spike_kernel_iff [symmetric] demo_spike_kernel)
  have g: "glob m port_current_task_window_base = 0" unfolding assms(1) by (simp add: demo_machine_def)
  note l = spk.save_exception_full [OF k g assms(2) refl refl]
  show "spike_kernel s" "addr_of s = addr_of m" "glob s = glob m"
    using l by (simp_all add: spike_kernel_iff)
qed

lemma demo_spike_regs: "xr spike_hw (demo_machine (demo_spike 0 0 32) 0) 5 = 5"
  "xr spike_hw (demo_machine (demo_spike 0 0 32) 0) 10 = 10"
  by (simp_all add: demo_machine_def demo_spike_def xr_def spike_hw_def regfile_read_def size_t_add_def)

theorem spike_legacy_task_switch_witness:
  "let m = demo_machine (demo_spike 0 0 32) 0;
       s = portcontextSAVE_EXCEPTION_CONTEXT spike_hw (take_trap spike_hw 11 m);
       r = portcontextRESTORE_CONTEXT spike_hw s
   in xr spike_hw r 10 = 10 \<and> pc r = 0x80000004"
proof -
  define m where "m = demo_machine (demo_spike 0 0 32) 0"
  define s where "s = portcontextSAVE_EXCEPTION_CONTEXT spike_hw (take_trap spike_hw 11 m)"
  define r where "r = portcontextRESTORE_CONTEXT spike_hw s"
  have m: "spike_kernel m" "glob m port_current_task_window_base = 0" "pc m = 0x80000000"
    using demo_spike_kernel [of 0] by (simp_all add: m_def demo_machine_def)
  note s = demo_spike_legacy_saved [OF m_def s_def]
  from spike_legacy_task_switch [OF m(1,2) s_def s(1) frame_kept_refl refl refl r_def]
  have "xr spike_hw r 10 = xr spike_hw m 10" "pc r = pc m + 4" by simp_all
  then show ?thesis
    unfolding Let_def m_def [symmetric] s_def [symmetric] r_def [symmetric]
    using demo_spike_regs m by (simp add: m_def)
qed

theorem spike_legacy_switch_clobbers_witness:
  "let m = demo_machine (demo_spike 0 0 32) 0;
       s = portcontextSAVE_EXCEPTION_CONTEXT spike_hw (take_trap spike_hw 11 m);
       r = portcontextRESTORE_CONTEXT spike_hw s
   in xr spike_hw m t0 = 5 \<and> xr spike_hw r t0 = 0 \<and> xr spike_hw r t5 = 0x2000"
proof -
  define m where "m = demo_machine (demo_spike 0 0 32) 0"
  define s where "s = portcontextSAVE_EXCEPTION_CONTEXT spike_hw (take_trap spike_hw 11 m)"
  define r where "r = portcontextRESTORE_CONTEXT spike_hw s"
  have m: "spike_kernel m" "glob m port_current_task_window_base = 0" "addr_of m = (\<lambda>_. 0x2000)"
    using demo_spike_kernel [of 0] by (simp_all add: m_def demo_machine_def)
  note s = demo_spike_legacy_saved [OF m_def s_def]
  from spike_legacy_switch_clobbers [OF m(1,2) s_def s(1) frame_kept_refl refl refl r_def]
  have "xr spike_hw r t0 = 0" "xr spike_hw r t5 = addr_of s port_window_kernel_stage_count" by simp_all
  then show ?thesis
    unfolding Let_def m_def [symmetric] s_def [symmetric] r_def [symmetric]
    using demo_spike_regs m s by (simp add: m_def)
qed

theorem cva6_legacy_restore_dead_window_witness:
  "let m = demo_machine (demo_cva6 0x00200000) 0;
       s = portcontextSAVE_EXCEPTION_CONTEXT cva6_hw (take_trap cva6_hw 11 m);
       r = portcontextRESTORE_CONTEXT cva6_hw s
   in xr cva6_hw m 10 = 10 \<and> xr cva6_hw r 10 = 0"
proof -
  define m where "m = demo_machine (demo_cva6 0x00200000) 0"
  define s where "s = portcontextSAVE_EXCEPTION_CONTEXT cva6_hw (take_trap cva6_hw 11 m)"
  define r where "r = portcontextRESTORE_CONTEXT cva6_hw s"
  have m: "cva6_kernel m" "glob m port_current_task_window_base = 0"
    using demo_cva6_kernel [of 0] by (simp_all add: m_def demo_machine_def)
  have s: "cva6_kernel s"
    using cva.save_exception_full(1) [OF m(1)[unfolded cva6_kernel_iff] m(2) s_def refl refl]
    by (simp add: cva6_kernel_iff)
  from cva6_legacy_restore_dead_window [OF m s_def s frame_kept_refl refl refl r_def]
  have "xr cva6_hw r 10 = 0" by simp
  then show ?thesis
    unfolding Let_def m_def [symmetric] s_def [symmetric] r_def [symmetric]
    by (simp add: m_def demo_machine_def demo_cva6_def xr_def cva6_hw_def cva6_read_def
        in_window_def cfg_base_def cfg_size_def)
qed

text \<open>
  C34. The first full restore of a task with a register window loads its frame into the
  kernel window only: after mret the task sees the old contents of its physical window, not
  its frame.
\<close>

theorem spike_first_dispatch_window:
  assumes "spike_kernel k" and "t = glob k pxCurrentTCB" and "f = pxTopOfStack k t"
    and "stk k (f + 128) = 0" and "stk k (f + 124) = c" and "valid_cfg c" and "32 \<le> cfg_base c"
    and "r = portcontextRESTORE_CONTEXT spike_hw k"
  shows "pc r = stk k f \<and> (\<forall>i<32. xr spike_hw r i =
    (if 0 < i \<and> i < cfg_size c then spike_phys (hart k) (cfg_base c + i) else 0))"
  using spk.first_dispatch [OF assms(1)[unfolded spike_kernel_iff] assms(2-8)] by blast

theorem spike_first_dispatch_window_witness:
  "let k = (demo_machine (demo_spike 0 0 32) 0)
             \<lparr>pxTopOfStack := \<lambda>_. 0x4000, stk := (\<lambda>_. 0)(0x407C := 0x00100020, 0x4020 := 7)\<rparr>;
       r = portcontextRESTORE_CONTEXT spike_hw k
   in stk k (0x4000 + 4 * 8) = 7 \<and> xr spike_hw r a0 = 42"
proof -
  define k where "k = (demo_machine (demo_spike 0 0 32) 0)
     \<lparr>pxTopOfStack := \<lambda>_. 0x4000, stk := (\<lambda>_. 0)(0x407C := 0x00100020, 0x4020 := 7)\<rparr>"
  define r where "r = portcontextRESTORE_CONTEXT spike_hw k"
  have k: "spike_kernel k" using demo_spike_kernel [of 0] by (simp add: k_def kernel_window_def)
  have f: "(0x4000 :: word32) = pxTopOfStack k (glob k pxCurrentTCB)" by (simp add: k_def)
  have "xr spike_hw r a0 = spike_phys (hart k) (cfg_base 0x00100020 + a0)"
    using spike_first_dispatch_window [OF k refl f _ _ demo_cfg(3) _ r_def]
    by (simp add: k_def demo_cfg)
  then show ?thesis unfolding Let_def k_def [symmetric] r_def [symmetric]
    by (simp add: demo_cfg spike_phys_def) (simp add: k_def demo_machine_def demo_spike_def)
qed





text \<open>
  A write through a Spike register window changes no physical register outside the
  window, is visible at its index, and changes no other visible register.
\<close>

lemma regfile_window_isolation:
  assumes "regfile_wf 64 rf" and "i < 32"
  shows "regfile_wf 64 (regfile_write True i v rf) \<and>
    (\<forall>j. j < base_offset rf \<or> base_offset rf + window_size rf \<le> j \<longrightarrow>
       rf_data (regfile_write True i v rf) ! j = rf_data rf ! j) \<and>
    (\<forall>k<32. regfile_read True (regfile_write True i v rf) k =
       (if k = i \<and> 0 < i \<and> i < window_size rf then v else regfile_read True rf k))"
proof (intro conjI)
  show wf: "regfile_wf 64 (regfile_write True i v rf)"
    using assms by (simp add: regfile_wf_write)
  show "\<forall>j. j < base_offset rf \<or> base_offset rf + window_size rf \<le> j \<longrightarrow>
       rf_data (regfile_write True i v rf) ! j = rf_data rf ! j"
    using assms by (auto simp: regfile_write_eq)
  show "\<forall>k<32. regfile_read True (regfile_write True i v rf) k =
       (if k = i \<and> 0 < i \<and> i < window_size rf then v else regfile_read True rf k)"
    using assms wf by (auto simp: regfile_read_eq regfile_write_eq) (auto simp: regfile_wf_def)
qed

text \<open>
  C37. A base beyond the register file is ignored by set_window_config but still used to
  clamp the size, which underflows to nearly 2^64: the old base then reaches every register
  above it.
\<close>

theorem set_window_config_base_out_of_range:
  assumes "regfile_wf 64 rf" and "64 < b" and "b \<le> 0xFFFF" and "sz \<le> 0xFFFF"
  shows "base_offset (set_window_config b sz rf) = base_offset rf \<and>
    window_size (set_window_config b sz rf) = 2 ^ 64 + 64 - b \<and>
    (\<forall>i. 0 < i \<and> base_offset rf + i < 64 \<longrightarrow>
       rf_data (regfile_write True i v (set_window_config b sz rf)) ! (base_offset rf + i) = v)"
  using assms
  by (auto simp: set_window_config_def regfile_wf_def size_t_add_def size_t_sub_def Let_def
      regfile_write_def ac_simps)

theorem set_window_config_base_out_of_range_witness:
  "let rf = \<lparr>rf_data = map of_nat [0..<64], base_offset = 32, window_size = 8\<rparr>
   in rf_data (regfile_write True 20 99 (set_window_config 100 8 rf)) ! 52 = (99 :: word32)"
proof -
  define rf :: "word32 regfile" where
    "rf = \<lparr>rf_data = map of_nat [0..<64], base_offset = 32, window_size = 8\<rparr>"
  have "regfile_wf 64 rf" by (simp add: rf_def regfile_wf_def)
  from set_window_config_base_out_of_range [OF this, of 100 8 99]
  have "\<forall>i. 0 < i \<and> base_offset rf + i < 64 \<longrightarrow>
       rf_data (regfile_write True i 99 (set_window_config 100 8 rf)) ! (base_offset rf + i) = 99"
    by simp
  moreover have "base_offset rf = 32" by (simp add: rf_def)
  ultimately show ?thesis unfolding Let_def rf_def [symmetric] by (auto dest: spec [of _ 20])
qed

text \<open>
  C38. A window based at 32 leaves the 32-entry floating-point file with an empty window,
  so every floating-point write is dropped.
\<close>

theorem fpr_window_base_32_empty:
  assumes "length (rf_data (FPR s)) = 32" and "valid_cfg (window_staged s)"
    and "cfg_base (window_staged s) = 32"
  shows "window_size (FPR (spike_mret s)) = 0 \<and>
    (\<forall>i v. regfile_write False i v (FPR (spike_mret s)) = FPR (spike_mret s))"
proof -
  have "window_size (FPR (spike_mret s)) = 0"
    using assms by (auto simp: spike_mret_def window_config_csr_write_def Let_def
        set_window_config_def size_t_add_def size_t_sub_def valid_cfg_def)
  then show ?thesis by (simp add: regfile_write_def)
qed

theorem fpr_window_base_32_empty_witness:
  "window_size (FPR (spike_mret (demo_spike 0x00100020 0 32))) = 0"
  using fpr_window_base_32_empty [of "demo_spike 0x00100020 0 32"]
  by (simp add: demo_spike_def regfile_reset_def demo_cfg)


definition demo_calls :: "'h c_calls" where
  "demo_calls = \<lparr>c_vTaskSwitchContext = (\<lambda>m. m\<lparr>mcause := 1\<rparr>), c_xTaskIncrementTick = id,
     c_update_mtimer_compare = id, c_application_interrupt_handler = id,
     c_application_exception_handler = id\<rparr>"


text \<open>
  vPortTaskSetRegisterWindow stores the same configuration word in the TCB and in the
  saved frame, and its base and size read back as given.
\<close>

lemma register_window_recorded:
  assumes "xTask \<noteq> 0" and "pxTopOfStack m xTask \<noteq> 0"
    and "unat ulBase < 65536" and "unat ulSize < 65536"
  shows "\<exists>m' cfg. vPortTaskSetRegisterWindow xTask ulBase ulSize m = Some m' \<and>
    xTaskGetWindowingContext xTask m' =
      Some (cfg, False, ucPortLastContextType (window_tcbs m xTask)) \<and>
    stk m' (pxTopOfStack m' xTask + 124) = cfg \<and> cfg_base cfg = unat ulBase \<and> cfg_size cfg = unat ulSize"
  using assms cfg_encode [OF assms(3,4)]
  by (simp add: vPortTaskSetRegisterWindow_def vTaskSetWindowingContext_def Let_def
      prvGetTCBFromHandle_def set_window_slot_def xTaskGetWindowingContext_def)

text \<open>
  C36. Enabling kernel borrowing overwrites the recorded window configuration with 0, so
  disabling it again leaves the task with configuration 0 and not with the window it had.
\<close>

theorem borrowing_forgets_window:
  assumes "xTask \<noteq> 0" and "pxTopOfStack m xTask \<noteq> 0" and "xEnable \<noteq> 0"
  shows "\<exists>m1 m2. vPortTaskSetKernelBorrowing xTask xEnable m = Some m1 \<and>
    vPortTaskSetKernelBorrowing xTask 0 m1 = Some m2 \<and>
    xTaskGetWindowingContext xTask m1 =
      Some (0, True, ucPortLastContextType (window_tcbs m xTask)) \<and>
    xTaskGetWindowingContext xTask m2 =
      Some (0, False, ucPortLastContextType (window_tcbs m xTask)) \<and>
    stk m1 (pxTopOfStack m1 xTask + 124) = 0 \<and> stk m2 (pxTopOfStack m2 xTask + 124) = 0"
  using assms
  by (simp add: vPortTaskSetKernelBorrowing_def vTaskSetWindowingContext_def Let_def
      prvGetTCBFromHandle_def set_window_slot_def xTaskGetWindowingContext_def)

theorem borrowing_forgets_window_witness:
  "let m = (demo_machine () 0)\<lparr>pxTopOfStack := \<lambda>_. 0x4000,
        window_tcbs := \<lambda>_. \<lparr>ulPortWindowConfig = 0x00100020, ucPortBorrowKernelWindow = 0,
                          ucPortLastContextType = 0\<rparr>\<rparr>
   in \<exists>m1 m2. vPortTaskSetKernelBorrowing 0x1000 1 m = Some m1 \<and>
        vPortTaskSetKernelBorrowing 0x1000 0 m1 = Some m2 \<and>
        xTaskGetWindowingContext 0x1000 m = Some (0x00100020, False, 0) \<and>
        xTaskGetWindowingContext 0x1000 m2 = Some (0, False, 0)"
  using borrowing_forgets_window [of "0x1000" "(demo_machine () 0)\<lparr>pxTopOfStack := \<lambda>_. 0x4000,
        window_tcbs := \<lambda>_. \<lparr>ulPortWindowConfig = 0x00100020, ucPortBorrowKernelWindow = 0,
                          ucPortLastContextType = 0\<rparr>\<rparr>" 1]
  by (auto simp: Let_def xTaskGetWindowingContext_def prvGetTCBFromHandle_def)

end
