(* ===== verification/Port_Timer.thy ===== *)
theory Port_Timer
  imports Prelude
begin

text \<open>
  The tick timer of the RV32 port: \<^verbatim>\<open>vPortSetupTimerInterrupt\<close> of \<^verbatim>\<open>port.c\<close> and the
  macro \<^verbatim>\<open>portUPDATE_MTIMER_COMPARE_REGISTER\<close> of \<^verbatim>\<open>portASM.S\<close>. The 64-bit machine
  timer is read and its compare register written in two 32-bit halves.
\<close>

definition hi32 :: "word64 \<Rightarrow> word32" where
  "hi32 w = ucast (drop_bit 32 w)"

definition lo32 :: "word64 \<Rightarrow> word32" where
  "lo32 w = ucast w"

definition join64 :: "word32 \<Rightarrow> word32 \<Rightarrow> word64" where
  "join64 hi lo = push_bit 32 (ucast hi) OR ucast lo"

record timer =
  ullNextTime :: word64
  mtimecmp :: word64
  uxTimerIncrementsForOneTick :: word32

text \<open>
  The three stores to the compare register leave it with three values in turn; the last
  component of the result lists them.
\<close>

definition portUPDATE_MTIMER_COMPARE_REGISTER :: "timer \<Rightarrow> timer \<times> word64 list" where
  "portUPDATE_MTIMER_COMPARE_REGISTER t =
     (let a2 = lo32 (ullNextTime t);
          a3 = hi32 (ullNextTime t);
          c1 = join64 (hi32 (mtimecmp t)) (- 1);
          c2 = join64 a3 (lo32 c1);
          c3 = join64 (hi32 c2) a2;
          a4 = uxTimerIncrementsForOneTick t + a2;
          t1 = (if a4 < a2 then 1 else 0);
          t2 = a3 + t1
      in (t\<lparr>mtimecmp := c3, ullNextTime := join64 t2 a4\<rparr>, [c1, c2, c3]))"

text \<open>
  The \<^verbatim>\<open>do\<close> loop of \<^verbatim>\<open>vPortSetupTimerInterrupt\<close>: \<open>mtime n\<close> is the value of the timer
  at the \<open>n\<close>-th access. The result carries the number of accesses made so far.
\<close>

partial_function (option) read_mtime ::
  "(nat \<Rightarrow> word64) \<Rightarrow> nat \<Rightarrow> (word32 \<times> word32 \<times> nat) option" where
  "read_mtime mtime n =
     (let ulCurrentTimeHigh = hi32 (mtime n); ulCurrentTimeLow = lo32 (mtime (n + 1))
      in if ulCurrentTimeHigh \<noteq> hi32 (mtime (n + 2)) then read_mtime mtime (n + 3)
         else Some (ulCurrentTimeHigh, ulCurrentTimeLow, n + 3))"

definition vPortSetupTimerInterrupt :: "(nat \<Rightarrow> word64) \<Rightarrow> timer \<Rightarrow> timer option" where
  "vPortSetupTimerInterrupt mtime t =
     (case read_mtime mtime 0 of None \<Rightarrow> None
      | Some (ulCurrentTimeHigh, ulCurrentTimeLow, _) \<Rightarrow>
          let next0 = push_bit 32 (ucast ulCurrentTimeHigh) OR ucast ulCurrentTimeLow;
              next1 = next0 + ucast (uxTimerIncrementsForOneTick t)
          in Some (t\<lparr>mtimecmp := next1,
                     ullNextTime := next1 + ucast (uxTimerIncrementsForOneTick t)\<rparr>))"

section \<open>Halves of a 64-bit word\<close>

lemma join_halves [simp]: "join64 (hi32 w) (lo32 w) = w"
  by (rule bit_eqI) (auto simp: join64_def hi32_def lo32_def bit_simps)

lemma hi_join [simp]: "hi32 (join64 h l) = h"
  by (rule bit_eqI) (auto simp: join64_def hi32_def bit_simps dest: bit_imp_le_length)

lemma lo_join [simp]: "lo32 (join64 h l) = l"
  by (rule bit_eqI) (auto simp: join64_def lo32_def bit_simps)

lemma unat_hi32: "unat (hi32 w) = unat w div 4294967296"
proof -
  have b: "unat w div 4294967296 < 4294967296"
    using unsigned_less [of w, where ?'a = nat] by (simp add: less_mult_imp_div_less)
  have "unat (drop_bit 32 w) = unat w div 4294967296"
    using unsigned_less [of w, where ?'a = nat]
    by (simp only: unsigned_drop_bit_eq) (simp add: drop_bit_eq_div take_bit_nat_eq_self)
  with b show ?thesis
    by (simp only: hi32_def unsigned_ucast_eq) (simp add: take_bit_nat_eq_self)
qed

lemma unat_lo32: "unat (lo32 w) = unat w mod 4294967296"
  by (simp add: lo32_def unsigned_ucast_eq take_bit_eq_mod)

lemma unat_join64: "unat (join64 h l) = unat h * 4294967296 + unat l"
proof -
  have "unat (join64 h l) = unat (join64 h l) div 4294967296 * 4294967296 +
      unat (join64 h l) mod 4294967296"
    by (metis div_mult_mod_eq)
  also have "\<dots> = unat h * 4294967296 + unat l"
    by (simp add: unat_hi32 [symmetric] unat_lo32 [symmetric])
  finally show ?thesis .
qed

lemma join64_succ: "join64 (h + 1) l = join64 h l + 4294967296"
proof (cases "h = - 1")
  case True
  then have "h = 0xFFFFFFFF" by simp
  then have "unat h = 4294967295" by (simp only:) simp
  then show ?thesis
    using True unat_word32_less [of l]
    by (simp add: word_unat_eq_iff unat_join64 unat_word_ariths)
next
  case False
  then have "unat (h + 1) = unat h + 1"
    by (metis Suc_eq_plus1 unatSuc add.commute add_eq_0_iff)
  moreover have "unat (h + 1) < 4294967296" "unat l < 4294967296"
    by (simp_all add: unat_word32_less)
  ultimately show ?thesis
    by (simp add: word_unat_eq_iff unat_join64 unat_word_ariths)
qed

lemma join64_carry:
  fixes h l i :: word32
  shows "join64 (h + (if i + l < l then 1 else 0)) (i + l) = join64 h l + ucast i"
proof -
  have b: "unat h < 4294967296" "unat l < 4294967296" "unat i < 4294967296"
    by (simp_all add: unat_word32_less)
  have u: "unat (ucast i :: word64) = unat i"
    using b by (simp add: unsigned_ucast_eq take_bit_nat_eq_self)
  show ?thesis
  proof (cases "unat i + unat l < 4294967296")
    case True
    then have s: "unat (i + l) = unat i + unat l"
      by (simp add: unat_add_no_overflow)
    then have "\<not> i + l < l" by (simp add: word_less_nat_alt)
    then show ?thesis
      using b s True by (simp add: word_unat_eq_iff unat_join64 unat_word_ariths u)
  next
    case False
    then have s: "unat (i + l) = unat i + unat l - 4294967296"
      using b by (simp add: unat_word_ariths mod_if)
    then have "i + l < l" using b False by (simp add: word_less_nat_alt)
    moreover have "unat (join64 h (i + l)) + 4294967296 = unat (join64 h l) + unat i"
      using b s False by (simp add: unat_join64)
    then have "join64 h (i + l) + 4294967296 = join64 h l + ucast i"
      by (simp add: word_unat_eq_iff unat_word_ariths u)
    ultimately show ?thesis by (simp add: join64_succ)
  qed
qed

lemma join64_mono: "h \<le> h' \<Longrightarrow> l \<le> l' \<Longrightarrow> join64 h l \<le> join64 h' l'"
  by (simp add: word_le_nat_alt unat_join64 add_mono)

lemma hi32_mono: "a \<le> b \<Longrightarrow> hi32 a \<le> hi32 b"
  by (simp add: word_le_nat_alt unat_hi32 div_le_mono)

section \<open>Properties\<close>

text \<open>
  C26. The macro that moves the timer compare register to the next tick, in three 32-bit
  stores with a carry by hand, leaves the 64-bit deadline in it and the next deadline one
  period later; no intermediate value is below both the old and the new deadline, so no
  early interrupt can fire.
\<close>

theorem mtimer_compare_update:
  assumes "portUPDATE_MTIMER_COMPARE_REGISTER t = (t', cs)"
  shows "mtimecmp t' = ullNextTime t \<and>
    ullNextTime t' = ullNextTime t + ucast (uxTimerIncrementsForOneTick t) \<and>
    uxTimerIncrementsForOneTick t' = uxTimerIncrementsForOneTick t \<and>
    (\<forall>c \<in> set cs. mtimecmp t \<le> c \<or> ullNextTime t \<le> c)"
proof -
  have m: "(l :: word32) \<le> - 1" for l by simp
  have "mtimecmp t = join64 (hi32 (mtimecmp t)) (lo32 (mtimecmp t))"
    "ullNextTime t = join64 (hi32 (ullNextTime t)) (lo32 (ullNextTime t))" by simp_all
  then have c: "mtimecmp t \<le> join64 (hi32 (mtimecmp t)) (- 1)"
    "ullNextTime t \<le> join64 (hi32 (ullNextTime t)) (- 1)"
    using join64_mono [OF order_refl m] by metis+
  show ?thesis
    using assms c
    by (auto simp: portUPDATE_MTIMER_COMPARE_REGISTER_def Let_def
        join64_carry [of "hi32 (ullNextTime t)" _ "lo32 (ullNextTime t)", simplified])
qed

theorem mtimer_compare_update_witness:
  "let t = \<lparr>ullNextTime = 0x1FFFFFFFF, mtimecmp = 0x1FFFFFFF0, uxTimerIncrementsForOneTick = 15\<rparr>;
       r = portUPDATE_MTIMER_COMPARE_REGISTER t
   in mtimecmp (fst r) = 0x1FFFFFFFF \<and> ullNextTime (fst r) = 0x20000000E"
  using mtimer_compare_update [of "\<lparr>ullNextTime = 0x1FFFFFFFF, mtimecmp = 0x1FFFFFFF0,
      uxTimerIncrementsForOneTick = 15\<rparr>", OF prod.collapse [symmetric]]
  by (simp add: Let_def)

text \<open>
  The two reads of the high word bracket the read of the low word, so with a timer that
  never runs backwards the halves belong to one value; and a retry means the high word has
  grown, which can happen only finitely often.
\<close>

lemma read_mtime_snapshot:
  assumes mono: "\<And>i j. i \<le> j \<Longrightarrow> mtime i \<le> mtime j"
  shows "\<exists>k. read_mtime mtime n = Some (hi32 (mtime k), lo32 (mtime k), k + 2) \<and> n < k"
proof (induction "4294967296 - unat (hi32 (mtime n))" arbitrary: n rule: less_induct)
  case less
  have le: "hi32 (mtime n) \<le> hi32 (mtime (n + 1))" "hi32 (mtime (n + 1)) \<le> hi32 (mtime (n + 2))"
    "hi32 (mtime (n + 2)) \<le> hi32 (mtime (n + 3))"
    by (simp_all add: hi32_mono mono)
  note unfold = read_mtime.simps [of mtime n]
  show ?case
  proof (cases "hi32 (mtime n) = hi32 (mtime (n + 2))")
    case True
    then have e: "hi32 (mtime n) = hi32 (mtime (n + 1))" using le by (simp add: order_antisym)
    have "read_mtime mtime n = Some (hi32 (mtime n), lo32 (mtime (n + 1)), n + 3)"
      by (subst unfold) (simp only: Let_def True simp_thms if_False)
    then show ?thesis
      by (intro exI [of _ "n + 1"]) (simp only: e, simp)
  next
    case False
    then have "hi32 (mtime n) < hi32 (mtime (n + 2))"
      using order_trans [OF le(1,2)] by (simp add: order.strict_iff_order)
    also note le(3)
    finally have "4294967296 - unat (hi32 (mtime (n + 3))) < 4294967296 - unat (hi32 (mtime n))"
      using unat_word32_less [of "hi32 (mtime (n + 3))"] by (simp add: word_less_nat_alt)
    from less [OF this] obtain k where
      "read_mtime mtime (n + 3) = Some (hi32 (mtime k), lo32 (mtime k), k + 2)" "n + 3 < k"
      by blast
    moreover have "read_mtime mtime n = read_mtime mtime (n + 3)"
      by (subst unfold) (simp only: Let_def False simp_thms if_True)
    ultimately show ?thesis
      by (intro exI [of _ k]) simp
  qed
qed

text \<open>
  C27. With a timer that never runs backwards, the loop that reads it in two halves ends,
  and the first deadline is one tick after a value the timer really had, whatever carries
  happen between the reads.
\<close>

theorem setup_timer_interrupt:
  assumes "\<And>i j. i \<le> j \<Longrightarrow> mtime i \<le> mtime j"
  shows "\<exists>k t'. vPortSetupTimerInterrupt mtime t = Some t' \<and>
    mtimecmp t' = mtime k + ucast (uxTimerIncrementsForOneTick t) \<and>
    ullNextTime t' = mtime k + 2 * ucast (uxTimerIncrementsForOneTick t) \<and>
    uxTimerIncrementsForOneTick t' = uxTimerIncrementsForOneTick t"
proof -
  obtain k where k: "read_mtime mtime 0 = Some (hi32 (mtime k), lo32 (mtime k), k + 2)"
    using read_mtime_snapshot [of mtime 0, OF assms] by blast
  have j: "push_bit 32 (ucast (hi32 w)) OR ucast (lo32 w) = w" for w :: word64
    using join_halves [of w] by (simp only: join64_def)
  show ?thesis
    by (rule exI [of _ k], rule exI) (auto simp: vPortSetupTimerInterrupt_def k Let_def j)
qed

theorem setup_timer_interrupt_witness:
  "\<exists>k t'. vPortSetupTimerInterrupt (\<lambda>n. if n < 2 then 0xFFFFFFFF else 0x100000000)
      \<lparr>ullNextTime = 0, mtimecmp = 0, uxTimerIncrementsForOneTick = 10\<rparr> = Some t' \<and>
    mtimecmp t' = (if k < (2 :: nat) then 0x100000009 else 0x10000000A)"
proof -
  let ?m = "\<lambda>n :: nat. if n < 2 then 0xFFFFFFFF else 0x100000000 :: word64"
  let ?t = "\<lparr>ullNextTime = 0, mtimecmp = 0, uxTimerIncrementsForOneTick = 10\<rparr>"
  have "?m i \<le> ?m j" if "i \<le> j" for i j using that by simp
  from setup_timer_interrupt [of ?m ?t, OF this] obtain k t' where
    "vPortSetupTimerInterrupt ?m ?t = Some t'" "mtimecmp t' = ?m k + ucast (10 :: word32)"
    by auto
  then show ?thesis by (intro exI [of _ k] exI [of _ t']) simp
qed

end
