(* ===== verification/Kernel_List.thy ===== *)
theory Kernel_List
  imports Prelude
begin

text \<open>
  The kernel's intrusive doubly linked lists (\<^verbatim>\<open>list.c\<close>, \<^verbatim>\<open>list.h\<close>). The model keeps the
  pointers: a store maps the address of every list item, and of the end marker embedded in
  every list, to the fields of the C structure, and the operations write the same fields in
  the same order as the code. An abstract list (a sequence of items and the position of the
  walking index) is what the rest of the kernel relies on; \<open>repr\<close> relates the two.
\<close>

section \<open>The C data structures\<close>

datatype ('i, 'l) node = Item 'i | ListEnd 'l

record ('i, 'l) ListItem_t =
  xItemValue :: word32
  pxNext :: "('i, 'l) node"
  pxPrevious :: "('i, 'l) node"
  pvOwner :: word32
  pxContainer :: "'l option"

record ('i, 'l) List_t =
  uxNumberOfItems :: word32
  pxIndex :: "('i, 'l) node"

record ('i, 'l) store =
  nodes :: "('i, 'l) node \<Rightarrow> ('i, 'l) ListItem_t"
  lists :: "'l \<Rightarrow> ('i, 'l) List_t"

definition set_next :: "('i, 'l) node \<Rightarrow> ('i, 'l) node \<Rightarrow> ('i, 'l) store \<Rightarrow> ('i, 'l) store" where
  "set_next p q s = s\<lparr>nodes := (nodes s)(p := (nodes s p)\<lparr>pxNext := q\<rparr>)\<rparr>"

definition set_previous :: "('i, 'l) node \<Rightarrow> ('i, 'l) node \<Rightarrow> ('i, 'l) store \<Rightarrow> ('i, 'l) store" where
  "set_previous p q s = s\<lparr>nodes := (nodes s)(p := (nodes s p)\<lparr>pxPrevious := q\<rparr>)\<rparr>"

definition set_container :: "('i, 'l) node \<Rightarrow> 'l option \<Rightarrow> ('i, 'l) store \<Rightarrow> ('i, 'l) store" where
  "set_container p c s = s\<lparr>nodes := (nodes s)(p := (nodes s p)\<lparr>pxContainer := c\<rparr>)\<rparr>"

definition set_number :: "'l \<Rightarrow> word32 \<Rightarrow> ('i, 'l) store \<Rightarrow> ('i, 'l) store" where
  "set_number l n s = s\<lparr>lists := (lists s)(l := (lists s l)\<lparr>uxNumberOfItems := n\<rparr>)\<rparr>"

definition set_index :: "'l \<Rightarrow> ('i, 'l) node \<Rightarrow> ('i, 'l) store \<Rightarrow> ('i, 'l) store" where
  "set_index l p s = s\<lparr>lists := (lists s)(l := (lists s l)\<lparr>pxIndex := p\<rparr>)\<rparr>"

section \<open>The operations\<close>

definition vListInitialise :: "'l \<Rightarrow> ('i, 'l) store \<Rightarrow> ('i, 'l) store" where
  "vListInitialise l s =
     (let e = ListEnd l;
          s = set_index l e s;
          s = s\<lparr>nodes := (nodes s)(e := (nodes s e)\<lparr>xItemValue := portMAX_DELAY\<rparr>)\<rparr>;
          s = set_next e e s;
          s = set_previous e e s
      in set_number l 0 s)"

definition vListInitialiseItem :: "'i \<Rightarrow> ('i, 'l) store \<Rightarrow> ('i, 'l) store" where
  "vListInitialiseItem x = set_container (Item x) None"

definition vListInsertEnd :: "'l \<Rightarrow> 'i \<Rightarrow> ('i, 'l) store \<Rightarrow> ('i, 'l) store" where
  "vListInsertEnd l x s =
     (let index = pxIndex (lists s l);
          s = set_next (Item x) index s;
          s = set_previous (Item x) (pxPrevious (nodes s index)) s;
          s = set_next (pxPrevious (nodes s index)) (Item x) s;
          s = set_previous index (Item x) s;
          s = set_container (Item x) (Some l) s
      in set_number l (uxNumberOfItems (lists s l) + 1) s)"

partial_function (option) insert_position ::
  "('i, 'l) store \<Rightarrow> word32 \<Rightarrow> ('i, 'l) node \<Rightarrow> ('i, 'l) node option" where
  "insert_position s xValueOfInsertion it =
     (if xItemValue (nodes s (pxNext (nodes s it))) \<le> xValueOfInsertion
      then insert_position s xValueOfInsertion (pxNext (nodes s it))
      else Some it)"

definition insert_after ::
  "'l \<Rightarrow> 'i \<Rightarrow> ('i, 'l) node \<Rightarrow> ('i, 'l) store \<Rightarrow> ('i, 'l) store" where
  "insert_after l x it s =
     (let s = set_next (Item x) (pxNext (nodes s it)) s;
          s = set_previous (pxNext (nodes s (Item x))) (Item x) s;
          s = set_previous (Item x) it s;
          s = set_next it (Item x) s;
          s = set_container (Item x) (Some l) s
      in set_number l (uxNumberOfItems (lists s l) + 1) s)"

definition vListInsert :: "'l \<Rightarrow> 'i \<Rightarrow> ('i, 'l) store \<Rightarrow> ('i, 'l) store option" where
  "vListInsert l x s =
     (let xValueOfInsertion = xItemValue (nodes s (Item x));
          pxIterator = (if xValueOfInsertion = portMAX_DELAY
                        then Some (pxPrevious (nodes s (ListEnd l)))
                        else insert_position s xValueOfInsertion (ListEnd l))
      in map_option (\<lambda>it. insert_after l x it s) pxIterator)"

text \<open>Removing an item that is in no list dereferences the null container: no result.\<close>

definition uxListRemove :: "'i \<Rightarrow> ('i, 'l) store \<Rightarrow> (word32 \<times> ('i, 'l) store) option" where
  "uxListRemove x s =
     (case pxContainer (nodes s (Item x)) of None \<Rightarrow> None
      | Some l \<Rightarrow>
          let s = set_previous (pxNext (nodes s (Item x))) (pxPrevious (nodes s (Item x))) s;
              s = set_next (pxPrevious (nodes s (Item x))) (pxNext (nodes s (Item x))) s;
              s = (if pxIndex (lists s l) = Item x
                   then set_index l (pxPrevious (nodes s (Item x))) s else s);
              s = set_container (Item x) None s;
              s = set_number l (uxNumberOfItems (lists s l) - 1) s
          in Some (uxNumberOfItems (lists s l), s))"

definition listGET_OWNER_OF_NEXT_ENTRY :: "'l \<Rightarrow> ('i, 'l) store \<Rightarrow> word32 \<times> ('i, 'l) store" where
  "listGET_OWNER_OF_NEXT_ENTRY l s =
     (let s = set_index l (pxNext (nodes s (pxIndex (lists s l)))) s;
          s = (if pxIndex (lists s l) = ListEnd l
               then set_index l (pxNext (nodes s (ListEnd l))) s else s)
      in (pvOwner (nodes s (pxIndex (lists s l))), s))"

definition listLIST_IS_EMPTY :: "'l \<Rightarrow> ('i, 'l) store \<Rightarrow> bool" where
  "listLIST_IS_EMPTY l s \<longleftrightarrow> uxNumberOfItems (lists s l) = 0"

definition listGET_ITEM_VALUE_OF_HEAD_ENTRY :: "'l \<Rightarrow> ('i, 'l) store \<Rightarrow> word32" where
  "listGET_ITEM_VALUE_OF_HEAD_ENTRY l s = xItemValue (nodes s (pxNext (nodes s (ListEnd l))))"

definition listGET_OWNER_OF_HEAD_ENTRY :: "'l \<Rightarrow> ('i, 'l) store \<Rightarrow> word32" where
  "listGET_OWNER_OF_HEAD_ENTRY l s = pvOwner (nodes s (pxNext (nodes s (ListEnd l))))"

section \<open>The abstract list\<close>

text \<open>\<open>kindex\<close> is the item the index points at, \<open>None\<close> when it points at the end marker.\<close>

record 'i klist =
  kitems :: "'i list"
  kindex :: "'i option"

definition kl_empty :: "'i klist" where
  "kl_empty = \<lparr>kitems = [], kindex = None\<rparr>"

definition kl_split :: "'i klist \<Rightarrow> 'i list \<times> 'i list" where
  "kl_split k = (case kindex k of None \<Rightarrow> (kitems k, [])
     | Some i \<Rightarrow> (takeWhile (\<lambda>y. y \<noteq> i) (kitems k), dropWhile (\<lambda>y. y \<noteq> i) (kitems k)))"

definition kl_insert_end :: "'i \<Rightarrow> 'i klist \<Rightarrow> 'i klist" where
  "kl_insert_end x k = k\<lparr>kitems := fst (kl_split k) @ x # snd (kl_split k)\<rparr>"

definition kl_insert :: "('i \<Rightarrow> word32) \<Rightarrow> 'i \<Rightarrow> 'i klist \<Rightarrow> 'i klist" where
  "kl_insert v x k = k\<lparr>kitems := takeWhile (\<lambda>y. v y \<le> v x) (kitems k) @
      x # dropWhile (\<lambda>y. v y \<le> v x) (kitems k)\<rparr>"

definition kl_prev :: "'i \<Rightarrow> 'i list \<Rightarrow> 'i option" where
  "kl_prev x xs = (case takeWhile (\<lambda>y. y \<noteq> x) xs of [] \<Rightarrow> None | ys \<Rightarrow> Some (last ys))"

definition kl_remove :: "'i \<Rightarrow> 'i klist \<Rightarrow> 'i klist" where
  "kl_remove x k =
     \<lparr>kitems = remove1 x (kitems k),
      kindex = (if kindex k = Some x then kl_prev x (kitems k) else kindex k)\<rparr>"

text \<open>The items in the order in which a walk from the index meets them.\<close>

definition kl_round :: "'i klist \<Rightarrow> 'i list" where
  "kl_round k = (case kindex k of None \<Rightarrow> kitems k
     | Some i \<Rightarrow> tl (dropWhile (\<lambda>y. y \<noteq> i) (kitems k)) @ takeWhile (\<lambda>y. y \<noteq> i) (kitems k) @ [i])"

definition kl_next :: "'i klist \<Rightarrow> 'i klist" where
  "kl_next k = k\<lparr>kindex := (case kl_round k of [] \<Rightarrow> None | x # _ \<Rightarrow> Some x)\<rparr>"

section \<open>Linked rings\<close>

lemma takeWhile_ne_append [simp]:
  "x \<notin> set us \<Longrightarrow> takeWhile (\<lambda>y. y \<noteq> x) (us @ x # vs) = us"
  "x \<notin> set us \<Longrightarrow> dropWhile (\<lambda>y. y \<noteq> x) (us @ x # vs) = x # vs"
  by (induction us) auto

fun linked :: "('n \<Rightarrow> 'n) \<Rightarrow> ('n \<Rightarrow> 'n) \<Rightarrow> 'n list \<Rightarrow> bool" where
  "linked nx pv (a # b # ns) \<longleftrightarrow> nx a = b \<and> pv b = a \<and> linked nx pv (b # ns)"
| "linked nx pv _ \<longleftrightarrow> True"

lemma linked_append:
  "p \<noteq> [] \<Longrightarrow> q \<noteq> [] \<Longrightarrow> linked nx pv (p @ q) \<longleftrightarrow>
     linked nx pv p \<and> linked nx pv q \<and> nx (last p) = hd q \<and> pv (hd q) = last p"
proof (induction p)
  case (Cons a p)
  then show ?case by (cases p; cases q) auto
qed simp

lemma linked_cong:
  "(\<And>c. c \<in> set (butlast ns) \<Longrightarrow> nx' c = nx c) \<Longrightarrow> (\<And>c. c \<in> set (tl ns) \<Longrightarrow> pv' c = pv c) \<Longrightarrow>
   linked nx' pv' ns = linked nx pv ns"
  by (induction nx pv ns rule: linked.induct) auto

text \<open>The two halves of a ring cut open at one place.\<close>

definition halves :: "'n list \<Rightarrow> 'n list \<Rightarrow> bool" where
  "halves p q \<longleftrightarrow> p \<noteq> [] \<and> q \<noteq> [] \<and> distinct p \<and> distinct q \<and>
     set (butlast q) \<inter> set p = {} \<and> set (tl p) \<inter> set q = {}"

lemma halves_frame:
  assumes h: "halves p q"
    and nx: "\<And>c. c \<noteq> n \<Longrightarrow> c \<noteq> last p \<Longrightarrow> nx' c = nx c"
    and pv: "\<And>c. c \<noteq> n \<Longrightarrow> c \<noteq> hd q \<Longrightarrow> pv' c = pv c"
    and n: "n \<notin> set p" "n \<notin> set q"
  shows "linked nx' pv' p = linked nx pv p" "linked nx' pv' q = linked nx pv q"
proof -
  have p: "p = butlast p @ [last p]" "last p \<notin> set (butlast p)" "last p \<in> set p"
    using h by (auto simp: halves_def) (metis append_butlast_last_id distinct_append
        disjoint_iff list.set_intros(1))
  have q: "q = hd q # tl q" "hd q \<notin> set (tl q)" "hd q \<in> set q"
    using h by (auto simp: halves_def) (metis distinct.simps(2) list.collapse)
  show "linked nx' pv' p = linked nx pv p"
  proof (rule linked_cong)
    fix c
    show "nx' c = nx c" if "c \<in> set (butlast p)"
      using that p n by (metis in_set_butlastD nx)
    show "pv' c = pv c" if "c \<in> set (tl p)"
      using that q n h unfolding halves_def by (metis disjoint_iff list.set_sel(2) pv)
  qed
  show "linked nx' pv' q = linked nx pv q"
  proof (rule linked_cong)
    fix c
    show "nx' c = nx c" if "c \<in> set (butlast q)"
      using that p n h unfolding halves_def by (metis disjoint_iff in_set_butlastD nx)
    show "pv' c = pv c" if "c \<in> set (tl q)"
      using that q n h by (metis halves_def list.set_sel(2) pv)
  qed
qed

lemma linked_splice:
  assumes h: "halves p q" and l: "linked nx pv (p @ q)" and n: "n \<notin> set p" "n \<notin> set q"
    and w: "nx' (last p) = n" "nx' n = hd q" "pv' n = last p" "pv' (hd q) = n"
    and nx: "\<And>c. c \<noteq> n \<Longrightarrow> c \<noteq> last p \<Longrightarrow> nx' c = nx c"
    and pv: "\<And>c. c \<noteq> n \<Longrightarrow> c \<noteq> hd q \<Longrightarrow> pv' c = pv c"
  shows "linked nx' pv' (p @ n # q)"
proof -
  have ne: "p \<noteq> []" "q \<noteq> []" using h by (simp_all add: halves_def)
  have "linked nx' pv' p" "linked nx' pv' q"
    using halves_frame [OF h nx pv n] l by (simp_all add: linked_append ne)
  then show ?thesis
    using ne w linked_append [of p "n # q"] by (cases q) auto
qed

lemma linked_unlink:
  assumes h: "halves p q" and l: "linked nx pv (p @ n # q)" and n: "n \<notin> set p" "n \<notin> set q"
    and w: "nx' (last p) = hd q" "pv' (hd q) = last p"
    and nx: "\<And>c. c \<noteq> n \<Longrightarrow> c \<noteq> last p \<Longrightarrow> nx' c = nx c"
    and pv: "\<And>c. c \<noteq> n \<Longrightarrow> c \<noteq> hd q \<Longrightarrow> pv' c = pv c"
  shows "linked nx' pv' (p @ q)"
proof -
  have ne: "p \<noteq> []" "q \<noteq> []" using h by (simp_all add: halves_def)
  have "linked nx pv p" "linked nx pv q"
    using l ne linked_append [of p "n # q" nx pv] by (cases q; auto)+
  then have "linked nx' pv' p" "linked nx' pv' q"
    using halves_frame [OF h nx pv n] by simp_all
  then show ?thesis using w by (simp add: linked_append ne)
qed


section \<open>Representation\<close>

abbreviation nx :: "('i, 'l) store \<Rightarrow> ('i, 'l) node \<Rightarrow> ('i, 'l) node" where
  "nx s \<equiv> \<lambda>c. pxNext (nodes s c)"

abbreviation pv :: "('i, 'l) store \<Rightarrow> ('i, 'l) node \<Rightarrow> ('i, 'l) node" where
  "pv s \<equiv> \<lambda>c. pxPrevious (nodes s c)"

definition front :: "'l \<Rightarrow> 'i list \<Rightarrow> ('i, 'l) node list" where
  "front l us = ListEnd l # map Item us"

definition rear :: "'l \<Rightarrow> 'i list \<Rightarrow> ('i, 'l) node list" where
  "rear l vs = map Item vs @ [ListEnd l]"

definition index_node :: "'l \<Rightarrow> 'i option \<Rightarrow> ('i, 'l) node" where
  "index_node l i = (case i of None \<Rightarrow> ListEnd l | Some i \<Rightarrow> Item i)"

definition kl_wf :: "'i klist \<Rightarrow> bool" where
  "kl_wf k \<longleftrightarrow> distinct (kitems k) \<and> (\<forall>i. kindex k = Some i \<longrightarrow> i \<in> set (kitems k))"

definition repr :: "('i, 'l) store \<Rightarrow> 'l \<Rightarrow> 'i klist \<Rightarrow> bool" where
  "repr s l k \<longleftrightarrow> kl_wf k \<and>
     linked (nx s) (pv s) (front l (kitems k) @ [ListEnd l]) \<and>
     xItemValue (nodes s (ListEnd l)) = portMAX_DELAY \<and>
     (\<forall>x \<in> set (kitems k). pxContainer (nodes s (Item x)) = Some l) \<and>
     uxNumberOfItems (lists s l) = of_nat (length (kitems k)) \<and>
     pxIndex (lists s l) = index_node l (kindex k)"

lemma front_append: "front l (us @ vs) @ [ListEnd l] = front l us @ rear l vs"
  by (simp add: front_def rear_def)

lemma front_insert: "front l (us @ x # vs) @ [ListEnd l] = front l us @ Item x # rear l vs"
  by (simp add: front_def rear_def)

lemma front_rear_simps [simp]:
  "front l us \<noteq> []" "rear l vs \<noteq> []"
  "Item x \<in> set (front l us) \<longleftrightarrow> x \<in> set us" "Item x \<in> set (rear l vs) \<longleftrightarrow> x \<in> set vs"
  by (auto simp: front_def rear_def)

lemma last_front: "last (front l us) = (if us = [] then ListEnd l else Item (last us))"
  by (simp add: front_def last_map)

lemma hd_rear: "hd (rear l vs) = (if vs = [] then ListEnd l else Item (hd vs))"
  by (simp add: rear_def hd_append hd_map)

lemma halves_ring: "distinct (us @ vs) \<Longrightarrow> halves (front l us) (rear l vs)"
  by (auto simp: halves_def front_def rear_def distinct_map inj_on_def butlast_append)

text \<open>Reading the neighbours of a cut, and of an item, off a linked ring.\<close>

lemma repr_cut:
  assumes "repr s l k" "kitems k = us @ vs"
  shows "pxNext (nodes s (last (front l us))) = hd (rear l vs)"
    "pxPrevious (nodes s (hd (rear l vs))) = last (front l us)"
  using assms by (simp_all add: repr_def front_append linked_append)

lemma repr_around:
  assumes "repr s l k" "kitems k = us @ x # vs"
  shows "pxNext (nodes s (Item x)) = hd (rear l vs)"
    "pxPrevious (nodes s (Item x)) = last (front l us)"
  using repr_cut(1) [of s l k "us @ [x]" vs] repr_cut(2) [of s l k us "x # vs"] assms
  by (simp_all add: last_front hd_rear)

text \<open>The nodes of list \<open>l\<close>: what an operation on it may write, beside the item it moves.\<close>

definition ring :: "'l \<Rightarrow> 'i klist \<Rightarrow> ('i, 'l) node set" where
  "ring l k = insert (ListEnd l) (Item ` set (kitems k))"

lemma ring_cut: "kitems k = us @ vs \<Longrightarrow> last (front l us) \<in> ring l k"
  "kitems k = us @ vs \<Longrightarrow> hd (rear l vs) \<in> ring l k"
  by (auto simp: ring_def last_front hd_rear)

lemma repr_insert:
  assumes r: "repr s l k" and split: "kitems k = us @ vs" and x: "x \<notin> set (kitems k)"
    and w: "nx s' (last (front l us)) = Item x" "nx s' (Item x) = hd (rear l vs)"
      "pv s' (Item x) = last (front l us)" "pv s' (hd (rear l vs)) = Item x"
    and frame: "\<And>c. c \<noteq> Item x \<Longrightarrow> c \<noteq> last (front l us) \<Longrightarrow> nx s' c = nx s c"
      "\<And>c. c \<noteq> Item x \<Longrightarrow> c \<noteq> hd (rear l vs) \<Longrightarrow> pv s' c = pv s c"
      "\<And>c. xItemValue (nodes s' c) = xItemValue (nodes s c)"
      "\<And>c. c \<noteq> Item x \<Longrightarrow> pxContainer (nodes s' c) = pxContainer (nodes s c)"
      "pxContainer (nodes s' (Item x)) = Some l"
      "lists s' l = (lists s l)\<lparr>uxNumberOfItems := uxNumberOfItems (lists s l) + 1\<rparr>"
  shows "repr s' l (k\<lparr>kitems := us @ x # vs\<rparr>)"
proof -
  have d: "distinct (us @ vs)" and lk: "linked (nx s) (pv s) (front l us @ rear l vs)"
    using r split by (auto simp: repr_def kl_wf_def front_append)
  have "linked (nx s') (pv s') (front l us @ Item x # rear l vs)"
    using halves_ring [OF d] lk
  proof (rule linked_splice)
    show "Item x \<notin> set (front l us)" "Item x \<notin> set (rear l vs)" using x split by auto
  qed (fact w frame)+
  moreover have "\<forall>y \<in> set (us @ x # vs). pxContainer (nodes s' (Item y)) = Some l"
  proof
    fix y assume "y \<in> set (us @ x # vs)"
    then show "pxContainer (nodes s' (Item y)) = Some l"
      using r split frame(4) [of "Item y"] frame(5) by (cases "y = x") (auto simp: repr_def)
  qed
  moreover have "kl_wf (k\<lparr>kitems := us @ x # vs\<rparr>)"
    using r d x split by (auto simp: repr_def kl_wf_def)
  ultimately show ?thesis
    using r split by (simp add: repr_def front_insert frame(3,6))
qed

lemma vListInitialise_repr: "repr (vListInitialise l s) l kl_empty"
  by (simp add: repr_def vListInitialise_def Let_def kl_empty_def kl_wf_def front_def index_node_def
      set_index_def set_number_def set_next_def set_previous_def)

lemmas store_defs = set_next_def set_previous_def set_container_def set_number_def set_index_def

text \<open>The two ends of the place where an item is spliced in, as the code computes them.\<close>

lemma repr_index:
  assumes "repr s l k"
  shows "\<exists>us vs. kl_split k = (us, vs) \<and> kitems k = us @ vs \<and> pxIndex (lists s l) = hd (rear l vs)"
proof -
  have "kitems k = fst (kl_split k) @ snd (kl_split k)"
    "pxIndex (lists s l) = hd (rear l (snd (kl_split k)))"
    using assms by (auto simp: kl_split_def repr_def kl_wf_def index_node_def hd_rear
        split: option.splits dest!: split_list_first)
  then show ?thesis by (metis prod.collapse)
qed

lemma repr_vListInsertEnd:
  assumes r: "repr s l k" and x: "x \<notin> set (kitems k)"
  shows "repr (vListInsertEnd l x s) l (kl_insert_end x k)"
proof -
  obtain us vs where sp: "kl_split k = (us, vs)" and split: "kitems k = us @ vs"
    and ix: "pxIndex (lists s l) = hd (rear l vs)"
    using repr_index [OF r] by blast
  have ne: "Item x \<noteq> hd (rear l vs)" "Item x \<noteq> last (front l us)"
    using x split by (auto simp: hd_rear last_front)
  have "repr (vListInsertEnd l x s) l (k\<lparr>kitems := us @ x # vs\<rparr>)"
    using r split x
    by (rule repr_insert) (use ne repr_cut [OF r split] in
        \<open>auto simp: vListInsertEnd_def Let_def store_defs ix\<close>)
  then show ?thesis by (simp add: kl_insert_end_def sp)
qed

lemma insert_position_cut:
  assumes r: "repr s l k" and m: "v \<noteq> portMAX_DELAY" and "kitems k = us @ ws"
  shows "insert_position s v (last (front l us)) =
     Some (last (front l (us @ takeWhile (\<lambda>y. xItemValue (nodes s (Item y)) \<le> v) ws)))"
  using assms(3)
proof (induction ws arbitrary: us)
  case Nil
  have "xItemValue (nodes s (ListEnd l)) = portMAX_DELAY" using r by (simp add: repr_def)
  moreover have "\<not> portMAX_DELAY \<le> v"
    using m by (simp add: word32_less_max_iff not_le)
  ultimately show ?case
    using repr_cut(1) [OF r Nil] by (subst insert_position.simps) (simp add: hd_rear)
next
  case (Cons y ws)
  have n: "pxNext (nodes s (last (front l us))) = Item y"
    using repr_cut(1) [OF r Cons.prems] by (simp add: hd_rear)
  have "insert_position s v (Item y) = insert_position s v (last (front l (us @ [y])))"
    by (simp add: last_front)
  then show ?case
    using Cons.IH [of "us @ [y]"] Cons.prems
    by (subst insert_position.simps) (simp add: n)
qed

lemma repr_vListInsert:
  assumes r: "repr s l k" and x: "x \<notin> set (kitems k)"
  shows "\<exists>it. vListInsert l x s = Some (insert_after l x it s) \<and>
     it \<in> ring l k \<and> nx s it \<in> ring l k \<and>
     repr (insert_after l x it s) l (kl_insert (\<lambda>y. xItemValue (nodes s (Item y))) x k)"
proof -
  define v where "v = (\<lambda>y. xItemValue (nodes s (Item y)))"
  define us vs where "us = takeWhile (\<lambda>y. v y \<le> v x) (kitems k)"
    and "vs = dropWhile (\<lambda>y. v y \<le> v x) (kitems k)"
  have split: "kitems k = us @ vs" by (simp add: us_def vs_def)
  have pos: "(if v x = portMAX_DELAY then Some (pxPrevious (nodes s (ListEnd l)))
      else insert_position s (v x) (ListEnd l)) = Some (last (front l us))"
  proof (cases "v x = portMAX_DELAY")
    case True
    then have "us = kitems k" by (simp add: us_def)
    then show ?thesis
      using True repr_cut(2) [OF r, of "kitems k" "[]"] by (simp add: hd_rear)
  next
    case False
    then show ?thesis
      using insert_position_cut [OF r False, of "[]" "kitems k"]
      by (simp add: us_def v_def front_def)
  qed
  have ne: "Item x \<noteq> hd (rear l vs)" "Item x \<noteq> last (front l us)"
    using x split by (auto simp: hd_rear last_front)
  have e: "vListInsert l x s = Some (insert_after l x (last (front l us)) s)"
    using pos unfolding vListInsert_def v_def Let_def by (simp only: option.map)
  have "repr (insert_after l x (last (front l us)) s) l (k\<lparr>kitems := us @ x # vs\<rparr>)"
    using r split x
    by (rule repr_insert) (use ne repr_cut [OF r split] in
        \<open>auto simp: insert_after_def Let_def store_defs\<close>)
  moreover have "kl_insert v x k = k\<lparr>kitems := us @ x # vs\<rparr>"
    by (simp add: kl_insert_def us_def vs_def)
  ultimately show ?thesis
    using e ring_cut [OF split, of l] repr_cut(1) [OF r split] unfolding v_def
    by (intro exI [of _ "last (front l us)"]) (simp only: simp_thms)
qed

lemma kl_remove_split:
  "distinct (us @ x # vs) \<Longrightarrow> kitems k = us @ x # vs \<Longrightarrow>
   kl_remove x k = \<lparr>kitems = us @ vs,
     kindex = (if kindex k = Some x then (if us = [] then None else Some (last us)) else kindex k)\<rparr>"
  by (cases us) (auto simp: kl_remove_def kl_prev_def remove1_append)

lemma repr_uxListRemove:
  assumes r: "repr s l k" and x: "x \<in> set (kitems k)"
  shows "\<exists>s'. uxListRemove x s = Some (of_nat (length (kitems k) - 1), s') \<and>
     repr s' l (kl_remove x k) \<and> pxContainer (nodes s' (Item x)) = None"
proof -
  obtain us vs where split: "kitems k = us @ x # vs" using x by (meson split_list)
  have d: "distinct (us @ x # vs)" using r split by (auto simp: repr_def kl_wf_def)
  have c: "pxContainer (nodes s (Item x)) = Some l" using r x by (simp add: repr_def)
  have ne: "Item x \<noteq> hd (rear l vs)" "Item x \<noteq> last (front l us)"
    using d by (auto simp: hd_rear last_front)
  note ar = repr_around [OF r split]
  obtain n s' where s': "uxListRemove x s = Some (n, s')"
    using c by (simp add: uxListRemove_def Let_def)
  have n: "n = of_nat (length (kitems k) - 1)" "uxNumberOfItems (lists s' l) = n"
    using s' c r split by (auto simp: uxListRemove_def Let_def store_defs repr_def split: if_splits)
  have fr: "\<And>c. c \<noteq> Item x \<Longrightarrow> pxContainer (nodes s' c) = pxContainer (nodes s c)"
    "pxContainer (nodes s' (Item x)) = None"
    "\<And>c. xItemValue (nodes s' c) = xItemValue (nodes s c)"
    using s' c by (auto simp: uxListRemove_def Let_def store_defs split: if_splits)
  have "linked (nx s') (pv s') (front l us @ rear l vs)"
  proof (rule linked_unlink [of "front l us" "rear l vs" "nx s" "pv s" "Item x"])
    show "halves (front l us) (rear l vs)" using d by (intro halves_ring) simp
    show "linked (nx s) (pv s) (front l us @ Item x # rear l vs)"
      using r split by (simp add: repr_def front_insert)
  qed (use s' c ar ne d in \<open>auto simp: uxListRemove_def Let_def store_defs split: if_splits\<close>)
  moreover have "pxIndex (lists s' l) = index_node l (kindex (kl_remove x k))"
    using s' c ar ne r split d
    by (auto simp: uxListRemove_def Let_def store_defs kl_remove_split [OF d split] repr_def
        index_node_def last_front split: if_splits option.splits)
  moreover have "kl_wf (kl_remove x k)"
    using r split d by (auto simp: kl_remove_split [OF d split] repr_def kl_wf_def)
  moreover have "\<forall>y \<in> set (us @ vs). pxContainer (nodes s' (Item y)) = Some l"
  proof
    fix y assume "y \<in> set (us @ vs)"
    then show "pxContainer (nodes s' (Item y)) = Some l"
      using r split d fr(1) [of "Item y"] by (auto simp: repr_def)
  qed
  ultimately have "repr s' l (kl_remove x k)"
    using r split n fr(3) [of "ListEnd l"]
    by (simp add: repr_def front_append kl_remove_split [OF d split])
  then show ?thesis using s' n(1) fr(2) by simp
qed

section \<open>Walking a list\<close>

lemma kl_round_split:
  "kl_wf k \<Longrightarrow> kindex k = Some i \<Longrightarrow> \<exists>us vs. kitems k = us @ i # vs \<and> i \<notin> set us \<and>
     kl_round k = vs @ us @ [i]"
  using split_list_first [of i "kitems k"] by (fastforce simp: kl_wf_def kl_round_def)

lemma kl_round_perm: "kl_wf k \<Longrightarrow> set (kl_round k) = set (kitems k)"
  "kl_wf k \<Longrightarrow> distinct (kl_round k)" "kl_wf k \<Longrightarrow> length (kl_round k) = length (kitems k)"
proof -
  assume wf: "kl_wf k"
  have "set (kl_round k) = set (kitems k) \<and> distinct (kl_round k) \<and>
      length (kl_round k) = length (kitems k)"
  proof (cases "kindex k")
    case None
    then show ?thesis using wf by (simp add: kl_round_def kl_wf_def)
  next
    case (Some i)
    from kl_round_split [OF wf Some] obtain us vs where
      "kitems k = us @ i # vs" "kl_round k = vs @ us @ [i]" by blast
    then show ?thesis using wf by (auto simp: kl_wf_def)
  qed
  then show "set (kl_round k) = set (kitems k)" "distinct (kl_round k)"
    "length (kl_round k) = length (kitems k)" by simp_all
qed

lemma kl_next_simps:
  assumes "kl_wf k" "kitems k \<noteq> []"
  shows "kl_wf (kl_next k)" "kindex (kl_next k) = Some (hd (kl_round k))"
    "kitems (kl_next k) = kitems k" "kl_round (kl_next k) = rotate1 (kl_round k)"
proof -
  have ne: "kl_round k \<noteq> []" using kl_round_perm(1) [OF assms(1)] assms(2) by auto
  show *: "kl_wf (kl_next k)" "kindex (kl_next k) = Some (hd (kl_round k))"
    "kitems (kl_next k) = kitems k"
    using assms kl_round_perm(1) [OF assms(1)] ne
    by (auto simp: kl_next_def kl_wf_def split: list.splits)
  show "kl_round (kl_next k) = rotate1 (kl_round k)"
  proof (cases "kindex k")
    case None
    then have "kl_round k = kitems k" by (simp add: kl_round_def)
    then show ?thesis using * assms(2) by (cases "kitems k") (auto simp: kl_round_def)
  next
    case (Some i)
    from kl_round_split [OF assms(1) this] obtain us vs where
      sp: "kitems k = us @ i # vs" "i \<notin> set us" "kl_round k = vs @ us @ [i]" by blast
    have d: "distinct (us @ i # vs)" using assms(1) sp by (simp add: kl_wf_def)
    show ?thesis
    proof (cases vs)
      case Nil
      then show ?thesis using * sp by (cases us) (auto simp: kl_round_def)
    next
      case (Cons j ws)
      then have "j \<notin> set (us @ [i])" using d by auto
      then show ?thesis
        using * sp Cons takeWhile_ne_append [of j "us @ [i]" ws] by (simp add: kl_round_def)
    qed
  qed
qed

lemma repr_next:
  assumes r: "repr s l k" and ne: "kitems k \<noteq> []"
  shows "repr (snd (listGET_OWNER_OF_NEXT_ENTRY l s)) l (kl_next k)"
    "fst (listGET_OWNER_OF_NEXT_ENTRY l s) = pvOwner (nodes s (Item (hd (kl_round k))))"
    "nodes (snd (listGET_OWNER_OF_NEXT_ENTRY l s)) = nodes s"
proof -
  have wf: "kl_wf k" using r by (simp add: repr_def)
  have h: "pxNext (nodes s (ListEnd l)) = Item (hd (kitems k))"
    using repr_cut(1) [OF r, of "[]" "kitems k"] ne by (simp add: last_front hd_rear)
  have ix: "pxIndex (lists s l) = index_node l (kindex k)" using r by (simp add: repr_def)
  have "(if pxNext (nodes s (index_node l (kindex k))) = ListEnd l then Item (hd (kitems k))
      else pxNext (nodes s (index_node l (kindex k)))) = Item (hd (kl_round k))"
  proof (cases "kindex k")
    case None
    then show ?thesis using h by (simp add: index_node_def kl_round_def)
  next
    case (Some i)
    from kl_round_split [OF wf this] obtain us vs where
      sp: "kitems k = us @ i # vs" "kl_round k = vs @ us @ [i]" by blast
    then show ?thesis
      using repr_around(1) [OF r sp(1)] Some by (cases us) (auto simp: index_node_def hd_rear)
  qed
  moreover have "listGET_OWNER_OF_NEXT_ENTRY l s =
      (let p = (if nx s (pxIndex (lists s l)) = ListEnd l then nx s (ListEnd l)
                else nx s (pxIndex (lists s l)))
       in (pvOwner (nodes s p), set_index l p s))"
    by (simp add: listGET_OWNER_OF_NEXT_ENTRY_def Let_def store_defs)
  ultimately have w: "listGET_OWNER_OF_NEXT_ENTRY l s =
      (pvOwner (nodes s (Item (hd (kl_round k)))), set_index l (Item (hd (kl_round k))) s)"
    by (simp only: h ix Let_def)
  show "fst (listGET_OWNER_OF_NEXT_ENTRY l s) = pvOwner (nodes s (Item (hd (kl_round k))))"
    "nodes (snd (listGET_OWNER_OF_NEXT_ENTRY l s)) = nodes s"
    by (simp_all add: w store_defs)
  show "repr (snd (listGET_OWNER_OF_NEXT_ENTRY l s)) l (kl_next k)"
    using r kl_next_simps [OF wf ne] by (simp add: w repr_def store_defs index_node_def)
qed

section \<open>All the lists of the kernel\<close>

text \<open>
  \<open>K\<close> gives the abstract value of every initialised list. An item is in at most one list,
  because it has one pair of links.
\<close>

definition reprs :: "('i, 'l) store \<Rightarrow> ('l \<rightharpoonup> 'i klist) \<Rightarrow> bool" where
  "reprs s K \<longleftrightarrow> (\<forall>l k. K l = Some k \<longrightarrow> repr s l k)"

definition listed :: "('l \<rightharpoonup> 'i klist) \<Rightarrow> 'i \<Rightarrow> bool" where
  "listed K x \<longleftrightarrow> (\<exists>l k. K l = Some k \<and> x \<in> set (kitems k))"

lemma repr_container: "repr s l k \<Longrightarrow> x \<in> set (kitems k) \<Longrightarrow> pxContainer (nodes s (Item x)) = Some l"
  by (simp add: repr_def)

lemma reprs_disjoint:
  "reprs s K \<Longrightarrow> K l = Some k \<Longrightarrow> K l' = Some k' \<Longrightarrow> x \<in> set (kitems k) \<Longrightarrow> x \<in> set (kitems k') \<Longrightarrow>
   l = l'"
proof -
  assume K: "reprs s K" "K l = Some k" "K l' = Some k'" and x: "x \<in> set (kitems k)" "x \<in> set (kitems k')"
  then have "repr s l k" "repr s l' k'" by (simp_all add: reprs_def)
  from this [THEN repr_container] x show "l = l'" by (metis option.inject)
qed

lemma reprsD: "reprs s K \<Longrightarrow> K l = Some k \<Longrightarrow> repr s l k"
  by (simp add: reprs_def)

lemma reprsI: "(\<And>l k. K l = Some k \<Longrightarrow> repr s l k) \<Longrightarrow> reprs s K"
  by (simp add: reprs_def)

lemma repr_other:
  assumes "repr s l k" and "\<And>c. c \<in> set (front l (kitems k)) \<Longrightarrow> nodes s' c = nodes s c"
    and "lists s' l = lists s l"
  shows "repr s' l k"
proof -
  have "linked (nx s') (pv s') (front l (kitems k) @ [ListEnd l]) =
      linked (nx s) (pv s) (front l (kitems k) @ [ListEnd l])"
    using assms(2) by (intro linked_cong) (auto simp: front_def)
  moreover have "\<forall>x \<in> set (kitems k). nodes s' (Item x) = nodes s (Item x)"
    "nodes s' (ListEnd l) = nodes s (ListEnd l)"
    using assms(2) by (auto simp: front_def)
  ultimately show ?thesis using assms(1,3) by (simp add: repr_def)
qed

lemma reprs_update:
  assumes K: "reprs s K" and r: "repr s' l k'"
    and fr: "\<And>m j c. K m = Some j \<Longrightarrow> m \<noteq> l \<Longrightarrow> c \<in> ring m j \<Longrightarrow> nodes s' c = nodes s c"
      "\<And>m. m \<noteq> l \<Longrightarrow> lists s' m = lists s m"
  shows "reprs s' (K(l \<mapsto> k'))"
proof (rule reprsI)
  fix m j assume m: "(K(l \<mapsto> k')) m = Some j"
  show "repr s' m j"
  proof (cases "m = l")
    case True
    then show ?thesis using m r by simp
  next
    case False
    then have j: "K m = Some j" using m by simp
    have "set (front m (kitems j)) = ring m j" by (simp add: front_def ring_def)
    then show ?thesis
      using fr(1) [OF j False] by (intro repr_other [OF reprsD [OF K j] _ fr(2) [OF False]]) simp
  qed
qed

lemma reprs_move:
  assumes K: "reprs s K" and l: "K l = Some k" and r: "repr s' l k'"
    and x: "\<And>m j. K m = Some j \<Longrightarrow> m \<noteq> l \<Longrightarrow> x \<notin> set (kitems j)"
    and fr: "\<And>c. c \<noteq> Item x \<Longrightarrow> c \<notin> ring l k \<Longrightarrow> nodes s' c = nodes s c"
      "\<And>m. m \<noteq> l \<Longrightarrow> lists s' m = lists s m"
  shows "reprs s' (K(l \<mapsto> k'))"
proof (rule reprs_update [OF K r])
  fix m j c assume j: "K m = Some j" and m: "m \<noteq> l" and c: "c \<in> ring m j"
  show "nodes s' c = nodes s c"
  proof (rule fr(1))
    show "c \<noteq> Item x" using c x [OF j m] by (auto simp: ring_def)
    show "c \<notin> ring l k"
      using c reprs_disjoint [OF K l j] m by (auto simp: ring_def)
  qed
qed (rule fr(2))

lemma reprs_next:
  assumes K: "reprs s K" and l: "K l = Some k" and ne: "kitems k \<noteq> []"
  shows "reprs (snd (listGET_OWNER_OF_NEXT_ENTRY l s)) (K(l \<mapsto> kl_next k))"
proof -
  note r = repr_next [OF reprsD [OF K l] ne]
  show ?thesis
    by (rule reprs_update [OF K r(1)])
      (simp_all only: r(3), simp add: listGET_OWNER_OF_NEXT_ENTRY_def Let_def store_defs)
qed

lemma reprs_init:
  assumes K: "reprs s K"
  shows "reprs (vListInitialise l s) (K(l \<mapsto> kl_empty))"
  by (rule reprs_update [OF K vListInitialise_repr])
    (auto simp: vListInitialise_def Let_def store_defs ring_def)

lemma touched_vListInsertEnd:
  "c \<notin> {Item x, pxIndex (lists s l), pv s (pxIndex (lists s l))} \<Longrightarrow>
   Item x \<noteq> pxIndex (lists s l) \<Longrightarrow> nodes (vListInsertEnd l x s) c = nodes s c"
  "m \<noteq> l \<Longrightarrow> lists (vListInsertEnd l x s) m = lists s m"
  by (simp_all add: vListInsertEnd_def Let_def store_defs)

lemma touched_insert_after:
  "c \<notin> {Item x, it, nx s it} \<Longrightarrow> nodes (insert_after l x it s) c = nodes s c"
  "m \<noteq> l \<Longrightarrow> lists (insert_after l x it s) m = lists s m"
  by (simp_all add: insert_after_def Let_def store_defs)

lemma touched_uxListRemove:
  "uxListRemove x s = Some (n, s') \<Longrightarrow> c \<notin> {Item x, nx s (Item x), pv s (Item x)} \<Longrightarrow>
   Item x \<noteq> nx s (Item x) \<Longrightarrow> nodes s' c = nodes s c"
  "uxListRemove x s = Some (n, s') \<Longrightarrow> pxContainer (nodes s (Item x)) = Some l \<Longrightarrow> m \<noteq> l \<Longrightarrow>
   lists s' m = lists s m"
  by (auto simp: uxListRemove_def Let_def store_defs split: option.splits if_splits)

lemma repr_index_ring:
  assumes r: "repr s l k"
  shows "pxIndex (lists s l) \<in> ring l k" "pv s (pxIndex (lists s l)) \<in> ring l k"
proof -
  obtain us vs where sp: "kl_split k = (us, vs)" and split: "kitems k = us @ vs"
    and ix: "pxIndex (lists s l) = hd (rear l vs)"
    using repr_index [OF r] by blast
  show "pxIndex (lists s l) \<in> ring l k" "pv s (pxIndex (lists s l)) \<in> ring l k"
    using ring_cut [OF split, of l] repr_cut(2) [OF r split] by (simp_all only: ix)
qed

lemma reprs_insert_end:
  assumes K: "reprs s K" and l: "K l = Some k" and x: "\<not> listed K x"
  shows "reprs (vListInsertEnd l x s) (K(l \<mapsto> kl_insert_end x k))"
proof -
  note r = reprsD [OF K l]
  have xk: "x \<notin> set (kitems j)" if "K m = Some j" for m j using x that by (auto simp: listed_def)
  have ne: "Item x \<noteq> pxIndex (lists s l)"
    using repr_index_ring(1) [OF r] xk [OF l] by (auto simp: ring_def)
  show ?thesis
    using K l repr_vListInsertEnd [OF r xk [OF l]] xk
    by (rule reprs_move) (use repr_index_ring [OF r] ne in
        \<open>auto intro!: touched_vListInsertEnd\<close>)
qed

lemma reprs_insert:
  assumes K: "reprs s K" and l: "K l = Some k" and x: "\<not> listed K x"
  shows "\<exists>s'. vListInsert l x s = Some s' \<and>
     reprs s' (K(l \<mapsto> kl_insert (\<lambda>y. xItemValue (nodes s (Item y))) x k))"
proof -
  note r = reprsD [OF K l]
  have xk: "x \<notin> set (kitems j)" if "K m = Some j" for m j using x that by (auto simp: listed_def)
  obtain it where i: "vListInsert l x s = Some (insert_after l x it s)"
    "it \<in> ring l k" "nx s it \<in> ring l k"
    "repr (insert_after l x it s) l (kl_insert (\<lambda>y. xItemValue (nodes s (Item y))) x k)"
    using repr_vListInsert [OF r xk [OF l]] by blast
  have "reprs (insert_after l x it s) (K(l \<mapsto> kl_insert (\<lambda>y. xItemValue (nodes s (Item y))) x k))"
    using K l i(4) xk
    by (rule reprs_move) (use i(2,3) in \<open>auto intro!: touched_insert_after\<close>)
  then show ?thesis using i(1) by blast
qed

lemma reprs_remove:
  assumes K: "reprs s K" and l: "K l = Some k" and x: "x \<in> set (kitems k)"
  shows "\<exists>s'. uxListRemove x s = Some (of_nat (length (kitems k) - 1), s') \<and>
     reprs s' (K(l \<mapsto> kl_remove x k)) \<and> \<not> listed (K(l \<mapsto> kl_remove x k)) x"
proof -
  note r = reprsD [OF K l]
  obtain s' where s': "uxListRemove x s = Some (of_nat (length (kitems k) - 1), s')"
    and r': "repr s' l (kl_remove x k)"
    using repr_uxListRemove [OF r x] by blast
  obtain us vs where split: "kitems k = us @ x # vs" using x by (meson split_list)
  have d: "distinct (us @ x # vs)" using r split by (simp add: repr_def kl_wf_def)
  have nb: "nx s (Item x) \<in> ring l k" "pv s (Item x) \<in> ring l k" "Item x \<in> ring l k"
    "Item x \<noteq> nx s (Item x)"
    using repr_around [OF r split] split d by (auto simp: ring_def last_front hd_rear)
  have other: "x \<notin> set (kitems j)" if "K m = Some j" "m \<noteq> l" for m j
    using reprs_disjoint [OF K l that(1) x] that(2) by blast
  have "reprs s' (K(l \<mapsto> kl_remove x k))"
    using K l r' other
    by (rule reprs_move) (use nb touched_uxListRemove [OF s'] repr_container [OF r x] in
        \<open>auto intro!: touched_uxListRemove(1) [OF s']\<close>)
  moreover have "\<not> listed (K(l \<mapsto> kl_remove x k)) x"
    using other d by (auto simp: listed_def kl_remove_split [OF d split] split: if_splits)
  ultimately show ?thesis using s' by blast
qed

section \<open>The interface of the lists\<close>

text \<open>
  What the scheduler relies on: a store of disjoint lists of items, each with a value.
  The client lemmas below hold of every implementation of the contract.
\<close>

locale kernel_lists =
  fixes rep :: "'s \<Rightarrow> ('l \<rightharpoonup> 'i klist) \<Rightarrow> bool"
    and val :: "'s \<Rightarrow> 'i \<Rightarrow> word32"
    and owner :: "'s \<Rightarrow> 'i \<Rightarrow> word32"
    and ins_end :: "'l \<Rightarrow> 'i \<Rightarrow> 's \<Rightarrow> 's"
    and ins :: "'l \<Rightarrow> 'i \<Rightarrow> 's \<Rightarrow> 's option"
    and rem :: "'i \<Rightarrow> 's \<Rightarrow> (word32 \<times> 's) option"
    and nxt :: "'l \<Rightarrow> 's \<Rightarrow> word32 \<times> 's"
  assumes rep_wf: "rep s K \<Longrightarrow> K l = Some k \<Longrightarrow> kl_wf k"
    and ins_end_rep: "rep s K \<Longrightarrow> K l = Some k \<Longrightarrow> \<not> listed K x \<Longrightarrow>
      rep (ins_end l x s) (K(l \<mapsto> kl_insert_end x k))"
    and ins_rep: "rep s K \<Longrightarrow> K l = Some k \<Longrightarrow> \<not> listed K x \<Longrightarrow>
      \<exists>s'. ins l x s = Some s' \<and> rep s' (K(l \<mapsto> kl_insert (val s) x k))"
    and rem_rep: "rep s K \<Longrightarrow> K l = Some k \<Longrightarrow> x \<in> set (kitems k) \<Longrightarrow>
      \<exists>s'. rem x s = Some (of_nat (length (kitems k) - 1), s') \<and>
        rep s' (K(l \<mapsto> kl_remove x k)) \<and> \<not> listed (K(l \<mapsto> kl_remove x k)) x"
    and nxt_rep: "rep s K \<Longrightarrow> K l = Some k \<Longrightarrow> kitems k \<noteq> [] \<Longrightarrow>
      rep (snd (nxt l s)) (K(l \<mapsto> kl_next k)) \<and>
      fst (nxt l s) = owner s (hd (kl_round k)) \<and> owner (snd (nxt l s)) = owner s"

text \<open>The owners that \<open>n\<close> calls of a walking operation return, and the final state.\<close>

primrec walk :: "nat \<Rightarrow> ('s \<Rightarrow> word32 \<times> 's) \<Rightarrow> 's \<Rightarrow> word32 list \<times> 's" where
  "walk 0 f s = ([], s)"
| "walk (Suc n) f s = (let (v, s') = f s; (vs, s'') = walk n f s' in (v # vs, s''))"

lemma kl_next_upd: "(K(l \<mapsto> k))(l \<mapsto> k') = K(l \<mapsto> k')"
  by simp

context kernel_lists
begin

lemma walk_prefix:
  "rep s K \<Longrightarrow> K l = Some k \<Longrightarrow> kitems k \<noteq> [] \<Longrightarrow>
   fst (walk n (nxt l) s) = map (owner s) (map (\<lambda>i. kl_round k ! (i mod length (kitems k))) [0..<n])"
proof (induction n arbitrary: s K k)
  case (Suc n)
  have wf: "kl_wf k" using rep_wf Suc.prems by blast
  note nx = nxt_rep [OF Suc.prems] and kn = kl_next_simps [OF wf Suc.prems(3)]
  have len: "length (kl_round k) = length (kitems k)" by (rule kl_round_perm(3) [OF wf])
  have "kl_round k \<noteq> []" using len Suc.prems(3) by auto
  then have hd: "hd (kl_round k) = kl_round k ! 0" by (rule hd_conv_nth)
  have "fst (walk n (nxt l) (snd (nxt l s))) = map (owner s)
      (map (\<lambda>i. rotate1 (kl_round k) ! (i mod length (kitems k))) [0..<n])"
    using Suc.IH [OF conjunct1 [OF nx], of "kl_next k"] nx Suc.prems(3) kn
    by (simp only: fun_upd_same simp_thms)
  also have "\<dots> = map (owner s) (map (\<lambda>i. kl_round k ! (Suc i mod length (kitems k))) [0..<n])"
    using Suc.prems(3) len by (simp add: nth_rotate1 mod_Suc_eq)
  finally show ?case
    using nx Suc.prems(3)
    by (simp add: Let_def split_beta upt_conv_Cons map_Suc_upt [symmetric] hd
        del: upt_Suc)
qed simp

lemma walk_round:
  assumes "rep s K" "K l = Some k" "kitems k \<noteq> []"
  shows "fst (walk (length (kitems k)) (nxt l) s) = map (owner s) (kl_round k)"
proof -
  have "length (kl_round k) = length (kitems k)"
    by (rule kl_round_perm(3) [OF rep_wf [OF assms(1,2)]])
  then have "map (\<lambda>i. kl_round k ! (i mod length (kitems k))) [0..<length (kitems k)] = kl_round k"
    by (intro nth_equalityI) simp_all
  then show ?thesis by (simp only: walk_prefix [OF assms])
qed

lemma move_end:
  assumes K: "rep s K" and l: "K l = Some k" "x \<in> set (kitems k)" and m: "K m = Some j" "m \<noteq> l"
  shows "\<exists>n s'. rem x s = Some (n, s') \<and>
    rep (ins_end m x s') (K(l \<mapsto> kl_remove x k, m \<mapsto> kl_insert_end x j))"
proof -
  obtain s' where s': "rem x s = Some (of_nat (length (kitems k) - 1), s')"
    "rep s' (K(l \<mapsto> kl_remove x k))" "\<not> listed (K(l \<mapsto> kl_remove x k)) x"
    using rem_rep [OF K l] by blast
  then show ?thesis
    using ins_end_rep [OF s'(2) _ s'(3), of m j] m by auto
qed

end

interpretation kl: kernel_lists reprs "\<lambda>s x. xItemValue (nodes s (Item x))"
  "\<lambda>s x. pvOwner (nodes s (Item x))" vListInsertEnd vListInsert uxListRemove
  listGET_OWNER_OF_NEXT_ENTRY
proof
  show "kl_wf k" if "reprs s K" "K l = Some k" for s :: "('a, 'b) store" and K l k
    using reprsD [OF that] by (simp add: repr_def)
next
  fix s :: "('a, 'b) store" and K l k
  assume K: "reprs s K" "K l = Some k" "kitems k \<noteq> []"
  show "reprs (snd (listGET_OWNER_OF_NEXT_ENTRY l s)) (K(l \<mapsto> kl_next k)) \<and>
    fst (listGET_OWNER_OF_NEXT_ENTRY l s) = pvOwner (nodes s (Item (hd (kl_round k)))) \<and>
    (\<lambda>x. pvOwner (nodes (snd (listGET_OWNER_OF_NEXT_ENTRY l s)) (Item x))) =
    (\<lambda>x. pvOwner (nodes s (Item x)))"
    using reprs_next [OF K] repr_next [OF reprsD [OF K(1,2)] K(3)] by simp
qed (fact reprs_insert_end reprs_insert reprs_remove)+

section \<open>Properties of the list operations\<close>

lemma takeWhile_sorted:
  "sorted (map v xs) \<Longrightarrow> takeWhile (\<lambda>y. v y \<le> c) xs = filter (\<lambda>y. v y \<le> c) xs \<and>
   dropWhile (\<lambda>y. v y \<le> c) xs = filter (\<lambda>y. c < v y) xs" for c :: word32
proof (induction xs)
  case (Cons a xs)
  then show ?case
  proof (cases "v a \<le> c")
    case False
    then have "\<forall>y \<in> set xs. c < v y" using Cons.prems by force
    then have "filter (\<lambda>y. v y \<le> c) xs = []" "filter (\<lambda>y. c < v y) xs = xs"
      by (auto simp: filter_empty_conv not_le)
    moreover have "c < v a" using False by simp
    ultimately show ?thesis using False by simp
  qed (auto simp: not_less)
qed simp

lemma kl_round_insert_end:
  assumes wf: "kl_wf k" and x: "x \<notin> set (kitems k)"
  shows "kl_round (kl_insert_end x k) =
    (case kindex k of None \<Rightarrow> kl_round k @ [x] | Some i \<Rightarrow> butlast (kl_round k) @ [x, i])"
proof (cases "kindex k")
  case None
  then show ?thesis by (simp add: kl_round_def kl_insert_end_def kl_split_def)
next
  case (Some i)
  from kl_round_split [OF wf Some] obtain us vs where
    sp: "kitems k = us @ i # vs" "i \<notin> set us" "kl_round k = vs @ us @ [i]" by blast
  have "i \<notin> set (us @ [x])" using sp x by auto
  then show ?thesis
    using Some sp takeWhile_ne_append [of i "us @ [x]" vs]
    by (simp add: kl_round_def kl_insert_end_def kl_split_def butlast_append)
qed

lemma kl_round_remove:
  assumes wf: "kl_wf k" and x: "x \<in> set (kitems k)"
  shows "kl_round (kl_remove x k) = remove1 x (kl_round k)"
proof (cases "kindex k")
  case None
  then show ?thesis by (simp add: kl_round_def kl_remove_def)
next
  case (Some i)
  from kl_round_split [OF wf Some] obtain us vs where
    sp: "kitems k = us @ i # vs" "i \<notin> set us" "kl_round k = vs @ us @ [i]" by blast
  have d: "distinct (us @ i # vs)" using wf sp by (simp add: kl_wf_def)
  show ?thesis
  proof (cases "x = i")
    case True
    have k': "kl_remove x k = \<lparr>kitems = us @ vs, kindex = (if us = [] then None else Some (last us))\<rparr>"
      using kl_remove_split [of us x vs k] d sp Some True by simp
    show ?thesis
    proof (cases us rule: rev_cases)
      case Nil
      then show ?thesis using k' sp True d by (simp add: kl_round_def remove1_append)
    next
      case (snoc ws p)
      then show ?thesis
        using k' sp True d takeWhile_ne_append [of p ws vs]
        by (simp add: kl_round_def remove1_append)
    qed
  next
    case False
    then have k': "kl_remove x k = \<lparr>kitems = remove1 x us @ i # remove1 x vs, kindex = Some i\<rparr>"
      using d sp Some x by (cases "x \<in> set vs") (auto simp: kl_remove_def remove1_append remove1_idem)
    have "i \<notin> set (remove1 x us)" using sp(2) by (meson notin_set_remove1)
    then show ?thesis
      using k' sp d False x by (auto simp: kl_round_def remove1_append remove1_idem)
  qed
qed

lemma kl_insert_items:
  "length (kitems (kl_insert v x k)) = Suc (length (kitems k))" "x \<in> set (kitems (kl_insert v x k))"
  "length (kitems (kl_insert_end x k)) = Suc (length (kitems k))" "x \<in> set (kitems (kl_insert_end x k))"
proof -
  have t: "length (takeWhile P xs) + length (dropWhile P xs) = length xs" for P and xs :: "'x list"
    by (metis length_append takeWhile_dropWhile_id)
  show "length (kitems (kl_insert v x k)) = Suc (length (kitems k))"
    "length (kitems (kl_insert_end x k)) = Suc (length (kitems k))"
    by (simp_all add: kl_insert_def kl_insert_end_def kl_split_def t split: option.splits)
qed (simp_all add: kl_insert_def kl_insert_end_def)

lemma kl_remove_insert:
  assumes wf: "kl_wf k" and x: "x \<notin> set (kitems k)"
  shows "kl_remove x (kl_insert_end x k) = k" "kl_remove x (kl_insert v x k) = k"
proof -
  have ix: "kindex k \<noteq> Some x" using wf x by (auto simp: kl_wf_def)
  have *: "kl_remove x (k\<lparr>kitems := us @ x # vs\<rparr>) = k" if "kitems k = us @ vs" for us vs
  proof -
    have "distinct (us @ x # vs)" using wf x that by (auto simp: kl_wf_def)
    from kl_remove_split [OF this, of "k\<lparr>kitems := us @ x # vs\<rparr>"] show ?thesis
      using that ix by simp
  qed
  show "kl_remove x (kl_insert_end x k) = k"
    unfolding kl_insert_end_def by (rule *) (simp add: kl_split_def split: option.splits)
  show "kl_remove x (kl_insert v x k) = k"
    unfolding kl_insert_def by (rule *) simp
qed

section \<open>Concrete lists\<close>

text \<open>A store whose items carry their number as value and owner, with one list \<open>[3, 7]\<close>.\<close>

definition fresh_store :: "(nat, unit) store" where
  "fresh_store = \<lparr>nodes = (\<lambda>c. \<lparr>xItemValue = (case c of Item n \<Rightarrow> of_nat n | ListEnd _ \<Rightarrow> 0),
      pxNext = c, pxPrevious = c, pvOwner = (case c of Item n \<Rightarrow> of_nat n | ListEnd _ \<Rightarrow> 0),
      pxContainer = None\<rparr>), lists = (\<lambda>l. \<lparr>uxNumberOfItems = 0, pxIndex = ListEnd l\<rparr>)\<rparr>"

definition list_3_7 :: "(nat, unit) store" where
  "list_3_7 = vListInsertEnd () 7 (vListInsertEnd () 3 (vListInitialise () fresh_store))"

lemma list_3_7_repr: "reprs list_3_7 [() \<mapsto> \<lparr>kitems = [3, 7], kindex = None\<rparr>]"
proof -
  have "reprs (vListInitialise () fresh_store) [() \<mapsto> kl_empty]"
    using reprs_init [of fresh_store Map.empty] by (simp add: reprs_def)
  from reprs_insert_end [OF this, of "()" kl_empty 3] have
    "reprs (vListInsertEnd () 3 (vListInitialise () fresh_store)) [() \<mapsto> \<lparr>kitems = [3], kindex = None\<rparr>]"
    by (simp add: listed_def kl_empty_def kl_insert_end_def kl_split_def)
  from reprs_insert_end [OF this, of "()" "\<lparr>kitems = [3], kindex = None\<rparr>" 7] show ?thesis
    by (simp add: listed_def list_3_7_def kl_insert_end_def kl_split_def)
qed

section \<open>The claims\<close>

text \<open>
  C11. vListInsert always returns, and on a list sorted by item value it leaves exactly the
  sorted list with the new item placed after every item of the same value; all other lists
  of the kernel are unchanged.
\<close>

theorem list_insert_sorted:
  assumes "reprs s K" "K l = Some k" "\<not> listed K x"
    and "v = (\<lambda>y. xItemValue (nodes s (Item y)))" and "sorted (map v (kitems k))"
  shows "\<exists>s'. vListInsert l x s = Some s' \<and> reprs s' (K(l \<mapsto> k\<lparr>kitems :=
    filter (\<lambda>y. v y \<le> v x) (kitems k) @ x # filter (\<lambda>y. v x < v y) (kitems k)\<rparr>))"
  using reprs_insert [OF assms(1-3)] takeWhile_sorted [OF assms(5), of "v x"] assms(4)
  by (simp add: kl_insert_def)

theorem list_insert_sorted_witness:
  "\<exists>s'. vListInsert () 5 list_3_7 = Some s' \<and>
     reprs s' [() \<mapsto> \<lparr>kitems = [3, 5, 7], kindex = None\<rparr>]"
proof -
  define v where "v = (\<lambda>y. xItemValue (nodes list_3_7 (Item y)))"
  have "v 3 = 3" "v 5 = 5" "v 7 = 7"
    unfolding v_def by code_simp+
  then show ?thesis
    using list_insert_sorted [OF list_3_7_repr, of "()" "\<lparr>kitems = [3, 7], kindex = None\<rparr>" 5 v]
    by (simp add: v_def [symmetric] listed_def)
qed

text \<open>
  vListInsertEnd makes the new item the last one a walk from the index meets, before
  the item the index is at.
\<close>

lemma list_insert_end_last:
  assumes "reprs s K" "K l = Some k" "\<not> listed K x"
  shows "\<exists>k'. reprs (vListInsertEnd l x s) (K(l \<mapsto> k')) \<and> kindex k' = kindex k \<and>
    kl_round k' = (case kindex k of None \<Rightarrow> kl_round k @ [x] | Some i \<Rightarrow> butlast (kl_round k) @ [x, i])"
proof -
  have "x \<notin> set (kitems k)" using assms by (auto simp: listed_def)
  then show ?thesis
    using kl.ins_end_rep [OF assms] kl_round_insert_end [OF kl.rep_wf [OF assms(1,2)]]
    by (intro exI [of _ "kl_insert_end x k"]) (simp add: kl_insert_end_def)
qed

text \<open>
  C23. uxListRemove returns the number of items left, takes the item out of its list, and
  keeps the order in which a walk from the index meets the other items, also when the index
  was at the removed item.
\<close>

theorem list_remove_keeps_round:
  assumes "reprs s K" "K l = Some k" "x \<in> set (kitems k)"
  shows "\<exists>s' k'. uxListRemove x s = Some (of_nat (length (kitems k) - 1), s') \<and>
    reprs s' (K(l \<mapsto> k')) \<and> kl_round k' = remove1 x (kl_round k) \<and>
    pxContainer (nodes s' (Item x)) = None"
proof -
  obtain s' where "uxListRemove x s = Some (of_nat (length (kitems k) - 1), s')"
    "reprs s' (K(l \<mapsto> kl_remove x k))"
    using kl.rem_rep [OF assms] by blast
  moreover from this have "pxContainer (nodes s' (Item x)) = None"
    using repr_uxListRemove [OF reprsD [OF assms(1,2)] assms(3)] by auto
  ultimately show ?thesis
    using kl_round_remove [OF kl.rep_wf [OF assms(1,2)] assms(3)] by blast
qed

theorem list_remove_keeps_round_witness:
  "\<exists>s' k'. uxListRemove 3 list_3_7 = Some (1, s') \<and> reprs s' [() \<mapsto> k'] \<and> kl_round k' = [7]"
  using list_remove_keeps_round [OF list_3_7_repr, of "()" "\<lparr>kitems = [3, 7], kindex = None\<rparr>" 3]
  by (auto simp: kl_round_def)

text \<open>
  C24. As many calls of listGET_OWNER_OF_NEXT_ENTRY as the list has items return the owner
  of every item exactly once, in list order from the index.
\<close>

theorem list_walk_fair:
  assumes "reprs s K" "K l = Some k" "kitems k \<noteq> []"
  shows "fst (walk (length (kitems k)) (listGET_OWNER_OF_NEXT_ENTRY l) s) =
      map (\<lambda>x. pvOwner (nodes s (Item x))) (kl_round k) \<and>
    distinct (kl_round k) \<and> set (kl_round k) = set (kitems k)"
  using kl.walk_round [OF assms] kl_round_perm [OF kl.rep_wf [OF assms(1,2)]] by blast

theorem list_walk_fair_witness:
  "fst (walk 2 (listGET_OWNER_OF_NEXT_ENTRY ()) list_3_7) = [3, 7]"
proof -
  have "pvOwner (nodes list_3_7 (Item 3)) = 3" "pvOwner (nodes list_3_7 (Item 7)) = 7"
    by code_simp+
  then show ?thesis
    using list_walk_fair [OF list_3_7_repr, of "()" "\<lparr>kitems = [3, 7], kindex = None\<rparr>"]
    by (simp add: kl_round_def numeral_2_eq_2 del: walk.simps)
qed

text \<open>
  C25. Removing an item that was just inserted, by vListInsert or by vListInsertEnd, gives
  back the lists as they were and returns the old length.
\<close>

theorem list_insert_remove_roundtrip:
  assumes "reprs s K" "K l = Some k" "\<not> listed K x"
  shows "\<exists>s1 s2 s3. vListInsert l x s = Some s1 \<and>
    uxListRemove x s1 = Some (of_nat (length (kitems k)), s2) \<and> reprs s2 K \<and>
    uxListRemove x (vListInsertEnd l x s) = Some (of_nat (length (kitems k)), s3) \<and> reprs s3 K"
proof -
  let ?v = "\<lambda>y. xItemValue (nodes s (Item y))"
  have wf: "kl_wf k" by (rule kl.rep_wf [OF assms(1,2)])
  have x: "x \<notin> set (kitems k)" using assms by (auto simp: listed_def)
  have id: "K(l \<mapsto> k) = K" using assms(2) by (simp add: fun_upd_idem)
  obtain s1 where s1: "vListInsert l x s = Some s1" "reprs s1 (K(l \<mapsto> kl_insert ?v x k))"
    using kl.ins_rep [OF assms] by blast
  obtain s2 where s2: "uxListRemove x s1 = Some (of_nat (length (kitems k)), s2)" "reprs s2 K"
    using kl.rem_rep [OF s1(2), of l "kl_insert ?v x k" x]
    by (auto simp: kl_remove_insert [OF wf x] kl_insert_items id)
  obtain s3 where
    "uxListRemove x (vListInsertEnd l x s) = Some (of_nat (length (kitems k)), s3)" "reprs s3 K"
    using kl.rem_rep [OF kl.ins_end_rep [OF assms], of l "kl_insert_end x k" x]
    by (auto simp: kl_remove_insert [OF wf x] kl_insert_items id)
  with s1 s2 show ?thesis by blast
qed

theorem list_insert_remove_roundtrip_witness:
  "\<exists>s3. uxListRemove 5 (vListInsertEnd () 5 list_3_7) = Some (2, s3) \<and>
     reprs s3 [() \<mapsto> \<lparr>kitems = [3, 7], kindex = None\<rparr>]"
  using list_insert_remove_roundtrip [OF list_3_7_repr, of "()" "\<lparr>kitems = [3, 7], kindex = None\<rparr>" 5]
  by (auto simp: listed_def)

end
