(* ===== verification/Heap_4.thy ===== *)
theory Heap_4
  imports Prelude
begin

text \<open>
  The coalescing allocator \<^verbatim>\<open>portable/MemMang/heap_4.c\<close> on the RV32 port
  (\<^verbatim>\<open>portBYTE_ALIGNMENT\<close> is 16, \<^verbatim>\<open>size_t\<close> and pointers are 32 bits). The block headers are
  kept in a memory indexed by address, the address of the static \<^verbatim>\<open>xStart\<close> and of the
  array \<^verbatim>\<open>ucHeap\<close> are parameters, and every arithmetic operation is that of 32-bit words.
  An assertion that fails stops the system: the operation then has no result.
\<close>

section \<open>State\<close>

record BlockLink_t =
  pxNextFreeBlock :: word32
  xBlockSize :: word32

record heap_cfg =
  ucHeap :: word32
  configTOTAL_HEAP_SIZE :: word32
  xStart :: word32

record heap =
  blk :: "word32 \<Rightarrow> BlockLink_t"
  bytes :: "word32 \<Rightarrow> byte"
  pxEnd :: word32
  xFreeBytesRemaining :: word32
  xMinimumEverFreeBytesRemaining :: word32
  xNumberOfSuccessfulAllocations :: word32
  xNumberOfSuccessfulFrees :: word32

abbreviation portBYTE_ALIGNMENT :: word32 where "portBYTE_ALIGNMENT \<equiv> 16"
abbreviation portBYTE_ALIGNMENT_MASK :: word32 where "portBYTE_ALIGNMENT_MASK \<equiv> 0xF"

definition xHeapStructSize :: word32 where
  "xHeapStructSize = (8 + (portBYTE_ALIGNMENT - 1)) AND NOT portBYTE_ALIGNMENT_MASK"

definition heapMINIMUM_BLOCK_SIZE :: word32 where
  "heapMINIMUM_BLOCK_SIZE = push_bit 1 xHeapStructSize"

definition heapBLOCK_ALLOCATED_BITMASK :: word32 where
  "heapBLOCK_ALLOCATED_BITMASK = push_bit 31 1"

definition heapADD_WILL_OVERFLOW :: "word32 \<Rightarrow> word32 \<Rightarrow> bool" where
  "heapADD_WILL_OVERFLOW a b \<longleftrightarrow> a > NOT 0 - b"

definition heapMULTIPLY_WILL_OVERFLOW :: "word32 \<Rightarrow> word32 \<Rightarrow> bool" where
  "heapMULTIPLY_WILL_OVERFLOW a b \<longleftrightarrow> a > 0 \<and> b > NOT 0 div a"

definition heapBLOCK_SIZE_IS_VALID :: "word32 \<Rightarrow> bool" where
  "heapBLOCK_SIZE_IS_VALID n \<longleftrightarrow> n AND heapBLOCK_ALLOCATED_BITMASK = 0"

definition heapBLOCK_IS_ALLOCATED :: "BlockLink_t \<Rightarrow> bool" where
  "heapBLOCK_IS_ALLOCATED b \<longleftrightarrow> xBlockSize b AND heapBLOCK_ALLOCATED_BITMASK \<noteq> 0"

definition heapVALIDATE_BLOCK_POINTER :: "heap_cfg \<Rightarrow> word32 \<Rightarrow> bool" where
  "heapVALIDATE_BLOCK_POINTER c p \<longleftrightarrow> ucHeap c \<le> p \<and> p \<le> ucHeap c + (configTOTAL_HEAP_SIZE c - 1)"

definition set_size :: "word32 \<Rightarrow> word32 \<Rightarrow> heap \<Rightarrow> heap" where
  "set_size p n h = h\<lparr>blk := (blk h)(p := (blk h p)\<lparr>xBlockSize := n\<rparr>)\<rparr>"

definition set_next_free :: "word32 \<Rightarrow> word32 \<Rightarrow> heap \<Rightarrow> heap" where
  "set_next_free p q h = h\<lparr>blk := (blk h)(p := (blk h p)\<lparr>pxNextFreeBlock := q\<rparr>)\<rparr>"

section \<open>Operations\<close>

definition prvHeapInit :: "heap_cfg \<Rightarrow> heap \<Rightarrow> heap" where
  "prvHeapInit c h =
     (let a = ucHeap c;
          uxStartAddress = (if a AND portBYTE_ALIGNMENT_MASK \<noteq> 0
            then (a + (portBYTE_ALIGNMENT - 1)) AND NOT portBYTE_ALIGNMENT_MASK else a);
          xTotalHeapSize = (if a AND portBYTE_ALIGNMENT_MASK \<noteq> 0
            then configTOTAL_HEAP_SIZE c - (uxStartAddress - a) else configTOTAL_HEAP_SIZE c);
          h = set_next_free (xStart c) uxStartAddress h;
          h = set_size (xStart c) 0 h;
          uxEndAddress = (uxStartAddress + xTotalHeapSize - xHeapStructSize) AND
            NOT portBYTE_ALIGNMENT_MASK;
          h = h\<lparr>pxEnd := uxEndAddress\<rparr>;
          h = set_size (pxEnd h) 0 h;
          h = set_next_free (pxEnd h) 0 h;
          h = set_size uxStartAddress (uxEndAddress - uxStartAddress) h;
          h = set_next_free uxStartAddress (pxEnd h) h
      in h\<lparr>xMinimumEverFreeBytesRemaining := xBlockSize (blk h uxStartAddress),
           xFreeBytesRemaining := xBlockSize (blk h uxStartAddress)\<rparr>)"

definition wanted_size :: "word32 \<Rightarrow> word32" where
  "wanted_size xWantedSize =
     (if xWantedSize > 0 then
        if \<not> heapADD_WILL_OVERFLOW xWantedSize xHeapStructSize then
          let w = xWantedSize + xHeapStructSize
          in if w AND portBYTE_ALIGNMENT_MASK \<noteq> 0 then
               let more = portBYTE_ALIGNMENT - (w AND portBYTE_ALIGNMENT_MASK)
               in if \<not> heapADD_WILL_OVERFLOW w more then w + more else 0
             else w
        else 0
      else xWantedSize)"

partial_function (option) find_block ::
  "heap_cfg \<Rightarrow> heap \<Rightarrow> word32 \<Rightarrow> word32 \<Rightarrow> word32 \<Rightarrow> (word32 \<times> word32) option" where
  "find_block c h w pxPreviousBlock pxBlock =
     (if \<not> heapVALIDATE_BLOCK_POINTER c pxBlock then None
      else if xBlockSize (blk h pxBlock) < w \<and> pxNextFreeBlock (blk h pxBlock) \<noteq> 0
      then find_block c h w pxBlock (pxNextFreeBlock (blk h pxBlock))
      else Some (pxPreviousBlock, pxBlock))"

text \<open>
  Taking the block out of the free list and splitting it; the assertions are that the block
  is large enough and that the remainder is aligned.
\<close>

definition take_block :: "word32 \<Rightarrow> word32 \<Rightarrow> word32 \<Rightarrow> heap \<Rightarrow> heap option" where
  "take_block w pxPreviousBlock pxBlock h =
     (let h = set_next_free pxPreviousBlock (pxNextFreeBlock (blk h pxBlock)) h
      in if xBlockSize (blk h pxBlock) < w then None
         else
           let split = xBlockSize (blk h pxBlock) - w > heapMINIMUM_BLOCK_SIZE;
               pxNewBlockLink = pxBlock + w
           in if split \<and> pxNewBlockLink AND portBYTE_ALIGNMENT_MASK \<noteq> 0 then None
              else
                let h = (if split then
                           let h = set_size pxNewBlockLink (xBlockSize (blk h pxBlock) - w) h;
                               h = set_size pxBlock w h;
                               h = set_next_free pxNewBlockLink
                                     (pxNextFreeBlock (blk h pxPreviousBlock)) h
                           in set_next_free pxPreviousBlock pxNewBlockLink h
                         else h);
                    h = h\<lparr>xFreeBytesRemaining := xFreeBytesRemaining h - xBlockSize (blk h pxBlock)\<rparr>;
                    h = (if xFreeBytesRemaining h < xMinimumEverFreeBytesRemaining h
                         then h\<lparr>xMinimumEverFreeBytesRemaining := xFreeBytesRemaining h\<rparr> else h);
                    h = set_size pxBlock
                          (xBlockSize (blk h pxBlock) OR heapBLOCK_ALLOCATED_BITMASK) h;
                    h = set_next_free pxBlock 0 h
                in Some (h\<lparr>xNumberOfSuccessfulAllocations := xNumberOfSuccessfulAllocations h + 1\<rparr>))"

definition pvPortMalloc :: "heap_cfg \<Rightarrow> word32 \<Rightarrow> heap \<Rightarrow> (word32 \<times> heap) option" where
  "pvPortMalloc c xWantedSize h =
     (let w = wanted_size xWantedSize;
          h = (if pxEnd h = 0 then prvHeapInit c h else h)
      in if heapBLOCK_SIZE_IS_VALID w \<and> w > 0 \<and> w \<le> xFreeBytesRemaining h then
           case find_block c h w (xStart c) (pxNextFreeBlock (blk h (xStart c))) of
             None \<Rightarrow> None
           | Some (pxPreviousBlock, pxBlock) \<Rightarrow>
               if pxBlock \<noteq> pxEnd h then
                 let pvReturn = pxNextFreeBlock (blk h pxPreviousBlock) + xHeapStructSize
                 in if \<not> heapVALIDATE_BLOCK_POINTER c pvReturn then None
                    else case take_block w pxPreviousBlock pxBlock h of
                           None \<Rightarrow> None
                         | Some h' \<Rightarrow>
                             if pvReturn AND portBYTE_ALIGNMENT_MASK \<noteq> 0 then None
                             else Some (pvReturn, h')
               else Some (0, h)
         else Some (0, h))"

partial_function (option) insert_place :: "heap \<Rightarrow> word32 \<Rightarrow> word32 \<Rightarrow> word32 option" where
  "insert_place h pxBlockToInsert pxIterator =
     (if pxNextFreeBlock (blk h pxIterator) < pxBlockToInsert
      then insert_place h pxBlockToInsert (pxNextFreeBlock (blk h pxIterator))
      else Some pxIterator)"

definition insert_at :: "word32 \<Rightarrow> word32 \<Rightarrow> heap \<Rightarrow> heap" where
  "insert_at pxIterator b h =
     (let (b, h) = (if pxIterator + xBlockSize (blk h pxIterator) = b
            then (pxIterator,
                  set_size pxIterator (xBlockSize (blk h pxIterator) + xBlockSize (blk h b)) h)
            else (b, h));
          nxt = pxNextFreeBlock (blk h pxIterator);
          h = (if b + xBlockSize (blk h b) = nxt then
                 if nxt \<noteq> pxEnd h then
                   let h = set_size b (xBlockSize (blk h b) + xBlockSize (blk h nxt)) h
                   in set_next_free b
                        (pxNextFreeBlock (blk h (pxNextFreeBlock (blk h pxIterator)))) h
                 else set_next_free b (pxEnd h) h
               else set_next_free b nxt h)
      in if pxIterator \<noteq> b then set_next_free pxIterator b h else h)"

definition prvInsertBlockIntoFreeList :: "heap_cfg \<Rightarrow> word32 \<Rightarrow> heap \<Rightarrow> heap option" where
  "prvInsertBlockIntoFreeList c b h =
     (case insert_place h b (xStart c) of None \<Rightarrow> None
      | Some pxIterator \<Rightarrow>
          if pxIterator \<noteq> xStart c \<and> \<not> heapVALIDATE_BLOCK_POINTER c pxIterator then None
          else Some (insert_at pxIterator b h))"

definition vPortFree :: "heap_cfg \<Rightarrow> word32 \<Rightarrow> heap \<Rightarrow> heap option" where
  "vPortFree c pv h =
     (if pv \<noteq> 0 then
        let pxLink = pv - xHeapStructSize
        in if \<not> heapVALIDATE_BLOCK_POINTER c pxLink \<or>
              \<not> heapBLOCK_IS_ALLOCATED (blk h pxLink) \<or>
              pxNextFreeBlock (blk h pxLink) \<noteq> 0 then None
           else
             let h = set_size pxLink
                       (xBlockSize (blk h pxLink) AND NOT heapBLOCK_ALLOCATED_BITMASK) h;
                 h = h\<lparr>xFreeBytesRemaining := xFreeBytesRemaining h + xBlockSize (blk h pxLink)\<rparr>
             in case prvInsertBlockIntoFreeList c pxLink h of None \<Rightarrow> None
                | Some h \<Rightarrow>
                    Some (h\<lparr>xNumberOfSuccessfulFrees := xNumberOfSuccessfulFrees h + 1\<rparr>)
      else Some h)"

definition xPortGetFreeHeapSize :: "heap \<Rightarrow> word32" where
  "xPortGetFreeHeapSize h = xFreeBytesRemaining h"

definition xPortGetMinimumEverFreeHeapSize :: "heap \<Rightarrow> word32" where
  "xPortGetMinimumEverFreeHeapSize h = xMinimumEverFreeBytesRemaining h"

definition xPortResetHeapMinimumEverFreeHeapSize :: "heap \<Rightarrow> heap" where
  "xPortResetHeapMinimumEverFreeHeapSize h =
     h\<lparr>xMinimumEverFreeBytesRemaining := xFreeBytesRemaining h\<rparr>"

definition pvPortCalloc :: "heap_cfg \<Rightarrow> word32 \<Rightarrow> word32 \<Rightarrow> heap \<Rightarrow> (word32 \<times> heap) option" where
  "pvPortCalloc c xNum xSize h =
     (if \<not> heapMULTIPLY_WILL_OVERFLOW xNum xSize then
        case pvPortMalloc c (xNum * xSize) h of None \<Rightarrow> None
        | Some (pv, h) \<Rightarrow>
            if pv \<noteq> 0
            then Some (pv, h\<lparr>bytes := (\<lambda>a. if a - pv < xNum * xSize then 0 else bytes h a)\<rparr>)
            else Some (pv, h)
      else Some (0, h))"

record HeapStats_t =
  xAvailableHeapSpaceInBytes :: word32
  xSizeOfLargestFreeBlockInBytes :: word32
  xSizeOfSmallestFreeBlockInBytes :: word32
  xNumberOfFreeBlocks :: word32
  xMinimumEverFreeBytesRemaining_stat :: word32
  xNumberOfSuccessfulAllocations_stat :: word32
  xNumberOfSuccessfulFrees_stat :: word32

partial_function (option) stats_loop ::
  "heap \<Rightarrow> word32 \<Rightarrow> word32 \<times> word32 \<times> word32 \<Rightarrow> (word32 \<times> word32 \<times> word32) option" where
  "stats_loop h pxBlock acc =
     (if pxBlock \<noteq> pxEnd h then
        case acc of (xBlocks, xMaxSize, xMinSize) \<Rightarrow>
          let n = xBlockSize (blk h pxBlock)
          in stats_loop h (pxNextFreeBlock (blk h pxBlock))
               (xBlocks + 1, if n > xMaxSize then n else xMaxSize,
                if n < xMinSize then n else xMinSize)
      else Some acc)"

definition vPortGetHeapStats :: "heap_cfg \<Rightarrow> heap \<Rightarrow> HeapStats_t option" where
  "vPortGetHeapStats c h =
     (let pxBlock = pxNextFreeBlock (blk h (xStart c))
      in case (if pxBlock \<noteq> 0 then stats_loop h pxBlock (0, 0, NOT 0) else Some (0, 0, NOT 0)) of
           None \<Rightarrow> None
         | Some (xBlocks, xMaxSize, xMinSize) \<Rightarrow>
             Some \<lparr>xAvailableHeapSpaceInBytes = xFreeBytesRemaining h,
                   xSizeOfLargestFreeBlockInBytes = xMaxSize,
                   xSizeOfSmallestFreeBlockInBytes = xMinSize,
                   xNumberOfFreeBlocks = xBlocks,
                   xMinimumEverFreeBytesRemaining_stat = xMinimumEverFreeBytesRemaining h,
                   xNumberOfSuccessfulAllocations_stat = xNumberOfSuccessfulAllocations h,
                   xNumberOfSuccessfulFrees_stat = xNumberOfSuccessfulFrees h\<rparr>)"

definition vPortHeapResetState :: "heap \<Rightarrow> heap" where
  "vPortHeapResetState h =
     h\<lparr>pxEnd := 0, xFreeBytesRemaining := 0, xMinimumEverFreeBytesRemaining := 0,
       xNumberOfSuccessfulAllocations := 0, xNumberOfSuccessfulFrees := 0\<rparr>"

section \<open>The layout of the heap\<close>

text \<open>
  The heap is a row of blocks, each with its address, its size and whether it is allocated,
  that fills the space from the aligned start to \<^verbatim>\<open>pxEnd\<close>.
\<close>

type_synonym block = "word32 \<times> word32 \<times> bool"

definition heap_start :: "heap_cfg \<Rightarrow> word32" where
  "heap_start c = (if ucHeap c AND portBYTE_ALIGNMENT_MASK \<noteq> 0
     then (ucHeap c + (portBYTE_ALIGNMENT - 1)) AND NOT portBYTE_ALIGNMENT_MASK else ucHeap c)"

fun layout :: "word32 \<Rightarrow> block list \<Rightarrow> word32 \<Rightarrow> bool" where
  "layout a [] e \<longleftrightarrow> a = e"
| "layout a ((p, n, f) # bs) e \<longleftrightarrow> p = a \<and> a < a + n \<and> layout (a + n) bs e"

definition free_blocks :: "block list \<Rightarrow> block list" where
  "free_blocks bs = filter (\<lambda>(p, n, f). \<not> f) bs"

definition frees :: "block list \<Rightarrow> word32 list" where
  "frees bs = map fst (free_blocks bs)"

definition free_bytes :: "block list \<Rightarrow> nat" where
  "free_bytes bs = sum_list (map (\<lambda>(p, n, f). unat n) (free_blocks bs))"

fun chain :: "heap \<Rightarrow> word32 \<Rightarrow> word32 list \<Rightarrow> word32 \<Rightarrow> bool" where
  "chain h p [] e \<longleftrightarrow> pxNextFreeBlock (blk h p) = e"
| "chain h p (q # qs) e \<longleftrightarrow> pxNextFreeBlock (blk h p) = q \<and> chain h q qs e"

definition no_adjacent :: "block list \<Rightarrow> bool" where
  "no_adjacent bs \<longleftrightarrow> successively (\<or>) (map (snd \<circ> snd) bs)"

definition header :: "heap \<Rightarrow> block \<Rightarrow> bool" where
  "header h = (\<lambda>(p, n, f). xBlockSize (blk h p) = (if f then n OR heapBLOCK_ALLOCATED_BITMASK else n) \<and>
     (f \<longrightarrow> pxNextFreeBlock (blk h p) = 0) \<and> n AND portBYTE_ALIGNMENT_MASK = 0 \<and> 16 \<le> n)"

text \<open>What the linker promises of the heap array and the static list head.\<close>

definition region :: "heap_cfg \<Rightarrow> word32 \<Rightarrow> bool" where
  "region c e \<longleftrightarrow> heap_start c AND portBYTE_ALIGNMENT_MASK = 0 \<and> heap_start c \<noteq> 0 \<and>
     ucHeap c \<le> heap_start c \<and> heap_start c \<le> e \<and> e - heap_start c < 0x80000000 \<and>
     e \<le> ucHeap c + (configTOTAL_HEAP_SIZE c - 1) \<and> \<not> (heap_start c \<le> xStart c \<and> xStart c \<le> e)"

definition heap_inv :: "heap_cfg \<Rightarrow> heap \<Rightarrow> block list \<Rightarrow> bool" where
  "heap_inv c h bs \<longleftrightarrow> region c (pxEnd h) \<and> layout (heap_start c) bs (pxEnd h) \<and> no_adjacent bs \<and>
     (\<forall>b \<in> set bs. header h b) \<and> chain h (xStart c) (frees bs) (pxEnd h) \<and>
     xBlockSize (blk h (xStart c)) = 0 \<and> xBlockSize (blk h (pxEnd h)) = 0 \<and>
     pxNextFreeBlock (blk h (pxEnd h)) = 0 \<and> unat (xFreeBytesRemaining h) = free_bytes bs"

section \<open>Words and rows of blocks\<close>

lemma heap_consts [simp]:
  "xHeapStructSize = 16" "heapMINIMUM_BLOCK_SIZE = 32" "heapBLOCK_ALLOCATED_BITMASK = 0x80000000"
  by (simp_all add: xHeapStructSize_def heapMINIMUM_BLOCK_SIZE_def heapBLOCK_ALLOCATED_BITMASK_def)

lemma aligned_iff: "w AND portBYTE_ALIGNMENT_MASK = 0 \<longleftrightarrow> 16 dvd unat w"
proof -
  have "w AND portBYTE_ALIGNMENT_MASK = take_bit 4 w"
    by (simp add: take_bit_eq_mask mask_eq_exp_minus_1)
  moreover have "unat (take_bit 4 w) = unat w mod 16"
    by (simp only: unsigned_take_bit_eq) (simp add: take_bit_eq_mod)
  ultimately show ?thesis
    by (simp add: word_unat_eq_iff dvd_eq_mod_eq_0)
qed

lemma aligned_add: "16 dvd unat a \<Longrightarrow> 16 dvd unat b \<Longrightarrow> 16 dvd unat (a + b :: word32)"
  by (simp add: unat_word_ariths dvd_mod_iff)

lemma aligned_diff: "16 dvd unat a \<Longrightarrow> 16 dvd unat b \<Longrightarrow> b \<le> a \<Longrightarrow> 16 dvd unat (a - b :: word32)"
  by (simp add: unat_minus_le dvd_diff_nat)

lemma bit31: "bit (n :: word32) 31 \<longleftrightarrow> 0x80000000 \<le> n"
proof -
  have "bit n 31 \<longleftrightarrow> odd (unat n div 2147483648)"
    using bit_iff_odd [of "unat n" 31] bit_unsigned_iff [of n 31, where ?'a = nat] by simp
  moreover have "unat n div 2147483648 < 2" using unat_word32_less [of n] by simp
  then have "unat n div 2147483648 = (if 2147483648 \<le> unat n then 1 else 0)"
    by (auto simp: div_nat_eqI intro: div_nat_eqI)
  ultimately show ?thesis by (simp add: word_le_nat_alt)
qed

lemma msb_mask: "n AND 0x80000000 = 0 \<longleftrightarrow> (n :: word32) < 0x80000000"
proof -
  have "n AND 2 ^ 31 = 0 \<longleftrightarrow> \<not> bit n 31"
    by (rule and_exp_eq_0_iff_not_bit)
  then show ?thesis using bit31 [of n] by (simp add: not_le)
qed

lemma layout_append: "layout a (us @ vs) e \<longleftrightarrow> (\<exists>m. layout a us m \<and> layout m vs e)"
  by (induction a us e rule: layout.induct) auto

lemma layout_le: "layout a bs e \<Longrightarrow> a \<le> e"
  by (induction a bs e rule: layout.induct) auto

lemma layout_block:
  "layout a bs e \<Longrightarrow> (p, n, f) \<in> set bs \<Longrightarrow> a \<le> p \<and> p < p + n \<and> p + n \<le> e"
proof (induction a bs e rule: layout.induct)
  case (2 a q m g bs e)
  then show ?case using layout_le [of "a + m" bs e] by auto
qed simp

lemma layout_split:
  assumes "layout a (us @ (p, n, f) # vs) e"
  shows "layout a us p" "layout (p + n) vs e" "p < p + n"
    "(q, m, g) \<in> set us \<Longrightarrow> q < p \<and> q + m \<le> p" "(q, m, g) \<in> set vs \<Longrightarrow> p + n \<le> q \<and> p < q"
  using assms layout_block [of a us p q m g] layout_block [of "p + n" vs e q m g]
  by (auto simp: layout_append intro: less_le_trans)

lemma layout_distinct: "layout a bs e \<Longrightarrow> distinct (map fst bs)"
proof (induction a bs e rule: layout.induct)
  case (2 a p n f bs e)
  then show ?case
    using layout_block [of "a + n" bs e p] by force
qed simp

lemma layout_aligned:
  "layout a bs e \<Longrightarrow> 16 dvd unat a \<Longrightarrow> (\<And>p n f. (p, n, f) \<in> set bs \<Longrightarrow> 16 dvd unat n) \<Longrightarrow>
   (p, n, f) \<in> set bs \<Longrightarrow> 16 dvd unat p"
proof (induction a bs e rule: layout.induct)
  case (2 a q m g bs e)
  have "16 dvd unat (a + m)" using 2(3) 2(4) [of q m g] by (intro aligned_add) simp_all
  then show ?case using 2 by auto
qed simp

lemma layout_sum: "layout a bs e \<Longrightarrow> free_bytes bs \<le> unat e - unat a"
proof (induction a bs e rule: layout.induct)
  case (2 a p n f bs e)
  then have "unat (a + n) = unat a + unat n" by (metis unat_plus_simple order_less_imp_le 2(2) layout.simps(2))
  moreover have "unat (a + n) \<le> unat e"
    using 2(2) layout_le [of "a + n" bs e] by (simp add: word_le_nat_alt)
  ultimately show ?case using 2 by (auto simp: free_bytes_def free_blocks_def)
qed (simp add: free_bytes_def free_blocks_def)

lemma free_append:
  "free_blocks (us @ vs) = free_blocks us @ free_blocks vs" "frees (us @ vs) = frees us @ frees vs"
  "free_bytes (us @ vs) = free_bytes us + free_bytes vs"
  by (simp_all add: free_blocks_def frees_def free_bytes_def)

lemma free_Cons:
  "frees ((p, n, f) # bs) = (if f then frees bs else p # frees bs)"
  "free_bytes ((p, n, f) # bs) = (if f then 0 else unat n) + free_bytes bs"
  "frees [] = []" "free_bytes [] = 0"
  by (simp_all add: free_blocks_def frees_def free_bytes_def)

lemma frees_iff: "p \<in> set (frees bs) \<longleftrightarrow> (\<exists>n. (p, n, False) \<in> set bs)"
  by (force simp: frees_def free_blocks_def)

lemma chain_append: "chain h p (us @ q # vs) e \<longleftrightarrow> chain h p us q \<and> chain h q vs e"
  by (induction us arbitrary: p) auto

lemma chain_frame:
  "(\<And>q. q \<in> set (p # ps) \<Longrightarrow> pxNextFreeBlock (blk h' q) = pxNextFreeBlock (blk h q)) \<Longrightarrow>
   chain h' p ps e = chain h p ps e"
  by (induction ps arbitrary: p) auto

text \<open>Redirecting the last link of a chain, and moving the head of one.\<close>

lemma chain_last:
  assumes "chain h p ps e" "distinct (p # ps)" "pxNextFreeBlock (blk h' (last (p # ps))) = x"
    and "\<And>q. q \<in> set (butlast (p # ps)) \<Longrightarrow> pxNextFreeBlock (blk h' q) = pxNextFreeBlock (blk h q)"
  shows "chain h' p ps x"
  using assms
proof (induction ps arbitrary: p)
  case (Cons q qs)
  have "chain h' q qs x"
  proof (rule Cons.IH)
    show "chain h q qs e" "distinct (q # qs)" using Cons.prems(1,2) by simp_all
    show "pxNextFreeBlock (blk h' (last (q # qs))) = x" using Cons.prems(3) by simp
    show "pxNextFreeBlock (blk h' r) = pxNextFreeBlock (blk h r)" if "r \<in> set (butlast (q # qs))" for r
      using Cons.prems(4) [of r] that by simp
  qed
  moreover have "pxNextFreeBlock (blk h' p) = q"
    using Cons.prems(1) Cons.prems(4) [of p] by simp
  ultimately show ?case by simp
qed simp

lemma chain_head:
  assumes "chain h p ps e" "pxNextFreeBlock (blk h' p') = pxNextFreeBlock (blk h p)"
    and fr: "\<And>q. q \<in> set ps \<Longrightarrow> pxNextFreeBlock (blk h' q) = pxNextFreeBlock (blk h q)"
  shows "chain h' p' ps e"
proof (cases ps)
  case (Cons q qs)
  have "chain h' q qs e = chain h q qs e"
    by (rule chain_frame, rule fr) (simp add: Cons)
  then show ?thesis using assms(1,2) Cons by simp
qed (use assms in simp)

lemma chain_last_next: "chain h p ps e \<Longrightarrow> pxNextFreeBlock (blk h (last (p # ps))) = e"
  by (induction ps arbitrary: p) auto

section \<open>Consequences of the invariant\<close>

lemma heap_inv_region: "heap_inv c h bs \<Longrightarrow> region c (pxEnd h)"
  and heap_inv_layout: "heap_inv c h bs \<Longrightarrow> layout (heap_start c) bs (pxEnd h)"
  and heap_inv_chain: "heap_inv c h bs \<Longrightarrow> chain h (xStart c) (frees bs) (pxEnd h)"
  and heap_inv_header: "heap_inv c h bs \<Longrightarrow> b \<in> set bs \<Longrightarrow> header h b"
  by (simp_all add: heap_inv_def)

lemma block_facts:
  assumes i: "heap_inv c h bs" and b: "(p, n, f) \<in> set bs"
  shows "heap_start c \<le> p" "p < p + n" "p + n \<le> pxEnd h" "p \<noteq> xStart c" "p \<noteq> pxEnd h" "p \<noteq> 0"
    "n < 0x80000000" "heapVALIDATE_BLOCK_POINTER c p" "unat (p + n) = unat p + unat n"
proof -
  note l = layout_block [OF heap_inv_layout [OF i] b] and r = heap_inv_region [OF i]
  show "heap_start c \<le> p" "p < p + n" "p + n \<le> pxEnd h" using l by simp_all
  then have le: "heap_start c \<le> p" "p < pxEnd h" by auto
  show "p \<noteq> xStart c" "p \<noteq> pxEnd h" "p \<noteq> 0"
    using le r by (auto simp: region_def)
  show u: "unat (p + n) = unat p + unat n"
    using l by (metis unat_plus_simple order_less_imp_le)
  have "unat (pxEnd h - heap_start c) = unat (pxEnd h) - unat (heap_start c)"
    using r by (simp add: region_def unat_minus_le)
  moreover have "unat (pxEnd h - heap_start c) < 2147483648"
    using r by (simp add: region_def word_less_nat_alt)
  moreover have "unat (heap_start c) \<le> unat p" "unat p + unat n \<le> unat (pxEnd h)"
    using l by (simp_all add: word_le_nat_alt u [symmetric])
  ultimately show "n < 0x80000000" by (simp add: word_less_nat_alt)
  show "heapVALIDATE_BLOCK_POINTER c p"
    using le r by (auto simp: heapVALIDATE_BLOCK_POINTER_def region_def)
qed

lemma end_facts:
  assumes i: "heap_inv c h bs"
  shows "pxEnd h \<noteq> 0" "pxEnd h \<noteq> xStart c" "heapVALIDATE_BLOCK_POINTER c (pxEnd h)"
  using heap_inv_region [OF i]
  by (auto simp: region_def heapVALIDATE_BLOCK_POINTER_def)

lemma block_size:
  assumes "heap_inv c h bs" "(p, n, f) \<in> set bs"
  shows "xBlockSize (blk h p) = (if f then n OR 0x80000000 else n)" "16 \<le> n" "16 dvd unat n"
    "f \<Longrightarrow> pxNextFreeBlock (blk h p) = 0"
  using heap_inv_header [OF assms] by (auto simp: header_def aligned_iff)

lemma block_aligned:
  assumes i: "heap_inv c h bs" and b: "(p, n, f) \<in> set bs"
  shows "16 dvd unat p"
proof (rule layout_aligned [OF heap_inv_layout [OF i] _ _ b])
  show "16 dvd unat (heap_start c)"
    using heap_inv_region [OF i] by (simp add: region_def aligned_iff)
qed (rule block_size(3) [OF i])

lemma allocated_bit:
  fixes n :: word32
  assumes "n < 0x80000000"
  shows "(n OR 0x80000000) AND 0x80000000 \<noteq> 0" "(n OR 0x80000000) AND NOT 0x80000000 = n"
proof -
  have z: "n AND 0x80000000 = 0" using assms msb_mask by blast
  show "(n OR 0x80000000) AND 0x80000000 \<noteq> 0"
    by (simp add: bit.conj_disj_distrib2)
  have "(n OR 0x80000000) AND NOT 0x80000000 = n AND NOT 0x80000000"
    by (simp add: bit.conj_disj_distrib2)
  also have "\<dots> = (n AND NOT 0x80000000) OR (n AND 0x80000000)" by (simp only: z or.right_neutral)
  also have "\<dots> = n" by (simp only: bit.conj_disj_distrib [symmetric] bit.disj_cancel_left and.right_neutral)
  finally show "(n OR 0x80000000) AND NOT 0x80000000 = n" .
qed

lemma frees_distinct: "heap_inv c h bs \<Longrightarrow> distinct (xStart c # frees bs @ [pxEnd h])"
proof -
  assume i: "heap_inv c h bs"
  have "distinct (map fst (free_blocks bs))"
    using layout_distinct [OF heap_inv_layout [OF i]] unfolding free_blocks_def
    by (rule distinct_map_filter)
  moreover have "q \<noteq> xStart c \<and> q \<noteq> pxEnd h" if "q \<in> set (frees bs)" for q
    using that block_facts(4,5) [OF i] unfolding frees_iff by blast
  moreover have "pxEnd h \<noteq> xStart c" by (rule end_facts [OF i])
  ultimately show ?thesis by (auto simp: frees_def)
qed

text \<open>First fit: the search ends at the first free block that is large enough, if any.\<close>

lemma find_block_end:
  assumes "chain h p ps e" "\<And>q. q \<in> set ps \<Longrightarrow> xBlockSize (blk h q) < w"
    and "\<And>q. q \<in> set (ps @ [e]) \<Longrightarrow> heapVALIDATE_BLOCK_POINTER c q \<and> q \<noteq> 0"
    and "pxNextFreeBlock (blk h e) = 0 \<or> w \<le> xBlockSize (blk h e)"
  shows "find_block c h w p (pxNextFreeBlock (blk h p)) = Some (last (p # ps), e)"
  using assms
proof (induction ps arbitrary: p)
  case Nil
  then show ?case by (subst find_block.simps) (auto simp: not_less)
next
  case (Cons q qs)
  have n: "pxNextFreeBlock (blk h p) = q" and ch: "chain h q qs e" using Cons.prems(1) by simp_all
  have "pxNextFreeBlock (blk h q) \<in> set (qs @ [e])" using ch by (cases qs) auto
  then have nz: "pxNextFreeBlock (blk h q) \<noteq> 0" using Cons.prems(3) by simp
  have "find_block c h w q (pxNextFreeBlock (blk h q)) = Some (last (q # qs), e)"
    using Cons.prems by (intro Cons.IH [OF ch]) auto
  then show ?case
    using Cons.prems(2,3) [of q] nz by (subst find_block.simps) (simp add: n)
qed

section \<open>Allocating a block\<close>

definition cut_block :: "word32 \<Rightarrow> word32 \<Rightarrow> word32 \<Rightarrow> block list" where
  "cut_block w p n = (if n - w > 32 then [(p, w, True), (p + w, n - w, False)] else [(p, n, True)])"

lemma take_block_eq:
  assumes "xBlockSize (blk h p) = n" "w \<le> n" "16 dvd unat (p + w)" "a \<noteq> p" "a \<noteq> p + w" "p \<noteq> p + w"
  shows "\<exists>h'. take_block w a p h = Some h' \<and> pxEnd h' = pxEnd h \<and>
    pxNextFreeBlock (blk h' a) = (if n - w > 32 then p + w else pxNextFreeBlock (blk h p)) \<and>
    xBlockSize (blk h' a) = xBlockSize (blk h a) \<and>
    blk h' p = \<lparr>pxNextFreeBlock = 0, xBlockSize = (if n - w > 32 then w else n) OR 0x80000000\<rparr> \<and>
    (n - w > 32 \<longrightarrow> blk h' (p + w) = \<lparr>pxNextFreeBlock = pxNextFreeBlock (blk h p), xBlockSize = n - w\<rparr>) \<and>
    (\<forall>q. q \<noteq> a \<and> q \<noteq> p \<and> (n - w > 32 \<longrightarrow> q \<noteq> p + w) \<longrightarrow> blk h' q = blk h q) \<and>
    xFreeBytesRemaining h' = xFreeBytesRemaining h - (if n - w > 32 then w else n) \<and>
    xMinimumEverFreeBytesRemaining h' =
      min (xMinimumEverFreeBytesRemaining h) (xFreeBytesRemaining h') \<and>
    xNumberOfSuccessfulAllocations h' = xNumberOfSuccessfulAllocations h + 1"
proof -
  have eta: "b\<lparr>pxNextFreeBlock := x, xBlockSize := y\<rparr> = \<lparr>pxNextFreeBlock = x, xBlockSize = y\<rparr>" for b x y
    by (cases b) simp
  define h' where "h' = the (take_block w a p h)"
  have al: "(p + w) AND portBYTE_ALIGNMENT_MASK = 0" using assms(3) by (simp add: aligned_iff)
  have nl: "\<not> n < w" using assms(2) by simp
  note d = take_block_def set_size_def set_next_free_def Let_def
  have t: "take_block w a p h = Some h'"
    using assms(1,4-6) al nl by (simp add: h'_def d)
  have "pxEnd h' = pxEnd h" "xNumberOfSuccessfulAllocations h' = xNumberOfSuccessfulAllocations h + 1"
    "xBlockSize (blk h' a) = xBlockSize (blk h a)"
    "pxNextFreeBlock (blk h' a) = (if n - w > 32 then p + w else pxNextFreeBlock (blk h p))"
    "xFreeBytesRemaining h' = xFreeBytesRemaining h - (if n - w > 32 then w else n)"
    using assms(1,4-6) al nl by (simp_all add: h'_def d)
  moreover have "xMinimumEverFreeBytesRemaining h' =
      (if xFreeBytesRemaining h' < xMinimumEverFreeBytesRemaining h
       then xFreeBytesRemaining h' else xMinimumEverFreeBytesRemaining h)"
    using assms(1,4-6) al nl by (simp add: h'_def d)
  moreover have "blk h' p = \<lparr>pxNextFreeBlock = 0, xBlockSize = (if n - w > 32 then w else n) OR 0x80000000\<rparr>"
    "n - w > 32 \<longrightarrow> blk h' (p + w) = \<lparr>pxNextFreeBlock = pxNextFreeBlock (blk h p), xBlockSize = n - w\<rparr>"
    "\<forall>q. q \<noteq> a \<and> q \<noteq> p \<and> (n - w > 32 \<longrightarrow> q \<noteq> p + w) \<longrightarrow> blk h' q = blk h q"
    using assms(1,4-6) al nl by (simp_all add: h'_def d eta)
  moreover have "min x y = (if y < x then y else x)" for x y :: word32 by (auto simp: min_def)
  ultimately show ?thesis using t by (intro exI [of _ h'] conjI) (simp_all only:)
qed

lemma no_adjacent_cut:
  "no_adjacent (us @ (p, n, False) # vs) \<Longrightarrow> no_adjacent (us @ cut_block w p n @ vs)"
  by (auto simp: no_adjacent_def cut_block_def successively_append_iff successively_Cons)

lemma prev_free:
  assumes i: "heap_inv c h (us @ (p, n, f) # vs)" and a: "a = last (xStart c # frees us)"
  shows "a = xStart c \<or> (\<exists>m. (a, m, False) \<in> set us)" "a \<noteq> p"
    "p \<le> q \<Longrightarrow> q \<le> pxEnd h \<Longrightarrow> a \<noteq> q" "(q, m, True) \<in> set us \<Longrightarrow> a \<noteq> q"
proof -
  note l = layout_split [OF heap_inv_layout [OF i]] and b = block_facts [OF i]
  show *: "a = xStart c \<or> (\<exists>m. (a, m, False) \<in> set us)"
  proof (cases "frees us = []")
    case False
    then have "a \<in> set (frees us)" using a last_in_set [of "frees us"] by simp
    then show ?thesis by (simp only: frees_iff simp_thms)
  qed (simp add: a)
  show ne: "a \<noteq> q" if "p \<le> q" "q \<le> pxEnd h" for q
  proof
    assume "a = q"
    from * show False
    proof
      assume "a = xStart c"
      then show False
        using \<open>a = q\<close> that heap_inv_region [OF i] b(1) [of p n f] by (auto simp: region_def)
    next
      assume "\<exists>m. (a, m, False) \<in> set us"
      then show False using l(4) that \<open>a = q\<close> by (auto dest: leD)
    qed
  qed
  show "a \<noteq> p" using ne [of p] b(2,3) [of p n f] by auto
  have d: "distinct (map fst us)" using layout_distinct [OF l(1)] .
  show "a \<noteq> q" if "(q, m, True) \<in> set us"
    using * that b(4) [of q m True] d by (auto dest: eq_key_imp_eq_value)
qed

lemma cut_layout:
  assumes "p < p + n" "w \<le> n" "16 \<le> w"
  shows "layout p (cut_block w p n) (p + n)" "p < p + w" "p + w \<le> p + n" "p + w + (n - w) = p + n"
proof -
  have un: "unat (p + n) = unat p + unat n"
    using assms(1) by (metis unat_plus_simple order_less_imp_le)
  have uw: "unat (p + w) = unat p + unat w"
    using un assms(2) unat_word32_less [of "p + n"] by (intro unat_add_no_overflow)
      (simp add: word_le_nat_alt)
  show *: "p < p + w" "p + w \<le> p + n" "p + w + (n - w) = p + n"
    using assms(2,3) by (simp_all add: un uw word_le_nat_alt word_less_nat_alt)
  have "p + w < p + n" if "n - w > 32"
    using that *(2) by (auto simp: order.strict_iff_order)
  then show "layout p (cut_block w p n) (p + n)"
    using * assms(1) by (simp add: cut_block_def)
qed

lemma cut_free_bytes:
  assumes "w \<le> n"
  shows "free_bytes (cut_block w p n) = unat n - unat (if n - w > 32 then w else n)"
    "frees (cut_block w p n) = (if n - w > 32 then [p + w] else [])"
  using assms by (simp_all add: cut_block_def free_Cons unat_minus_le)

lemma header_cut:
  assumes "16 dvd unat w" "16 dvd unat n" "16 \<le> w" "16 \<le> n" "w \<le> n"
    and "blk h p = \<lparr>pxNextFreeBlock = 0, xBlockSize = (if n - w > 32 then w else n) OR 0x80000000\<rparr>"
    and "n - w > 32 \<Longrightarrow> xBlockSize (blk h (p + w)) = n - w"
    and "b \<in> set (cut_block w p n)"
  shows "header h b"
proof -
  have "(16::word32) \<le> 32" by simp
  then have "n - w > 32 \<Longrightarrow> 16 \<le> n - w" by (meson order_less_imp_le order_trans)
  then show ?thesis
    using assms aligned_diff [of n w]
    by (auto simp: cut_block_def header_def aligned_iff split: if_splits)
qed

lemma header_frame:
  "header h (q, m, f) \<Longrightarrow> xBlockSize (blk h' q) = xBlockSize (blk h q) \<Longrightarrow>
   (f \<Longrightarrow> pxNextFreeBlock (blk h' q) = pxNextFreeBlock (blk h q)) \<Longrightarrow> header h' (q, m, f)"
  by (simp add: header_def)

lemma take_block_inv:
  assumes i: "heap_inv c h (us @ (p, n, False) # vs)" and w: "w \<le> n" "16 \<le> w" "16 dvd unat w"
    and a: "a = last (xStart c # frees us)"
  shows "\<exists>h'. take_block w a p h = Some h' \<and> heap_inv c h' (us @ cut_block w p n @ vs) \<and>
    xMinimumEverFreeBytesRemaining h' = min (xMinimumEverFreeBytesRemaining h) (xFreeBytesRemaining h')"
proof -
  let ?b = "(p, n, False)" and ?e = "pxEnd h" and ?s = "n - w > 32"
  have b: "?b \<in> set (us @ ?b # vs)" by simp
  note bf = block_facts [OF i b] and bs = block_size [OF i b] and pf = prev_free [OF i a]
    and ls = layout_split [OF heap_inv_layout [OF i]]
  note cl = cut_layout [OF bf(2) w(1,2)]
  have pa: "16 dvd unat p" by (rule block_aligned [OF i b])
  have pw: "p + w \<le> ?e" using cl(3) bf(3) by (rule order_trans)
  have nep: "a \<noteq> p + w" using pf(3) [of "p + w"] cl(2) pw by auto
  have bsz: "xBlockSize (blk h p) = n" using bs(1) by simp
  have pne: "p \<noteq> p + w" using cl(2) by (rule less_imp_neq)
  obtain h' where t: "take_block w a p h = Some h'" and e': "pxEnd h' = ?e"
    and na: "pxNextFreeBlock (blk h' a) = (if ?s then p + w else pxNextFreeBlock (blk h p))"
    and sa: "xBlockSize (blk h' a) = xBlockSize (blk h a)"
    and bp: "blk h' p = \<lparr>pxNextFreeBlock = 0, xBlockSize = (if ?s then w else n) OR 0x80000000\<rparr>"
    and bpw: "?s \<Longrightarrow> blk h' (p + w) = \<lparr>pxNextFreeBlock = pxNextFreeBlock (blk h p), xBlockSize = n - w\<rparr>"
    and fr: "\<And>q. q \<noteq> a \<Longrightarrow> q \<noteq> p \<Longrightarrow> (?s \<Longrightarrow> q \<noteq> p + w) \<Longrightarrow> blk h' q = blk h q"
    and fb: "xFreeBytesRemaining h' = xFreeBytesRemaining h - (if ?s then w else n)"
    and mn: "xMinimumEverFreeBytesRemaining h' = min (xMinimumEverFreeBytesRemaining h) (xFreeBytesRemaining h')"
    using take_block_eq [OF bsz w(1) aligned_add [OF pa w(3)] pf(2) nep pne] by blast
  have lt: "?s \<Longrightarrow> p + w < p + n" using cl(3) by (auto simp: order.strict_iff_order)
  have frv: "blk h' q = blk h q" if "p + n \<le> q" "q \<le> ?e" for q
  proof (rule fr)
    have "p < q" using bf(2) that(1) by (rule less_le_trans)
    then show "q \<noteq> a" "q \<noteq> p" using pf(3) [OF order_less_imp_le that(2)] by auto
    show "q \<noteq> p + w" if ?s using \<open>p + n \<le> q\<close> lt [OF that] by auto
  qed
  have fru: "xBlockSize (blk h' q) = xBlockSize (blk h q)"
    "q \<noteq> a \<Longrightarrow> blk h' q = blk h q" if "q < p \<or> q = xStart c" for q
  proof -
    have "q \<noteq> p" "q \<noteq> p + w" using that bf(4) cl(2) pw bf(1) heap_inv_region [OF i]
      by (auto simp: region_def)
    then show "q \<noteq> a \<Longrightarrow> blk h' q = blk h q" using fr by blast
    then show "xBlockSize (blk h' q) = xBlockSize (blk h q)" using sa by (cases "q = a") auto
  qed
  have "header h' d" if "d \<in> set (us @ cut_block w p n @ vs)" for d
  proof (cases "d \<in> set (cut_block w p n)")
    case True
    then show ?thesis
      by (intro header_cut [OF w(3) bs(3) w(2) bs(2) w(1) bp]) (auto simp: bpw)
  next
    case False
    obtain q m f where d: "d = (q, m, f)" by (cases d)
    with that False have "(q, m, f) \<in> set us \<or> (q, m, f) \<in> set vs" by auto
    then show ?thesis
    proof
      assume u: "(q, m, f) \<in> set us"
      then have "q < p" using ls(4) by blast
      then show ?thesis
        using heap_inv_header [OF i, of d] u d fru [of q] pf(4) [of q m]
        by (auto intro!: header_frame [of h])
    next
      assume v: "(q, m, f) \<in> set vs"
      then have "blk h' q = blk h q"
        using layout_block [OF ls(2) v] by (intro frv) auto
      then show ?thesis
        using heap_inv_header [OF i, of d] v d by (simp add: header_def)
    qed
  qed
  moreover have "layout (heap_start c) (us @ cut_block w p n @ vs) ?e"
    using ls(1,2) cl(1) by (auto simp: layout_append)
  moreover have "no_adjacent (us @ cut_block w p n @ vs)"
    using i by (intro no_adjacent_cut) (simp add: heap_inv_def)
  moreover have "chain h' (xStart c) (frees (us @ cut_block w p n @ vs)) ?e"
  proof -
    have ch: "chain h (xStart c) (frees us) p" "chain h p (frees vs) ?e"
      using heap_inv_chain [OF i] by (simp_all add: free_append free_Cons chain_append)
    have d: "distinct (xStart c # frees us)"
      using frees_distinct [OF i] by (simp add: free_append)
    have "chain h' (xStart c) (frees us) (if ?s then p + w else pxNextFreeBlock (blk h p))"
    proof (rule chain_last [OF ch(1) d])
      show "pxNextFreeBlock (blk h' (last (xStart c # frees us))) =
          (if ?s then p + w else pxNextFreeBlock (blk h p))" using na a by simp
      fix q assume q: "q \<in> set (butlast (xStart c # frees us))"
      then have "q \<noteq> a" using d a by (metis append_butlast_last_id distinct_append
            disjoint_iff list.distinct(1) list.set_intros(1))
      moreover have "q < p \<or> q = xStart c"
        using in_set_butlastD [OF q] ls(4) by (auto simp: frees_iff)
      ultimately show "pxNextFreeBlock (blk h' q) = pxNextFreeBlock (blk h q)"
        using fru(2) by simp
    qed
    moreover have nv: "pxNextFreeBlock (blk h' q) = pxNextFreeBlock (blk h q)" if "q \<in> set (frees vs)" for q
    proof -
      from that obtain m where "(q, m, False) \<in> set vs" by (auto simp: frees_iff)
      from layout_block [OF ls(2) this] have "blk h' q = blk h q" by (intro frv) auto
      then show ?thesis by simp
    qed
    moreover have "chain h' (p + w) (frees vs) ?e" if ?s
      using ch(2) by (rule chain_head) (use bpw [OF that] nv in auto)
    moreover have "chain h' v qs ?e" if "frees vs = v # qs" for v qs
      using ch(2) nv that by (auto intro: chain_frame [THEN iffD2])
    ultimately show ?thesis
      using ch(2) by (cases "frees vs") (auto simp: free_append cut_free_bytes w(1) chain_append)
  qed
  moreover have "unat (xFreeBytesRemaining h') = free_bytes (us @ cut_block w p n @ vs)"
  proof -
    let ?k = "if ?s then w else n"
    have k: "unat ?k \<le> unat n" using w(1) by (simp add: word_le_nat_alt)
    have f: "unat (xFreeBytesRemaining h) = free_bytes us + unat n + free_bytes vs"
      using i by (simp add: heap_inv_def free_append free_Cons)
    then have "?k \<le> xFreeBytesRemaining h" using k by (simp add: word_le_nat_alt)
    then have "unat (xFreeBytesRemaining h') = unat (xFreeBytesRemaining h) - unat ?k"
      unfolding fb by (rule unat_minus_le)
    then show ?thesis using f k by (simp add: free_append cut_free_bytes w(1))
  qed
  moreover have "blk h' ?e = blk h ?e" using bf(3) by (intro frv) auto
  moreover have "xBlockSize (blk h' (xStart c)) = xBlockSize (blk h (xStart c))" by (simp add: fru)
  ultimately have "heap_inv c h' (us @ cut_block w p n @ vs)"
    using i by (simp add: heap_inv_def e')
  then show ?thesis using t mn by blast
qed

section \<open>The request size\<close>

lemma add_will_overflow: "heapADD_WILL_OVERFLOW a b \<longleftrightarrow> 4294967296 \<le> unat a + unat b"
proof -
  have m: "(NOT 0 :: word32) = 0xFFFFFFFF" by simp
  have "unat (0xFFFFFFFF - b) = 4294967295 - unat b"
    using unat_minus_le [of b "0xFFFFFFFF"] by simp
  then show ?thesis
    using unat_word32_less [of b] unfolding heapADD_WILL_OVERFLOW_def m word_less_nat_alt by simp linarith
qed

lemma unat_and_mask: "unat (w AND portBYTE_ALIGNMENT_MASK) = unat w mod 16"
proof -
  have "w AND portBYTE_ALIGNMENT_MASK = take_bit 4 w"
    by (simp add: take_bit_eq_mask mask_eq_exp_minus_1)
  then show ?thesis
    by (simp only: unsigned_take_bit_eq) (simp add: take_bit_eq_mod)
qed

lemma round_up16:
  fixes v :: nat
  shows "v mod 16 = 0 \<Longrightarrow> (v + 15) div 16 * 16 = v"
    "v mod 16 \<noteq> 0 \<Longrightarrow> (v + 15) div 16 * 16 = v + (16 - v mod 16)"
    "k * 16 \<le> v \<Longrightarrow> k * 16 \<le> (v + 15) div 16 * 16"
proof -
  define q r where "q = v div 16" and "r = v mod 16"
  have v: "v = r + q * 16" and r: "r < 16" by (simp_all add: q_def r_def)
  have "v + 15 = r + 15 + q * 16" using v by linarith
  then have "(v + 15) div 16 = (r + 15 + q * 16) div 16" by (simp only:)
  also have "\<dots> = q + (r + 15) div 16" by (rule div_mult_self1) simp
  finally have d: "(v + 15) div 16 = q + (r + 15) div 16" .
  show "(v + 15) div 16 * 16 = v" if "v mod 16 = 0"
  proof -
    have "r = 0" using that by (simp only: r_def)
    then have "(v + 15) div 16 = q" "v = q * 16" using d v by simp_all
    then show ?thesis by simp
  qed
  show "(v + 15) div 16 * 16 = v + (16 - v mod 16)" if "v mod 16 \<noteq> 0"
  proof -
    have "(r + 15) div 16 = 1" using that r by (intro div_nat_eqI) (simp_all add: r_def)
    then have "(v + 15) div 16 * 16 = (q + 1) * 16" by (simp only: d)
    also have "\<dots> = v + (16 - r)" by (subst v) (use r in simp)
    finally show ?thesis by (simp only: r_def)
  qed
  assume "k * 16 \<le> v"
  then have "k * 16 div 16 \<le> (v + 15) div 16" by (intro div_le_mono) simp
  then show "k * 16 \<le> (v + 15) div 16 * 16" by simp
qed

lemma wanted_size_value:
  "unat (wanted_size x) = (let k = (unat x + 16 + 15) div 16 * 16
     in if x = 0 \<or> 4294967296 \<le> k then 0 else k)"
proof (cases "x = 0 \<or> 4294967296 \<le> unat x + 16")
  case True
  then have "x = 0 \<or> 4294967296 \<le> (unat x + 16 + 15) div 16 * 16"
    using round_up16(3) [of 268435456 "unat x + 16"] by auto
  moreover have "wanted_size x = 0"
    using True by (auto simp: wanted_size_def add_will_overflow word_greater_zero_iff)
  ultimately show ?thesis by (simp only: Let_def if_True unsigned_0)
next
  case False
  let ?w = "x + 16"
  have w: "unat ?w = unat x + 16" using False by (simp add: unat_add_no_overflow)
  have x: "x > 0" using False by (simp add: word_greater_zero_iff)
  have no: "\<not> heapADD_WILL_OVERFLOW x 16" using False by (simp add: add_will_overflow)
  show ?thesis
  proof (cases "unat ?w mod 16 = 0")
    case True
    then have "?w AND portBYTE_ALIGNMENT_MASK = 0"
      by (simp only: word_unat_eq_iff unat_and_mask unsigned_0)
    then have "wanted_size x = ?w" using x no by (simp add: wanted_size_def Let_def)
    moreover have "(unat x + 16 + 15) div 16 * 16 = unat ?w"
      using round_up16(1) [OF True] by (simp only: w)
    ultimately show ?thesis using w False by (simp only: Let_def) auto
  next
    case m: False
    let ?m = "portBYTE_ALIGNMENT - (?w AND portBYTE_ALIGNMENT_MASK)"
    have nz: "?w AND portBYTE_ALIGNMENT_MASK \<noteq> 0"
      using m by (simp only: word_unat_eq_iff unat_and_mask unsigned_0 simp_thms)
    have "?w AND portBYTE_ALIGNMENT_MASK \<le> portBYTE_ALIGNMENT"
      unfolding word_le_nat_alt unat_and_mask by simp
    then have um: "unat ?m = 16 - unat ?w mod 16" by (simp only: unat_minus_le unat_and_mask) simp
    have k: "(unat x + 16 + 15) div 16 * 16 = unat ?w + unat ?m"
      using round_up16(2) [OF m] by (simp only: w um)
    have "wanted_size x = (if \<not> heapADD_WILL_OVERFLOW ?w ?m then ?w + ?m else 0)"
      using x no nz unfolding wanted_size_def heap_consts by (simp only: Let_def if_True simp_thms)
    moreover have "unat (?w + ?m) = unat ?w + unat ?m" if "unat ?w + unat ?m < 4294967296"
      using that by (rule unat_add_no_overflow)
    ultimately show ?thesis
      using False unfolding Let_def k add_will_overflow by (simp only: not_le if_distrib) auto
  qed
qed

lemma wanted_size_pos:
  assumes "wanted_size x > 0"
  shows "16 dvd unat (wanted_size x)" "16 \<le> wanted_size x" "unat x + 16 \<le> unat (wanted_size x)"
proof -
  have nz: "unat (wanted_size x) \<noteq> 0" using assms by (simp add: word_greater_zero_iff unat_eq_0)
  then have e: "unat (wanted_size x) = (unat x + 16 + 15) div 16 * 16"
    using wanted_size_value [of x] by (auto simp: Let_def split: if_splits)
  show "16 dvd unat (wanted_size x)" by (simp only: e dvd_triv_right)
  show le: "unat x + 16 \<le> unat (wanted_size x)" unfolding e by presburger
  show "16 \<le> wanted_size x" using le by (simp add: word_le_nat_alt)
qed

section \<open>First fit\<close>

definition fits :: "word32 \<Rightarrow> block \<Rightarrow> bool" where
  "fits w = (\<lambda>(p, n, f). \<not> f \<and> w \<le> n)"

lemma malloc_none:
  assumes i: "heap_inv c h bs" and "\<not> (\<exists>b \<in> set bs. fits (wanted_size x) b)"
  shows "pvPortMalloc c x h = Some (0, h)"
proof -
  let ?w = "wanted_size x" and ?e = "pxEnd h"
  have e: "?e \<noteq> 0" by (rule end_facts [OF i])
  have "find_block c h ?w (xStart c) (pxNextFreeBlock (blk h (xStart c))) =
      Some (last (xStart c # frees bs), ?e)"
  proof (rule find_block_end [OF heap_inv_chain [OF i]])
    show "xBlockSize (blk h q) < ?w" if "q \<in> set (frees bs)" for q
    proof -
      from that obtain n where q: "(q, n, False) \<in> set bs" by (auto simp: frees_iff)
      then show ?thesis using block_size(1) [OF i q] assms(2) by (force simp: fits_def not_le)
    qed
    show "heapVALIDATE_BLOCK_POINTER c q \<and> q \<noteq> 0" if "q \<in> set (frees bs @ [?e])" for q
      using that end_facts [OF i] block_facts(6,8) [OF i] by (auto simp: frees_iff)
    show "pxNextFreeBlock (blk h ?e) = 0 \<or> ?w \<le> xBlockSize (blk h ?e)"
      using i by (simp add: heap_inv_def)
  qed
  then show ?thesis using e by (simp add: pvPortMalloc_def Let_def)
qed

lemma free_bytes_ge: "(p, n, False) \<in> set bs \<Longrightarrow> unat n \<le> free_bytes bs"
  by (induction bs) (auto simp: free_Cons)

lemma malloc_some:
  assumes i: "heap_inv c h (us @ (p, n, False) # vs)" and w: "wanted_size x > 0" "wanted_size x \<le> n"
    and first: "\<not> (\<exists>b \<in> set us. fits (wanted_size x) b)"
  shows "\<exists>h'. pvPortMalloc c x h = Some (p + 16, h') \<and>
    heap_inv c h' (us @ cut_block (wanted_size x) p n @ vs) \<and>
    xMinimumEverFreeBytesRemaining h' = min (xMinimumEverFreeBytesRemaining h) (xFreeBytesRemaining h')"
proof -
  let ?w = "wanted_size x" and ?b = "(p, n, False)" and ?a = "last (xStart c # frees us)"
  have b: "?b \<in> set (us @ ?b # vs)" by simp
  note bf = block_facts [OF i b] and wp = wanted_size_pos [OF w(1)]
  have ch: "chain h (xStart c) (frees us) p"
    using heap_inv_chain [OF i] by (simp add: free_append free_Cons chain_append)
  have find: "find_block c h ?w (xStart c) (pxNextFreeBlock (blk h (xStart c))) = Some (?a, p)"
  proof (rule find_block_end [OF ch])
    show "xBlockSize (blk h q) < ?w" if "q \<in> set (frees us)" for q
    proof -
      from that obtain m where q: "(q, m, False) \<in> set us" by (auto simp: frees_iff)
      then show ?thesis
        using block_size(1) [OF i, of q m False] first by (force simp: fits_def not_le)
    qed
    show "heapVALIDATE_BLOCK_POINTER c q \<and> q \<noteq> 0" if "q \<in> set (frees us @ [p])" for q
      using that bf(6,8) block_facts(6,8) [OF i, of q] by (auto simp: frees_iff)
    show "pxNextFreeBlock (blk h p) = 0 \<or> ?w \<le> xBlockSize (blk h p)"
      using block_size(1) [OF i b] w(2) by simp
  qed
  obtain h' where t: "take_block ?w ?a p h = Some h'" "heap_inv c h' (us @ cut_block ?w p n @ vs)"
    "xMinimumEverFreeBytesRemaining h' = min (xMinimumEverFreeBytesRemaining h) (xFreeBytesRemaining h')"
    using take_block_inv [OF i w(2) wp(2,1) refl] by blast
  have "?w < 0x80000000" using w(2) bf(7) by (rule le_less_trans)
  then have v: "heapBLOCK_SIZE_IS_VALID ?w" by (simp add: heapBLOCK_SIZE_IS_VALID_def msb_mask)
  have "unat ?w \<le> unat (xFreeBytesRemaining h)"
    using i w(2) free_bytes_ge [OF b] by (simp add: heap_inv_def word_le_nat_alt)
  then have fb: "?w \<le> xFreeBytesRemaining h" by (simp add: word_le_nat_alt)
  have nx: "pxNextFreeBlock (blk h ?a) = p" by (rule chain_last_next [OF ch])
  note c16 = cut_layout [OF bf(2), of 16] 
  have c: "p < p + 16" "p + 16 \<le> p + n" using c16 block_size(2) [OF i b] by simp_all
  have val: "heapVALIDATE_BLOCK_POINTER c (p + 16)"
    using heap_inv_region [OF i] bf(1,3) c unfolding heapVALIDATE_BLOCK_POINTER_def region_def
    by (meson order_less_imp_le order_trans)
  have al: "(p + 16) AND portBYTE_ALIGNMENT_MASK = 0"
    using aligned_add [OF block_aligned [OF i b], of 16] by (simp add: aligned_iff)
  have "pvPortMalloc c x h = Some (p + 16, h')"
    using end_facts(1) [OF i] v w(1) fb find bf(5) nx t(1) val al
    by (simp add: pvPortMalloc_def Let_def)
  then show ?thesis using t by blast
qed

end
