(* ===== verification/Allocator.thy ===== *)
theory Allocator
  imports Prelude
begin

text \<open>
  The interface of the memory managers under \<^verbatim>\<open>portable/MemMang\<close>. \<open>inv h A\<close> says that the
  manager is in a legal state \<open>h\<close> in which the regions of \<open>A\<close> (address and length) belong to
  the application. \<open>arena\<close> is what every manager promises of \<^verbatim>\<open>pvPortMalloc\<close>; \<open>allocator\<close>
  adds \<^verbatim>\<open>vPortFree\<close>.
\<close>

locale arena =
  fixes inv :: "'h \<Rightarrow> (word32 \<times> word32) set \<Rightarrow> bool"
    and malloc :: "word32 \<Rightarrow> 'h \<Rightarrow> (word32 \<times> 'h) option"
  assumes malloc_law: "inv h A \<Longrightarrow> \<exists>r h'. malloc x h = Some (r, h') \<and>
      (if r = 0 then inv h' A
       else \<exists>k. x \<le> k \<and> 16 dvd unat r \<and> r \<notin> fst ` A \<and> inv h' (insert (r, k) A))"
    and inv_disjoint: "inv h A \<Longrightarrow> (p, n) \<in> A \<Longrightarrow> (q, m) \<in> A \<Longrightarrow> (p, n) \<noteq> (q, m) \<Longrightarrow>
      unat p + unat n \<le> unat q \<or> unat q + unat m \<le> unat p"

locale allocator = arena +
  fixes release :: "word32 \<Rightarrow> 'h \<Rightarrow> 'h option"
  assumes release_law: "inv h A \<Longrightarrow> (p, n) \<in> A \<Longrightarrow> \<exists>h'. release p h = Some h' \<and> inv h' (A - {(p, n)})"
    and inv_functional: "inv h A \<Longrightarrow> (p, n) \<in> A \<Longrightarrow> (p, m) \<in> A \<Longrightarrow> n = m"

text \<open>
  An application that asks for memory and gives back pointers it holds, in any order: a
  request that fails leaves it with what it had, and a release names a held pointer by its
  position (out of range, it does nothing).
\<close>

datatype request = Request word32 | Release nat

fun serve ::
  "(word32 \<Rightarrow> 'h \<Rightarrow> (word32 \<times> 'h) option) \<Rightarrow> (word32 \<Rightarrow> 'h \<Rightarrow> 'h option) \<Rightarrow> request list \<Rightarrow>
   'h \<times> word32 list \<Rightarrow> ('h \<times> word32 list) option" where
  "serve malloc release [] st = Some st"
| "serve malloc release (Request x # rs) (h, held) =
     (case malloc x h of None \<Rightarrow> None
      | Some (r, h') \<Rightarrow> serve malloc release rs (h', if r = 0 then held else r # held))"
| "serve malloc release (Release i # rs) (h, held) =
     (if i < length held then
        case release (held ! i) h of None \<Rightarrow> None
        | Some h' \<Rightarrow> serve malloc release rs (h', take i held @ drop (Suc i) held)
      else serve malloc release rs (h, held))"

definition disjoint_regions :: "(word32 \<times> word32) set \<Rightarrow> bool" where
  "disjoint_regions A \<longleftrightarrow> (\<forall>p n q m. (p, n) \<in> A \<and> (q, m) \<in> A \<and> (p, n) \<noteq> (q, m) \<longrightarrow>
     unat p + unat n \<le> unat q \<or> unat q + unat m \<le> unat p)"

context arena
begin

lemma regions: "inv h A \<Longrightarrow> disjoint_regions A"
  unfolding disjoint_regions_def using inv_disjoint by blast

end

lemma fst_remove:
  assumes "\<And>m. (p, m) \<in> A \<Longrightarrow> m = n"
  shows "fst ` (A - {(p, n)}) = fst ` A - {p}"
proof (intro set_eqI iffI)
  fix x assume "x \<in> fst ` (A - {(p, n)})"
  then obtain z where z: "z \<in> A" "z \<noteq> (p, n)" "x = fst z" by blast
  then have "x \<noteq> p" using assms [of "snd z"] by (cases z) auto
  then show "x \<in> fst ` A - {p}" using z by blast
next
  fix x assume "x \<in> fst ` A - {p}"
  then obtain z where "z \<in> A" "x = fst z" "x \<noteq> p" by blast
  then show "x \<in> fst ` (A - {(p, n)})" by (intro rev_image_eqI [of z]) auto
qed

context allocator
begin

lemma serve_safe:
  "inv h A \<Longrightarrow> fst ` A = set held \<Longrightarrow> distinct held \<Longrightarrow>
   \<exists>h' held' A'. serve malloc release rs (h, held) = Some (h', held') \<and> inv h' A' \<and>
     fst ` A' = set held' \<and> distinct held'"
proof (induction rs arbitrary: h A held)
  case (Cons r rs)
  show ?case
  proof (cases r)
    case (Request x)
    obtain p h' where m: "malloc x h = Some (p, h')" and
      i: "if p = 0 then inv h' A
          else \<exists>k. x \<le> k \<and> 16 dvd unat p \<and> p \<notin> fst ` A \<and> inv h' (insert (p, k) A)"
      using malloc_law [OF Cons.prems(1)] by blast
    show ?thesis
    proof (cases "p = 0")
      case True
      then show ?thesis using Cons.IH [of h' A held] Cons.prems i m Request by simp
    next
      case False
      then obtain k where k: "p \<notin> fst ` A" "inv h' (insert (p, k) A)" using i by auto
      then have "\<exists>h'' held' A'. serve malloc release rs (h', p # held) = Some (h'', held') \<and>
          inv h'' A' \<and> fst ` A' = set held' \<and> distinct held'"
        using Cons.prems by (intro Cons.IH [OF k(2)]) auto
      then show ?thesis using False m Request by simp
    qed
  next
    case (Release i)
    show ?thesis
    proof (cases "i < length held")
      case True
      then have "held ! i \<in> fst ` A" using Cons.prems(2) by simp
      then obtain n where n: "(held ! i, n) \<in> A" by force
      then obtain h' where h': "release (held ! i) h = Some h'" "inv h' (A - {(held ! i, n)})"
        using release_law [OF Cons.prems(1)] by blast
      have split: "held = take i held @ held ! i # drop (Suc i) held"
        using True by (rule id_take_nth_drop)
      have "distinct (take i held @ held ! i # drop (Suc i) held)"
        using Cons.prems(3) by (simp only: split [symmetric])
      then have d: "distinct (take i held @ drop (Suc i) held)"
        "held ! i \<notin> set (take i held @ drop (Suc i) held)"
        by simp_all
      have "set held = set (take i held @ held ! i # drop (Suc i) held)"
        by (simp only: split [symmetric])
      then have "set held = insert (held ! i) (set (take i held @ drop (Suc i) held))" by simp
      moreover have "fst ` (A - {(held ! i, n)}) = fst ` A - {held ! i}"
        by (rule fst_remove) (rule inv_functional [OF Cons.prems(1) _ n])
      ultimately have "fst ` (A - {(held ! i, n)}) = set (take i held @ drop (Suc i) held)"
        using d(2) Cons.prems(2) by auto
      from Cons.IH [OF h'(2) this d(1)] show ?thesis using True Release h'(1) by simp
    next
      case False
      then show ?thesis using Cons.IH [OF Cons.prems] Release by simp
    qed
  qed
qed auto

end

end
