(* ===== verification/Heap_4_Free.thy ===== *)
theory Heap_4_Free
  imports Heap_4 Allocator
begin

text \<open>
  Freeing in \<^verbatim>\<open>heap_4.c\<close>: the block goes back to its place in the address-ordered free list
  and is merged with a free block on either side. The properties of the allocator as a whole
  follow, stated for the contract a client of \<^verbatim>\<open>pvPortMalloc\<close> and \<^verbatim>\<open>vPortFree\<close> relies on.
\<close>

section \<open>Merging with the neighbours\<close>

definition merge_left :: "block list \<Rightarrow> word32 \<Rightarrow> word32 \<Rightarrow> block list \<times> word32 \<times> word32" where
  "merge_left us p n = (if us \<noteq> [] \<and> \<not> snd (snd (last us))
     then (butlast us, fst (last us), fst (snd (last us)) + n) else (us, p, n))"

definition merge_right :: "word32 \<Rightarrow> block list \<Rightarrow> word32 \<times> block list" where
  "merge_right n vs = (if vs \<noteq> [] \<and> \<not> snd (snd (hd vs)) then (n + fst (snd (hd vs)), tl vs) else (n, vs))"

definition merge :: "block list \<Rightarrow> word32 \<Rightarrow> word32 \<Rightarrow> block list \<Rightarrow> block list" where
  "merge us p n vs =
     (case merge_left us p n of (us', b, m) \<Rightarrow>
        case merge_right m vs of (m', vs') \<Rightarrow> us' @ (b, m', False) # vs')"

lemma insert_place_chain:
  "chain h a ps q \<Longrightarrow> (\<And>r. r \<in> set ps \<Longrightarrow> r < b) \<Longrightarrow> \<not> q < b \<Longrightarrow> insert_place h b a = Some (last (a # ps))"
proof (induction ps arbitrary: a)
  case Nil
  then show ?case by (subst insert_place.simps) simp
next
  case (Cons r ps)
  have "insert_place h b r = Some (last (r # ps))"
    using Cons.prems by (intro Cons.IH) auto
  then show ?case using Cons.prems by (subst insert_place.simps) simp
qed

lemma insert_at_eq:
  assumes "a \<noteq> p" and x: "x = pxNextFreeBlock (blk h a)" "x \<noteq> a" "x \<noteq> p"
    and L: "L \<longleftrightarrow> a + xBlockSize (blk h a) = p"
    and R: "R \<longleftrightarrow> p + xBlockSize (blk h p) = x \<and> x \<noteq> pxEnd h"
    and b: "b = (if L then a else p)"
  shows "xBlockSize (blk (insert_at a p h) b) =
      (if L then xBlockSize (blk h a) else 0) + xBlockSize (blk h p) + (if R then xBlockSize (blk h x) else 0)"
    "pxNextFreeBlock (blk (insert_at a p h) b) = (if R then pxNextFreeBlock (blk h x) else x)"
    "\<not> L \<Longrightarrow> pxNextFreeBlock (blk (insert_at a p h) a) = p"
    "\<not> L \<Longrightarrow> xBlockSize (blk (insert_at a p h) a) = xBlockSize (blk h a)"
    "q \<noteq> a \<Longrightarrow> q \<noteq> p \<Longrightarrow> blk (insert_at a p h) q = blk h q"
    "pxEnd (insert_at a p h) = pxEnd h" "xFreeBytesRemaining (insert_at a p h) = xFreeBytesRemaining h"
    "xMinimumEverFreeBytesRemaining (insert_at a p h) = xMinimumEverFreeBytesRemaining h"
    "L \<Longrightarrow> blk (insert_at a p h) p = blk h p"
proof -
  show "xBlockSize (blk (insert_at a p h) b) =
      (if L then xBlockSize (blk h a) else 0) + xBlockSize (blk h p) + (if R then xBlockSize (blk h x) else 0)"
    "pxNextFreeBlock (blk (insert_at a p h) b) = (if R then pxNextFreeBlock (blk h x) else x)"
    using assms by (auto simp: insert_at_def set_size_def set_next_free_def Let_def add.assoc)
  show "\<not> L \<Longrightarrow> pxNextFreeBlock (blk (insert_at a p h) a) = p"
    "\<not> L \<Longrightarrow> xBlockSize (blk (insert_at a p h) a) = xBlockSize (blk h a)"
    "q \<noteq> a \<Longrightarrow> q \<noteq> p \<Longrightarrow> blk (insert_at a p h) q = blk h q"
    "pxEnd (insert_at a p h) = pxEnd h" "xFreeBytesRemaining (insert_at a p h) = xFreeBytesRemaining h"
    "xMinimumEverFreeBytesRemaining (insert_at a p h) = xMinimumEverFreeBytesRemaining h"
    "L \<Longrightarrow> blk (insert_at a p h) p = blk h p"
    using assms(1) L by (auto simp: insert_at_def set_size_def set_next_free_def Let_def)
qed

lemma adjacent_last:
  assumes "layout s us p" "(a, m, f) \<in> set us" "a + m = p"
  shows "\<exists>us'. us = us' @ [(a, m, f)]"
proof -
  obtain us1 us2 where us: "us = us1 @ (a, m, f) # us2" using assms(2) by (meson split_list)
  then have "layout p us2 p" using layout_split(2) assms(1,3) by blast
  then have "us2 = []"
  proof (cases us2)
    case (Cons d ds)
    obtain q k g where d: "d = (q, k, g)" by (cases d)
    with Cons \<open>layout p us2 p\<close> have "p < p + k" "p + k \<le> p" by (auto dest: layout_le)
    then show ?thesis by simp
  qed simp
  then show ?thesis using us by simp
qed

text \<open>
  The shape of the merge: the blocks kept on either side, and the merged block, which spans
  the same addresses as the blocks it replaces.
\<close>

lemma merge_left_cases:
  assumes "layout s us p" "p < p + n" "merge_left us p n = (us', b, m)"
  obtains k where "us = us' @ [(b, k, False)]" "b + k = p" "b < p" "m = k + n"
    | "us' = us" "b = p" "m = n" "us = [] \<or> snd (snd (last us))"
proof (cases "us \<noteq> [] \<and> \<not> snd (snd (last us))")
  case True
  then obtain q k where us: "us = butlast us @ [(q, k, False)]"
    by (metis append_butlast_last_id prod.collapse)
  then have "last us = (q, k, False)" by (metis last_snoc)
  then have e: "us' = butlast us" "b = q" "m = k + n"
    using assms(3) True by (simp_all add: merge_left_def)
  have "layout s (butlast us @ [(q, k, False)]) p" using us assms(1) by simp
  then have "q < q + k" "q + k = p" by (auto simp: layout_append)
  then show ?thesis using that(1) [of k] us e by simp
next
  case False
  then show ?thesis using that(2) assms(3) by (auto simp: merge_left_def)
qed

lemma merge_left_layout:
  assumes "layout s us p" "p < p + n" "merge_left us p n = (us', b, m)"
  shows "layout s us' b" "b + m = p + n" "b < b + m" "unat m + free_bytes us' = unat n + free_bytes us"
    "16 dvd unat n \<Longrightarrow> (\<And>q k f. (q, k, f) \<in> set us \<Longrightarrow> 16 dvd unat k) \<Longrightarrow> 16 dvd unat m"
    "16 \<le> n \<Longrightarrow> 16 \<le> m" "set us' \<subseteq> set us"
proof -
  have "layout s us' b \<and> b + m = p + n \<and> b < b + m \<and>
    unat m + free_bytes us' = unat n + free_bytes us \<and>
    (16 dvd unat n \<longrightarrow> (\<forall>q k f. (q, k, f) \<in> set us \<longrightarrow> 16 dvd unat k) \<longrightarrow> 16 dvd unat m) \<and>
    (16 \<le> n \<longrightarrow> 16 \<le> m) \<and> set us' \<subseteq> set us"
    using assms
  proof (cases rule: merge_left_cases)
    case (1 k)
    have bk: "unat p = unat b + unat k" using 1 by (metis unat_plus_simple order_less_imp_le)
    have "unat (p + n) = unat p + unat n"
      using assms(2) by (metis unat_plus_simple order_less_imp_le)
    then have m: "unat m = unat k + unat n"
      unfolding 1(4) using bk unat_word32_less [of "p + n"] by (intro unat_add_no_overflow) simp
    have e: "b + m = p + n" using 1 by (simp add: add.assoc [symmetric])
    have "b < p + n" using 1(3) assms(2) by (rule order.strict_trans)
    moreover have "16 \<le> m" if "16 \<le> n" using that m by (simp add: word_le_nat_alt)
    moreover have "layout s us' b" using assms(1) 1(1) by (auto simp: layout_append)
    moreover have "16 dvd unat m" if "16 dvd unat n" "\<forall>q k f. (q, k, f) \<in> set us \<longrightarrow> 16 dvd unat k"
      using that(1) that(2) [rule_format, of b k False] m 1(1) by simp
    ultimately show ?thesis
      using e m 1(1) by (auto simp: free_append free_Cons)
  qed (use assms in auto)
  then show "layout s us' b" "b + m = p + n" "b < b + m" "unat m + free_bytes us' = unat n + free_bytes us"
    "16 dvd unat n \<Longrightarrow> (\<And>q k f. (q, k, f) \<in> set us \<Longrightarrow> 16 dvd unat k) \<Longrightarrow> 16 dvd unat m"
    "16 \<le> n \<Longrightarrow> 16 \<le> m" "set us' \<subseteq> set us"
    by blast+
qed

lemma merge_right_cases:
  assumes "layout e vs z" "merge_right m vs = (m', vs')"
  obtains k where "vs = (e, k, False) # vs'" "m' = m + k" "e < e + k"
    | "vs' = vs" "m' = m" "vs = [] \<or> snd (snd (hd vs))"
  using assms that by (cases vs) (auto simp: merge_right_def split: if_splits)

lemma merge_right_layout:
  assumes "layout (b + m) vs z" "b < b + m" "merge_right m vs = (m', vs')"
  shows "layout (b + m') vs' z" "b < b + m'" "unat m' + free_bytes vs' = unat m + free_bytes vs"
    "16 dvd unat m \<Longrightarrow> (\<And>q k f. (q, k, f) \<in> set vs \<Longrightarrow> 16 dvd unat k) \<Longrightarrow> 16 dvd unat m'"
    "16 \<le> m \<Longrightarrow> 16 \<le> m'" "set vs' \<subseteq> set vs"
proof -
  have "layout (b + m') vs' z \<and> b < b + m' \<and> unat m' + free_bytes vs' = unat m + free_bytes vs \<and>
    (16 dvd unat m \<longrightarrow> (\<forall>q k f. (q, k, f) \<in> set vs \<longrightarrow> 16 dvd unat k) \<longrightarrow> 16 dvd unat m') \<and>
    (16 \<le> m \<longrightarrow> 16 \<le> m') \<and> set vs' \<subseteq> set vs"
    using assms(1,3)
  proof (cases rule: merge_right_cases)
    case (1 k)
    have bm: "unat (b + m) = unat b + unat m"
      using assms(2) by (metis unat_plus_simple order_less_imp_le)
    have "unat (b + m + k) = unat (b + m) + unat k"
      using 1(3) by (metis unat_plus_simple order_less_imp_le)
    then have m: "unat m' = unat m + unat k"
      unfolding 1(2) using bm unat_word32_less [of "b + m + k"] by (intro unat_add_no_overflow) simp
    have e: "b + m' = b + m + k" using 1(2) by (simp add: add.assoc)
    have "b < b + m + k" using assms(2) 1(3) by (rule order.strict_trans)
    moreover have "16 \<le> m'" if "16 \<le> m" using that m by (simp add: word_le_nat_alt)
    moreover have "16 dvd unat m'" if "16 dvd unat m" "\<forall>q k f. (q, k, f) \<in> set vs \<longrightarrow> 16 dvd unat k"
      using that(1) that(2) [rule_format, of "b + m" k False] m 1(1) by simp
    moreover have "unat m' + free_bytes vs' = unat m + free_bytes vs"
      using m 1(1) by (simp add: free_Cons)
    moreover have "layout (b + m + k) vs' z" "set vs' \<subseteq> set vs" using 1(1) assms(1) by auto
    ultimately show ?thesis by (simp only: e simp_thms) blast
  qed (use assms in auto)
  then show "layout (b + m') vs' z" "b < b + m'" "unat m' + free_bytes vs' = unat m + free_bytes vs"
    "16 dvd unat m \<Longrightarrow> (\<And>q k f. (q, k, f) \<in> set vs \<Longrightarrow> 16 dvd unat k) \<Longrightarrow> 16 dvd unat m'"
    "16 \<le> m \<Longrightarrow> 16 \<le> m'" "set vs' \<subseteq> set vs"
    by blast+
qed

lemma no_adjacent_merge:
  assumes "no_adjacent (us @ (p, n, f) # vs)" "layout s us p" "p < p + n"
    "merge_left us p n = (us', b, m)" "merge_right m vs = (m', vs')"
  shows "no_adjacent (us' @ (b, m', False) # vs')"
proof -
  have "successively (\<or>) (map (snd \<circ> snd) us' @ [False])"
    using assms(2,3,4)
  proof (cases rule: merge_left_cases)
    case 2
    then show ?thesis using assms(1)
      by (cases us rule: rev_cases) (auto simp: no_adjacent_def successively_append_iff)
  qed (use assms(1) in \<open>auto simp: no_adjacent_def successively_append_iff\<close>)
  moreover have "vs' = [] \<or> snd (snd (hd vs'))" "successively (\<or>) (map (snd \<circ> snd) vs')"
    using assms(1,5) by (cases vs; cases vs'; auto simp: merge_right_def no_adjacent_def
        successively_append_iff successively_Cons split: if_splits)+
  ultimately show ?thesis
    by (cases vs') (auto simp: no_adjacent_def successively_append_iff successively_Cons)
qed

section \<open>Freeing a block\<close>

lemma chain_first: "chain h a ps e \<Longrightarrow> pxNextFreeBlock (blk h a) = hd (ps @ [e])"
  by (cases ps) auto

text \<open>The heap that \<^verbatim>\<open>prvInsertBlockIntoFreeList\<close> starts from: the block's mark is gone.\<close>

definition unmarked :: "word32 \<Rightarrow> word32 \<Rightarrow> heap \<Rightarrow> heap" where
  "unmarked p n h = (set_size p n h)\<lparr>xFreeBytesRemaining := xFreeBytesRemaining h + n\<rparr>"

lemma unmarked_simps [simp]:
  "pxNextFreeBlock (blk (unmarked p n h) q) = pxNextFreeBlock (blk h q)"
  "xBlockSize (blk (unmarked p n h) p) = n"
  "q \<noteq> p \<Longrightarrow> blk (unmarked p n h) q = blk h q" "pxEnd (unmarked p n h) = pxEnd h"
  "xFreeBytesRemaining (unmarked p n h) = xFreeBytesRemaining h + n"
  "xMinimumEverFreeBytesRemaining (unmarked p n h) = xMinimumEverFreeBytesRemaining h"
  by (simp_all add: unmarked_def set_size_def)

text \<open>
  The two adjacency tests of the code, on the addresses of the block before and the block
  after in the free list, decide exactly whether the neighbours in the row are free.
\<close>

lemma left_test:
  assumes i: "heap_inv c h (us @ (p, n, True) # vs)" and a: "a = last (xStart c # frees us)"
  shows "a + xBlockSize (blk h a) = p \<longleftrightarrow> us \<noteq> [] \<and> \<not> snd (snd (last us))" (is "?l \<longleftrightarrow> ?r")
    and "us \<noteq> [] \<Longrightarrow> \<not> snd (snd (last us)) \<Longrightarrow> last us = (a, xBlockSize (blk h a), False)"
proof -
  note pf = prev_free [OF i a] and ls = layout_split [OF heap_inv_layout [OF i]]
  show lst: "last us = (a, xBlockSize (blk h a), False)" if ne: "us \<noteq> []" "\<not> snd (snd (last us))"
  proof -
    obtain ws q k where us: "us = ws @ [(q, k, False)]"
      using ne by (cases us rule: rev_cases) auto
    then have "a = q" using a by (simp add: free_append free_Cons)
    moreover have "xBlockSize (blk h q) = k" using block_size(1) [OF i, of q k False] us by simp
    ultimately show ?thesis using us by simp
  qed
  show "?l \<longleftrightarrow> ?r"
  proof
    assume l: ?l
    from pf(1) show ?r
    proof
      assume "a = xStart c"
      then show ?r using l i pf(2) by (simp add: heap_inv_def)
    next
      assume "\<exists>m. (a, m, False) \<in> set us"
      then obtain m where m: "(a, m, False) \<in> set us" by blast
      then have "a + m = p" using l block_size(1) [OF i, of a m False] by simp
      from adjacent_last [OF ls(1) m this] show ?r by auto
    qed
  next
    assume r: ?r
    then obtain ws where "us = ws @ [(a, xBlockSize (blk h a), False)]"
      using lst by (cases us rule: rev_cases) auto
    then show ?l using ls(1) by (auto simp: layout_append)
  qed
qed

lemma right_test:
  assumes i: "heap_inv c h (us @ (p, n, f) # vs)" and x: "x = hd (frees vs @ [pxEnd h])"
  shows "p + n = x \<and> x \<noteq> pxEnd h \<longleftrightarrow> vs \<noteq> [] \<and> \<not> snd (snd (hd vs))"
    and "vs \<noteq> [] \<Longrightarrow> \<not> snd (snd (hd vs)) \<Longrightarrow> hd vs = (x, xBlockSize (blk h x), False)"
proof -
  note ls = layout_split [OF heap_inv_layout [OF i]]
  have "(p + n = x \<and> x \<noteq> pxEnd h \<longleftrightarrow> vs \<noteq> [] \<and> \<not> snd (snd (hd vs))) \<and>
    (vs \<noteq> [] \<longrightarrow> \<not> snd (snd (hd vs)) \<longrightarrow> hd vs = (x, xBlockSize (blk h x), False))"
  proof (cases vs)
    case Nil
    then show ?thesis using x by (simp add: free_Cons)
  next
    case (Cons d ds)
    obtain q k g where d: "d = (q, k, g)" by (cases d)
    have q: "q = p + n" "q < q + k" "layout (q + k) ds (pxEnd h)" using ls(2) Cons d by auto
    have b: "(q, k, g) \<in> set (us @ (p, n, f) # vs)" using Cons d by simp
    show ?thesis
    proof (cases g)
      case True
      then have "x = hd (frees ds @ [pxEnd h])" using x Cons d by (simp add: free_Cons)
      then have "x \<in> set (frees ds) \<or> x = pxEnd h" by (cases "frees ds") auto
      then have "q + k \<le> x"
        using layout_block [OF q(3), of x _ False] layout_le [OF q(3)] by (auto simp: frees_iff)
      then have "p + n \<noteq> x" using q by auto
      then show ?thesis using True Cons d by simp
    next
      case False
      then have "x = q" using x Cons d by (simp add: free_Cons)
      then show ?thesis
        using False Cons d q block_facts(5) [OF i b] block_size(1) [OF i b] by simp
    qed
  qed
  then show "p + n = x \<and> x \<noteq> pxEnd h \<longleftrightarrow> vs \<noteq> [] \<and> \<not> snd (snd (hd vs))"
    "vs \<noteq> [] \<Longrightarrow> \<not> snd (snd (hd vs)) \<Longrightarrow> hd vs = (x, xBlockSize (blk h x), False)" by blast+
qed

lemma frees_merge_right: "merge_right m vs = (m', vs') \<Longrightarrow>
  frees vs = (if vs \<noteq> [] \<and> \<not> snd (snd (hd vs)) then fst (hd vs) # frees vs' else frees vs')"
  by (cases vs) (auto simp: merge_right_def free_Cons split: if_splits)

lemma frees_merge_left: "merge_left us p n = (us', b, m) \<Longrightarrow>
  frees us = (if us \<noteq> [] \<and> \<not> snd (snd (last us)) then frees us' @ [b] else frees us')"
  by (cases us rule: rev_cases) (auto simp: merge_left_def free_Cons free_append split: if_splits)

lemma next_in_row:
  assumes i: "heap_inv c h (us @ (p, n, f) # vs)" and x: "x = hd (frees vs @ [pxEnd h])"
  shows "p < x" "x \<le> pxEnd h"
proof -
  note ls = layout_split [OF heap_inv_layout [OF i]]
  have "x \<in> set (frees vs) \<or> x = pxEnd h" using x by (cases "frees vs") auto
  moreover have "p < q \<and> q \<le> pxEnd h" if q: "q \<in> set (frees vs)" for q
  proof -
    from q obtain k where k: "(q, k, False) \<in> set vs" by (auto simp: frees_iff)
    from layout_block [OF ls(2) k] have "q \<le> pxEnd h" by (meson order_less_imp_le order_trans)
    then show ?thesis using ls(5) [OF k] by simp
  qed
  moreover have "p < pxEnd h"
    using block_facts(2,3) [OF i, of p n f] by (auto intro: less_le_trans)
  ultimately show "p < x" "x \<le> pxEnd h" by auto
qed

lemma free_state:
  assumes i: "heap_inv c h (us @ (p, n, True) # vs)" and a: "a = last (xStart c # frees us)"
    and m: "merge_left us p n = (us', b, m)" "merge_right m vs = (m', vs')"
    and h': "h' = insert_at a p (unmarked p n h)"
  shows "xBlockSize (blk h' b) = m'" "pxNextFreeBlock (blk h' b) = hd (frees vs' @ [pxEnd h])"
    "b = p \<Longrightarrow> pxNextFreeBlock (blk h' a) = p \<and> xBlockSize (blk h' a) = xBlockSize (blk h a)"
    "b \<noteq> p \<Longrightarrow> b = a" "b = p \<longleftrightarrow> us = [] \<or> snd (snd (last us))"
    "\<And>q. q \<noteq> a \<Longrightarrow> q \<noteq> p \<Longrightarrow> blk h' q = blk h q" "pxEnd h' = pxEnd h"
    "xFreeBytesRemaining h' = xFreeBytesRemaining h + n"
    "xMinimumEverFreeBytesRemaining h' = xMinimumEverFreeBytesRemaining h"
    "b \<noteq> p \<Longrightarrow> xBlockSize (blk h' p) = n"
proof -
  define x where x: "x = hd (frees vs @ [pxEnd h])"
  define L R where LR: "L \<longleftrightarrow> us \<noteq> [] \<and> \<not> snd (snd (last us))" "R \<longleftrightarrow> vs \<noteq> [] \<and> \<not> snd (snd (hd vs))"
  let ?h = "unmarked p n h"
  note pf = prev_free [OF i a] and lt = left_test [OF i a] and rt = right_test [OF i x]
    and nr = next_in_row [OF i x]
  have ch: "chain h (xStart c) (frees us @ frees vs) (pxEnd h)"
    using heap_inv_chain [OF i] by (simp add: free_append free_Cons)
  have nx: "x = pxNextFreeBlock (blk ?h a)"
  proof (cases "frees vs")
    case Nil
    then show ?thesis using chain_last_next [OF ch] x a by simp
  next
    case (Cons v ws)
    then have "chain h (xStart c) (frees us) v" using ch by (simp add: chain_append)
    from chain_last_next [OF this] show ?thesis using x a Cons by simp
  qed
  have xa: "x \<noteq> a" using pf(3) [OF order_less_imp_le [OF nr(1)] nr(2)] by simp
  have xp: "x \<noteq> p" using nr(1) by simp
  have L: "L \<longleftrightarrow> a + xBlockSize (blk ?h a) = p" using lt(1) pf(2) by (simp add: LR)
  have R: "R \<longleftrightarrow> p + xBlockSize (blk ?h p) = x \<and> x \<noteq> pxEnd ?h" using rt(1) by (simp add: LR)
  have ll: "L \<Longrightarrow> last us = (a, xBlockSize (blk h a), False)" and rr: "R \<Longrightarrow> hd vs = (x, xBlockSize (blk h x), False)"
    using lt(2) rt(2) unfolding LR by blast+
  have ml: "(us', b, m) = (if L then (butlast us, fst (last us), fst (snd (last us)) + n) else (us, p, n))"
    and mr: "(m', vs') = (if R then (m + fst (snd (hd vs)), tl vs) else (m, vs))"
    using m unfolding merge_left_def merge_right_def LR by (simp_all only:)
  have b: "b = (if L then a else p)" using ml ll by (cases L) simp_all
  note ie = insert_at_eq [OF pf(2) nx xa xp L R b, folded h']
  have szl: "m = (if L then xBlockSize (blk h a) else 0) + n"
    using ml ll by (cases L) simp_all
  have szr: "m' = m + (if R then xBlockSize (blk h x) else 0)"
    using mr rr by (cases R) simp_all
  have uh: "blk ?h a = blk h a" "blk ?h x = blk h x" "xBlockSize (blk ?h p) = n" "pxEnd ?h = pxEnd h"
    using pf(2) xp by simp_all
  show "xBlockSize (blk h' b) = m'" by (simp only: ie(1) uh szl szr)
  have fv: "frees vs = (if R then x # frees vs' else frees vs')"
    using frees_merge_right [OF m(2)] rr unfolding LR(2) [symmetric] by (cases R) simp_all
  have "chain h x (frees vs') (pxEnd h)" if R
    using ch that by (simp add: fv chain_append)
  from chain_first [OF this] have "R \<Longrightarrow> pxNextFreeBlock (blk h x) = hd (frees vs' @ [pxEnd h])" .
  moreover have "\<not> R \<Longrightarrow> x = hd (frees vs' @ [pxEnd h])" using x fv by simp
  ultimately show "pxNextFreeBlock (blk h' b) = hd (frees vs' @ [pxEnd h])"
    by (cases R) (simp_all only: ie(2) uh if_True if_False simp_thms)
  show "b = p \<Longrightarrow> pxNextFreeBlock (blk h' a) = p \<and> xBlockSize (blk h' a) = xBlockSize (blk h a)"
  proof -
    assume "b = p"
    then have "\<not> L" using b pf(2) by (cases L) simp_all
    then show ?thesis using ie(3,4) uh(1) by simp
  qed
  show "b \<noteq> p \<Longrightarrow> b = a" using b by (cases L) simp_all
  show "b = p \<longleftrightarrow> us = [] \<or> snd (snd (last us))"
    using b pf(2) unfolding LR(1) by (cases L) (simp_all add: LR(1))
  show "\<And>q. q \<noteq> a \<Longrightarrow> q \<noteq> p \<Longrightarrow> blk h' q = blk h q"
    using ie(5) unmarked_simps(3) by simp
  show "pxEnd h' = pxEnd h" "xFreeBytesRemaining h' = xFreeBytesRemaining h + n"
    "xMinimumEverFreeBytesRemaining h' = xMinimumEverFreeBytesRemaining h"
    using ie(6-8) by simp_all
  show "b \<noteq> p \<Longrightarrow> xBlockSize (blk h' p) = n" using ie(9) b uh(3) by (cases L) simp_all
qed

lemma chain_cut:
  assumes "pxNextFreeBlock (blk h b) = hd (ps @ [e])" "\<And>q qs. ps = q # qs \<Longrightarrow> chain h q qs e"
  shows "chain h b ps e"
  using assms by (cases ps) auto

lemma free_chain:
  assumes i: "heap_inv c h (us @ (p, n, True) # vs)" and a: "a = last (xStart c # frees us)"
    and m: "merge_left us p n = (us', b, m)" "merge_right m vs = (m', vs')"
    and h': "h' = insert_at a p (unmarked p n h)"
  shows "chain h' (xStart c) (frees us' @ b # frees vs') (pxEnd h)"
proof -
  note st = free_state [OF assms] and pf = prev_free [OF i a]
    and ls = layout_split [OF heap_inv_layout [OF i]]
  have ch: "chain h (xStart c) (frees us @ frees vs) (pxEnd h)"
    using heap_inv_chain [OF i] by (simp add: free_append free_Cons)
  have d: "distinct (xStart c # frees us)"
    using frees_distinct [OF i] by (simp add: free_append)
  have before: "blk h' q = blk h q" if "q \<in> set (xStart c # frees us)" "q \<noteq> a" for q
  proof (rule st(6))
    show "q \<noteq> p"
      using that(1) ls(4) block_facts(4) [OF i, of p n True] by (auto simp: frees_iff)
  qed (fact that(2))
  have after: "blk h' q = blk h q" if q: "q \<in> set (frees vs)" for q
  proof -
    from q obtain k where k: "(q, k, False) \<in> set vs" by (auto simp: frees_iff)
    have "p < q" using ls(5) [OF k] by simp
    moreover have "q \<le> pxEnd h" using layout_block [OF ls(2) k] by (meson order_less_imp_le order_trans)
    ultimately show ?thesis
      using pf(3) [OF order_less_imp_le, of q] less_imp_neq [of p q] by (intro st(6)) auto
  qed
  have "chain h' b (frees vs') (pxEnd h)"
  proof (rule chain_cut [OF st(2)])
    fix q qs assume q: "frees vs' = q # qs"
    have "\<exists>rs. frees vs = rs @ q # qs"
      using frees_merge_right [OF m(2)] q by (auto split: if_splits)
    then obtain rs where rs: "frees vs = rs @ q # qs" by blast
    then have "chain h (xStart c) ((frees us @ rs) @ q # qs) (pxEnd h)" using ch by simp
    then have "chain h q qs (pxEnd h)" by (simp only: chain_append)
    moreover have "chain h' q qs (pxEnd h) = chain h q qs (pxEnd h)"
      by (rule chain_frame) (use after rs in auto)
    ultimately show "chain h' q qs (pxEnd h)" by simp
  qed
  moreover have "chain h' (xStart c) (frees us') b"
  proof (cases "b = p")
    case True
    then have u: "frees us = frees us'" using frees_merge_left [OF m(1)] st(5) by auto
    have "\<exists>z. chain h (xStart c) (frees us) z"
      using ch by (cases "frees vs") (auto simp: chain_append)
    then obtain z where z: "chain h (xStart c) (frees us) z" by blast
    show ?thesis unfolding u [symmetric]
    proof (rule chain_last [OF z d])
      show "pxNextFreeBlock (blk h' (last (xStart c # frees us))) = b"
        using st(3) [OF True] True a by simp
      show "pxNextFreeBlock (blk h' q) = pxNextFreeBlock (blk h q)"
        if q: "q \<in> set (butlast (xStart c # frees us))" for q
        using before [OF in_set_butlastD [OF q]] d q a
        by (metis append_butlast_last_id distinct_append disjoint_iff list.distinct(1) list.set_intros(1))
    qed
  next
    case False
    then have u: "frees us = frees us' @ [b]" using frees_merge_left [OF m(1)] st(5) by auto
    then have "chain h (xStart c) (frees us') b" using ch by (simp add: chain_append)
    moreover have "chain h' (xStart c) (frees us') b = chain h (xStart c) (frees us') b"
    proof (rule chain_frame)
      fix q assume q: "q \<in> set (xStart c # frees us')"
      then have "q \<noteq> a" using u d st(4) [OF False] by auto
      then show "pxNextFreeBlock (blk h' q) = pxNextFreeBlock (blk h q)"
        using before [of q] q u by auto
    qed
    ultimately show ?thesis by simp
  qed
  ultimately show ?thesis by (simp add: chain_append)
qed

lemma free_headers:
  assumes i: "heap_inv c h (us @ (p, n, True) # vs)" and a: "a = last (xStart c # frees us)"
    and m: "merge_left us p n = (us', b, m)" "merge_right m vs = (m', vs')"
    and h': "h' = insert_at a p (unmarked p n h)"
    and d: "d \<in> set (us' @ (b, m', False) # vs')"
  shows "header h' d"
proof -
  note st = free_state [OF i a m h'] and pf = prev_free [OF i a]
    and ls = layout_split [OF heap_inv_layout [OF i]]
  have pb: "(p, n, True) \<in> set (us @ (p, n, True) # vs)" by simp
  note bf = block_facts [OF i pb] and bs = block_size [OF i]
  note ml = merge_left_layout [OF ls(1) bf(2) m(1)]
  have "layout (b + m) vs (pxEnd h)" using ls(2) ml(2) by simp
  note mr = merge_right_layout [OF this ml(3) m(2)]
  have kept: "header h' (q, k, f)" if "(q, k, f) \<in> set us \<or> (q, k, f) \<in> set vs" "q \<noteq> a" for q k f
  proof -
    have "q \<noteq> p" using that(1) ls(4,5) [of q k f] by auto
    with that(2) have "blk h' q = blk h q" by (rule st(6))
    then show ?thesis using heap_inv_header [OF i, of "(q, k, f)"] that(1) by (auto simp: header_def)
  qed
  have u16: "16 dvd unat k" if "(q, k, f) \<in> set us" for q k f
    by (rule bs(3) [of q k f]) (use that in simp)
  have v16: "16 dvd unat k" if "(q, k, f) \<in> set vs" for q k f
    by (rule bs(3) [of q k f]) (use that in simp)
  have "16 dvd unat m" by (rule ml(5)) (rule bs(3) [OF pb], rule u16)
  then have m16: "16 dvd unat m'" by (rule mr(4)) (rule v16)
  have m16': "16 \<le> m'" by (rule mr(5) [OF ml(6) [OF bs(2) [OF pb]]])
  obtain q k f where q: "d = (q, k, f)" by (cases d)
  consider "d = (b, m', False)" | "d \<in> set us'" | "d \<in> set vs'" using d by auto
  then show ?thesis
  proof cases
    case 1
    then show ?thesis using st(1) m16 m16' by (simp add: header_def aligned_iff)
  next
    case 2
    then have u: "(q, k, f) \<in> set us" using ml(7) unfolding q by (rule subsetD [rotated])
    show ?thesis
    proof (cases "q = a")
      case True
      have "b = p"
      proof (rule ccontr)
        assume "b \<noteq> p"
        then have "b = a" by (rule st(4))
        moreover have "q < b"
          using layout_block [OF ml(1), of q k f] 2 q by (auto intro: less_le_trans)
        ultimately show False using True by simp
      qed
      moreover have "\<not> f" using pf(4) [of q k] u True by auto
      ultimately show ?thesis
        using heap_inv_header [OF i, of d] u q True st(3) by (auto simp: header_def)
    next
      case False
      then show ?thesis unfolding q using u by (intro kept disjI1)
    qed
  next
    case 3
    then have v: "(q, k, f) \<in> set vs" using mr(6) unfolding q by (rule subsetD [rotated])
    have "p < q" using ls(5) [OF v] by simp
    moreover have "q \<le> pxEnd h" using layout_block [OF ls(2) v] by (meson order_less_imp_le order_trans)
    ultimately have "q \<noteq> a" using pf(3) [OF order_less_imp_le, of q] by auto
    then show ?thesis unfolding q using v by (intro kept disjI2)
  qed
qed

lemma free_inv:
  assumes i: "heap_inv c h (us @ (p, n, True) # vs)" and a: "a = last (xStart c # frees us)"
    and h': "h' = insert_at a p (unmarked p n h)"
  shows "heap_inv c h' (merge us p n vs)"
    "unat (xFreeBytesRemaining h') = unat (xFreeBytesRemaining h) + unat n"
    "\<not> heapBLOCK_IS_ALLOCATED (blk h' p)"
proof -
  obtain us' b m where m1: "merge_left us p n = (us', b, m)" by (cases "merge_left us p n")
  obtain m' vs' where m2: "merge_right m vs = (m', vs')" by (cases "merge_right m vs")
  note m = m1 m2
  note st = free_state [OF i a m h'] and pf = prev_free [OF i a]
    and ls = layout_split [OF heap_inv_layout [OF i]]
  have pb: "(p, n, True) \<in> set (us @ (p, n, True) # vs)" by simp
  note bf = block_facts [OF i pb] and ml = merge_left_layout [OF ls(1) block_facts(2) [OF i pb] m(1)]
  have "layout (b + m) vs (pxEnd h)" using ls(2) ml(2) by simp
  note mr = merge_right_layout [OF this ml(3) m(2)]
  have mg: "merge us p n vs = us' @ (b, m', False) # vs'" by (simp add: merge_def m)
  have lay: "layout (heap_start c) (merge us p n vs) (pxEnd h)"
    using ml(1) mr(1,2) by (auto simp: mg layout_append)
  have fb: "free_bytes (merge us p n vs) = free_bytes us + unat n + free_bytes vs"
    using ml(4) mr(3) by (simp add: mg free_append free_Cons)
  have old: "unat (xFreeBytesRemaining h) = free_bytes us + free_bytes vs"
    using i by (simp add: heap_inv_def free_append free_Cons)
  have "free_bytes (merge us p n vs) < 4294967296"
    using layout_sum [OF lay] unat_word32_less [of "pxEnd h"] by simp
  then have new: "unat (xFreeBytesRemaining h') = free_bytes (merge us p n vs)"
    using fb old by (simp add: st(8) unat_add_no_overflow)
  then show "unat (xFreeBytesRemaining h') = unat (xFreeBytesRemaining h) + unat n"
    using fb old by simp
  have pe: "p < pxEnd h" using bf(2,3) by (rule less_le_trans)
  have e: "blk h' (pxEnd h) = blk h (pxEnd h)"
    using pf(3) [OF order_less_imp_le [OF pe] order_refl] bf(5) by (intro st(6)) auto
  have s: "xBlockSize (blk h' (xStart c)) = xBlockSize (blk h (xStart c))"
  proof (cases "xStart c = a")
    case True
    have "b = p"
    proof (rule ccontr)
      assume np: "b \<noteq> p"
      then obtain k where "(b, k, False) \<in> set us"
        using merge_left_cases [OF ls(1) bf(2) m(1)] by (metis in_set_conv_decomp)
      then show False using block_facts(4) [OF i, of b k False] st(4) [OF np] True by auto
    qed
    then show ?thesis using st(3) True by simp
  qed (use st(6) bf(4) in auto)
  have "no_adjacent (merge us p n vs)"
    using i unfolding mg
    by (intro no_adjacent_merge [of us p n True, OF _ ls(1) bf(2) m]) (simp add: heap_inv_def)
  moreover have "chain h' (xStart c) (frees (merge us p n vs)) (pxEnd h)"
    using free_chain [OF i a m h'] by (simp add: mg free_append free_Cons)
  ultimately show inv: "heap_inv c h' (merge us p n vs)"
    using i free_headers [OF i a m h'] lay new e s unfolding mg by (simp add: heap_inv_def st(7))
  have "xBlockSize (blk h' p) < 0x80000000"
  proof (cases "b = p")
    case True
    then have "(p, m', False) \<in> set (merge us p n vs)" by (simp add: mg)
    from block_facts(7) [OF inv this] show ?thesis using st(1) True by simp
  qed (simp add: st(10) bf(7))
  then show "\<not> heapBLOCK_IS_ALLOCATED (blk h' p)"
    by (simp add: heapBLOCK_IS_ALLOCATED_def msb_mask)
qed

lemma vPortFree_inv:
  assumes i: "heap_inv c h (us @ (p, n, True) # vs)"
  shows "\<exists>h'. vPortFree c (p + 16) h = Some h' \<and> heap_inv c h' (merge us p n vs) \<and>
    unat (xFreeBytesRemaining h') = unat (xFreeBytesRemaining h) + unat n \<and>
    \<not> heapBLOCK_IS_ALLOCATED (blk h' p)"
proof -
  define a where a: "a = last (xStart c # frees us)"
  let ?h = "unmarked p n h" and ?h' = "insert_at a p (unmarked p n h)"
  have pb: "(p, n, True) \<in> set (us @ (p, n, True) # vs)" by simp
  note bf = block_facts [OF i pb] and bs = block_size [OF i pb] and fi = free_inv [OF i a refl]
    and pf = prev_free [OF i a] and ls = layout_split [OF heap_inv_layout [OF i]]
  have ch: "chain ?h (xStart c) (frees us @ frees vs) (pxEnd h)"
    using heap_inv_chain [OF i] chain_frame [of "xStart c" "frees us @ frees vs" ?h h]
    by (simp add: free_append free_Cons)
  have "insert_place ?h p (xStart c) = Some a"
    unfolding a
  proof (rule insert_place_chain)
    show "chain ?h (xStart c) (frees us) (hd (frees vs @ [pxEnd h]))"
      using ch by (cases "frees vs") (auto simp: chain_append)
    show "r < p" if "r \<in> set (frees us)" for r using that ls(4) by (auto simp: frees_iff)
    show "\<not> hd (frees vs @ [pxEnd h]) < p"
      using next_in_row(1) [OF i refl] by (meson order_less_asym)
  qed
  moreover have "a = xStart c \<or> heapVALIDATE_BLOCK_POINTER c a"
    using pf(1) block_facts(8) [OF i, of a _ False] by auto
  ultimately have ins: "prvInsertBlockIntoFreeList c p ?h = Some ?h'"
    by (auto simp: prvInsertBlockIntoFreeList_def)
  have nz: "p + 16 \<noteq> 0"
    using cut_layout(2,3) [OF bf(2), of 16] bs(2) by auto
  have mark: "heapBLOCK_IS_ALLOCATED (blk h p)"
    using bs(1) allocated_bit(1) [OF bf(7)] by (simp add: heapBLOCK_IS_ALLOCATED_def)
  have un: "(set_size p (xBlockSize (blk h p) AND NOT heapBLOCK_ALLOCATED_BITMASK) h)
      \<lparr>xFreeBytesRemaining := xFreeBytesRemaining h + n\<rparr> = ?h"
    using bs(1) allocated_bit(2) [OF bf(7)] by (simp add: unmarked_def)
  have sz: "(n OR 0x80000000) AND NOT 0x80000000 = n" by (rule allocated_bit(2) [OF bf(7)])
  have "vPortFree c (p + 16) h =
      Some (?h'\<lparr>xNumberOfSuccessfulFrees := xNumberOfSuccessfulFrees ?h' + 1\<rparr>)"
    using nz mark bf(8) bs(1,4) sz ins unfolding unmarked_def
    by (simp add: vPortFree_def Let_def) (simp add: set_size_def)
  moreover have "heap_inv c (?h'\<lparr>xNumberOfSuccessfulFrees := k\<rparr>) ds = heap_inv c ?h' ds" for k ds
  proof -
    have "chain (?h'\<lparr>xNumberOfSuccessfulFrees := k\<rparr>) x ps e = chain ?h' x ps e" for x ps e
      by (rule chain_frame) simp
    then show ?thesis by (simp add: heap_inv_def header_def)
  qed
  ultimately show ?thesis using fi by simp
qed

section \<open>Initialisation\<close>

text \<open>The configurations in which the heap array can hold at least one block.\<close>

definition cfg_ok :: "heap_cfg \<Rightarrow> bool" where
  "cfg_ok c \<longleftrightarrow> ucHeap c \<noteq> 0 \<and> 64 \<le> configTOTAL_HEAP_SIZE c \<and> configTOTAL_HEAP_SIZE c < 0x80000000 \<and>
     unat (ucHeap c) + unat (configTOTAL_HEAP_SIZE c) < 4294967296 \<and>
     \<not> (ucHeap c \<le> xStart c \<and> xStart c < ucHeap c + configTOTAL_HEAP_SIZE c)"

lemma unat_and_not_mask: "unat (x AND NOT portBYTE_ALIGNMENT_MASK) = unat x - unat x mod 16"
proof -
  have "x AND NOT portBYTE_ALIGNMENT_MASK = x - (x AND portBYTE_ALIGNMENT_MASK)"
    using word_plus_and_or [of "x AND NOT portBYTE_ALIGNMENT_MASK" "x AND portBYTE_ALIGNMENT_MASK"]
    by (simp add: bit.conj_disj_distrib [symmetric] and.assoc and.left_commute eq_diff_eq)
  moreover have "x AND portBYTE_ALIGNMENT_MASK \<le> x" by (simp add: word_le_nat_alt unat_and_mask)
  ultimately show ?thesis by (simp add: unat_minus_le unat_and_mask)
qed

lemma heap_start_value:
  assumes "cfg_ok c"
  shows "unat (heap_start c) = (unat (ucHeap c) + 15) div 16 * 16" "16 dvd unat (heap_start c)"
    "ucHeap c \<le> heap_start c" "unat (heap_start c) \<le> unat (ucHeap c) + 15" "heap_start c \<noteq> 0"
proof -
  have b: "unat (ucHeap c) + 64 < 4294967296" "unat (ucHeap c) > 0"
    using assms by (auto simp: cfg_ok_def word_le_nat_alt unat_gt_0)
  have u: "unat (ucHeap c + 15) = unat (ucHeap c) + 15" using b by (simp add: unat_add_no_overflow)
  have r: "v - v mod 16 = v div 16 * 16" for v :: nat by (simp add: minus_mod_eq_div_mult)
  show v: "unat (heap_start c) = (unat (ucHeap c) + 15) div 16 * 16"
  proof (cases "ucHeap c AND portBYTE_ALIGNMENT_MASK = 0")
    case True
    then have "unat (ucHeap c) mod 16 = 0" by (simp add: aligned_iff dvd_eq_mod_eq_0)
    then show ?thesis using True by (simp add: heap_start_def round_up16(1))
  next
    case False
    then have "heap_start c = (ucHeap c + 15) AND NOT portBYTE_ALIGNMENT_MASK"
      by (simp add: heap_start_def)
    then show ?thesis by (simp only: unat_and_not_mask u r)
  qed
  show "16 dvd unat (heap_start c)" unfolding v by simp
  have lo: "unat (ucHeap c) \<le> unat (heap_start c)"
    unfolding v using div_mult_mod_eq [of "unat (ucHeap c) + 15" 16]
      mod_less_divisor [of 16 "unat (ucHeap c) + 15"] by linarith
  then show "ucHeap c \<le> heap_start c" by (simp add: word_le_nat_alt)
  show "unat (heap_start c) \<le> unat (ucHeap c) + 15"
    unfolding v using div_times_less_eq_dividend by blast
  show "heap_start c \<noteq> 0" using lo b(2) by auto
qed

definition heap_end :: "heap_cfg \<Rightarrow> word32" where
  "heap_end c = (ucHeap c + configTOTAL_HEAP_SIZE c - xHeapStructSize) AND NOT portBYTE_ALIGNMENT_MASK"

lemma heap_end_region:
  assumes k: "cfg_ok c"
  shows "region c (heap_end c)" "heap_start c + 16 \<le> heap_end c" "16 dvd unat (heap_end c)"
    "unat (heap_start c + 16) = unat (heap_start c) + 16"
proof -
  let ?t = "unat (ucHeap c) + unat (configTOTAL_HEAP_SIZE c)"
  note hs = heap_start_value [OF k]
  have b: "?t < 4294967296" "64 \<le> unat (configTOTAL_HEAP_SIZE c)" "unat (configTOTAL_HEAP_SIZE c) < 2147483648"
    using k by (simp_all add: cfg_ok_def word_le_nat_alt word_less_nat_alt)
  have t: "unat (ucHeap c + configTOTAL_HEAP_SIZE c) = ?t" using b by (simp add: unat_add_no_overflow)
  have "16 \<le> ucHeap c + configTOTAL_HEAP_SIZE c" using b t by (simp add: word_le_nat_alt)
  then have "unat (ucHeap c + configTOTAL_HEAP_SIZE c - 16) = ?t - 16" using t by (simp add: unat_minus_le)
  then have v: "unat (heap_end c) = (?t - 16) - (?t - 16) mod 16"
    by (simp only: heap_end_def heap_consts unat_and_not_mask)
  have m: "(?t - 16) mod 16 < 16" by simp
  have le: "unat (heap_end c) \<le> ?t - 16" "?t - 16 < unat (heap_end c) + 16" using v m by linarith+
  show "16 dvd unat (heap_end c)" unfolding v by (simp add: minus_mod_eq_div_mult)
  show s16: "unat (heap_start c + 16) = unat (heap_start c) + 16"
    using hs(4) b by (simp add: unat_add_no_overflow)
  show se: "heap_start c + 16 \<le> heap_end c"
    unfolding word_le_nat_alt s16 using hs(4) b le by linarith
  have se': "heap_start c \<le> heap_end c"
    unfolding word_le_nat_alt using hs(4) b le by linarith
  have d: "unat (heap_end c - heap_start c) < 2147483648"
    unfolding unat_minus_le [OF se'] using le b hs(3) by (simp add: word_le_nat_alt)
  have "unat (ucHeap c + (configTOTAL_HEAP_SIZE c - 1)) = ?t - 1"
    using b unat_minus_le [of 1 "configTOTAL_HEAP_SIZE c"]
    by (simp add: word_le_nat_alt unat_add_no_overflow)
  then have top: "heap_end c \<le> ucHeap c + (configTOTAL_HEAP_SIZE c - 1)"
    using le by (simp add: word_le_nat_alt)
  have out: "\<not> (heap_start c \<le> xStart c \<and> xStart c \<le> heap_end c)"
  proof
    assume x: "heap_start c \<le> xStart c \<and> xStart c \<le> heap_end c"
    then have "ucHeap c \<le> xStart c" "xStart c < ucHeap c + configTOTAL_HEAP_SIZE c"
      using hs(3) le b unfolding word_le_nat_alt word_less_nat_alt t by linarith+
    then show False using k by (simp add: cfg_ok_def)
  qed
  show "region c (heap_end c)"
    using hs(2,3,5) se' d top out by (simp add: region_def aligned_iff word_less_nat_alt)
qed

lemma prvHeapInit_inv:
  assumes k: "cfg_ok c"
  shows "heap_inv c (prvHeapInit c h) [(heap_start c, heap_end c - heap_start c, False)]"
    "xMinimumEverFreeBytesRemaining (prvHeapInit c h) = xFreeBytesRemaining (prvHeapInit c h)"
proof -
  let ?s = "heap_start c" and ?e = "heap_end c" and ?h = "prvHeapInit c h"
  note r = heap_end_region [OF k] and hs = heap_start_value [OF k]
  have st: "(if ucHeap c AND portBYTE_ALIGNMENT_MASK \<noteq> 0
      then (ucHeap c + (portBYTE_ALIGNMENT - 1)) AND NOT portBYTE_ALIGNMENT_MASK else ucHeap c) = ?s"
    by (simp only: heap_start_def)
  have en: "(?s + (if ucHeap c AND portBYTE_ALIGNMENT_MASK \<noteq> 0
      then configTOTAL_HEAP_SIZE c - (?s - ucHeap c) else configTOTAL_HEAP_SIZE c) - xHeapStructSize) AND
      NOT portBYTE_ALIGNMENT_MASK = ?e"
  proof (cases "ucHeap c AND portBYTE_ALIGNMENT_MASK = 0")
    case True
    then have "?s = ucHeap c" by (simp add: heap_start_def)
    then show ?thesis using True by (simp add: heap_end_def)
  next
    case False
    then have "?s + (configTOTAL_HEAP_SIZE c - (?s - ucHeap c)) = ucHeap c + configTOTAL_HEAP_SIZE c"
      by simp
    then show ?thesis using False unfolding heap_end_def by (simp only: simp_thms if_True)
  qed
  have ne: "xStart c \<noteq> ?s" "xStart c \<noteq> ?e" using r(1) by (auto simp: region_def)
  have se: "?s < ?e" "?s \<noteq> ?e" "?s \<le> ?e"
  proof -
    show "?s < ?e" using r(2,4) by (simp add: word_le_nat_alt word_less_nat_alt)
    then show "?s \<noteq> ?e" "?s \<le> ?e" by auto
  qed
  define b where "b = blk ?h"
  have f: "pxEnd ?h = ?e" "b (xStart c) = \<lparr>pxNextFreeBlock = ?s, xBlockSize = 0\<rparr>"
    "b ?e = \<lparr>pxNextFreeBlock = 0, xBlockSize = 0\<rparr>"
    "b ?s = \<lparr>pxNextFreeBlock = ?e, xBlockSize = ?e - ?s\<rparr>" "xFreeBytesRemaining ?h = ?e - ?s"
    "xMinimumEverFreeBytesRemaining ?h = ?e - ?s"
    using ne se(2) unfolding b_def prvHeapInit_def st Let_def en
    by (simp_all add: set_size_def set_next_free_def)
  have "16 \<le> ?e - ?s"
    using r(2,4) unat_minus_le [OF se(3)] by (simp add: word_le_nat_alt)
  moreover have "16 dvd unat (?e - ?s)" using aligned_diff [OF r(3) hs(2) se(3)] .
  ultimately show "heap_inv c ?h [(?s, ?e - ?s, False)]"
    using r(1) se f by (simp add: heap_inv_def no_adjacent_def header_def free_Cons b_def [symmetric] aligned_iff)
  show "xMinimumEverFreeBytesRemaining ?h = xFreeBytesRemaining ?h" using f by simp
qed

section \<open>The allocator's contract\<close>

text \<open>The regions of memory handed to the application: address of the data and its length.\<close>

definition live :: "block list \<Rightarrow> (word32 \<times> word32) set" where
  "live bs = {(p + 16, n - 16) | p n. (p, n, True) \<in> set bs}"

lemma live_simps:
  "live (us @ vs) = live us \<union> live vs" "live [] = {}"
  "live ((p, n, f) # bs) = (if f then insert (p + 16, n - 16) (live bs) else live bs)"
  by (auto simp: live_def)

lemma live_block:
  assumes i: "heap_inv c h bs" and b: "(p, n, f) \<in> set bs"
  shows "unat (p + 16) = unat p + 16" "unat (n - 16) = unat n - 16" "16 \<le> unat n"
    "16 dvd unat (p + 16)" "p + 16 \<noteq> 0"
proof -
  note bf = block_facts [OF i b] and bs = block_size [OF i b]
  show n: "16 \<le> unat n" using bs(2) by (simp add: word_le_nat_alt)
  show p: "unat (p + 16) = unat p + 16"
    using bf(9) n unat_word32_less [of "p + n"] unat_add_no_overflow [of p 16] by simp
  show "unat (n - 16) = unat n - 16" using bs(2) by (simp add: unat_minus_le)
  show "16 dvd unat (p + 16)" using aligned_add [OF block_aligned [OF i b], of 16] by simp
  show "p + 16 \<noteq> 0" using p by auto
qed

lemma blocks_disjoint:
  assumes i: "heap_inv c h bs" and "(p, n, f) \<in> set bs" "(q, m, g) \<in> set bs" "(p, n, f) \<noteq> (q, m, g)"
  shows "unat p + unat n \<le> unat q \<or> unat q + unat m \<le> unat p"
proof -
  obtain us vs where bs: "bs = us @ (p, n, f) # vs" using assms(2) by (meson split_list)
  then have "(q, m, g) \<in> set us \<or> (q, m, g) \<in> set vs" using assms(3,4) by auto
  moreover note layout_split(4,5) [OF heap_inv_layout [OF i [unfolded bs]], of q m g]
  moreover note block_facts(9) [OF i assms(2)] block_facts(9) [OF i assms(3)]
  ultimately show ?thesis by (auto simp: word_le_nat_alt)
qed

lemma cut_live: "live (us @ cut_block w p n @ vs) =
    insert (p + 16, (if n - w > 32 then w else n) - 16) (live (us @ (p, n, False) # vs))"
  by (auto simp: live_simps cut_block_def)

text \<open>The state of the manager as a client sees it, before and after the first request.\<close>

definition heap_state :: "heap_cfg \<Rightarrow> heap \<Rightarrow> (word32 \<times> word32) set \<Rightarrow> bool" where
  "heap_state c h A \<longleftrightarrow> (pxEnd h = 0 \<and> A = {} \<and> cfg_ok c) \<or> (\<exists>bs. heap_inv c h bs \<and> A = live bs)"

lemma malloc_uninitialised:
  assumes "cfg_ok c" "pxEnd h = 0"
  shows "pvPortMalloc c x h = pvPortMalloc c x (prvHeapInit c h)"
  using assms(2) end_facts(1) [OF prvHeapInit_inv(1) [OF assms(1)], of h]
  by (simp add: pvPortMalloc_def)

lemma malloc_live:
  assumes i: "heap_inv c h bs"
  shows "\<exists>r h' bs'. pvPortMalloc c x h = Some (r, h') \<and> heap_inv c h' bs' \<and>
    (if r = 0 then live bs' = live bs
     else \<exists>k. x \<le> k \<and> 16 dvd unat r \<and> r \<notin> fst ` live bs \<and> live bs' = insert (r, k) (live bs))"
proof (cases "wanted_size x > 0 \<and> (\<exists>b \<in> set bs. fits (wanted_size x) b)")
  case False
  have "pvPortMalloc c x h = Some (0, h)"
  proof (cases "wanted_size x > 0")
    case True
    then show ?thesis using malloc_none [OF i] False by blast
  next
    case w: False
    then show ?thesis using end_facts(1) [OF i] by (simp add: pvPortMalloc_def Let_def)
  qed
  then show ?thesis using i by auto
next
  case True
  let ?w = "wanted_size x"
  obtain us d vs where bs: "bs = us @ d # vs" "fits ?w d" "\<not> (\<exists>b \<in> set us. fits ?w b)"
    using split_list_first_prop [of bs "fits ?w"] True by blast
  then obtain p n where d: "d = (p, n, False)" "?w \<le> n" by (cases d) (auto simp: fits_def)
  have i': "heap_inv c h (us @ (p, n, False) # vs)" using i bs d by simp
  obtain h' where h': "pvPortMalloc c x h = Some (p + 16, h')"
    "heap_inv c h' (us @ cut_block ?w p n @ vs)"
    using malloc_some [OF i' _ d(2) bs(3)] True by blast
  define k where "k = (if n - ?w > 32 then ?w else n)"
  have b: "(p, k, True) \<in> set (us @ cut_block ?w p n @ vs)" by (simp add: cut_block_def k_def)
  note lb = live_block [OF h'(2) b]
  have "unat ?w \<le> unat k" using d(2) by (simp add: k_def word_le_nat_alt)
  then have "x \<le> k - 16" using wanted_size_pos(3) [of x] True lb(2) by (simp add: word_le_nat_alt)
  moreover have "p + 16 \<notin> fst ` live bs"
  proof
    assume "p + 16 \<in> fst ` live bs"
    then obtain m where m: "(p, m, True) \<in> set bs" by (auto simp: live_def)
    have f: "(p, n, False) \<in> set bs" using bs d by simp
    show False
      using blocks_disjoint [OF i m f] block_size(2) [OF i m] block_size(2) [OF i f]
      by (auto simp: word_le_nat_alt)
  qed
  moreover have "live (us @ cut_block ?w p n @ vs) = insert (p + 16, k - 16) (live bs)"
    using bs(1) d(1) by (simp add: cut_live k_def)
  ultimately show ?thesis
    using h' lb(4,5) by (intro exI [of _ "p + 16"] exI [of _ h'] exI [of _ "us @ cut_block ?w p n @ vs"]) auto
qed

lemma merge_live:
  assumes "layout s us p" "p < p + n" "layout (p + n) vs e"
  shows "live (merge us p n vs) = live us \<union> live vs"
proof -
  obtain us' b m where m1: "merge_left us p n = (us', b, m)" by (cases "merge_left us p n")
  obtain m' vs' where m2: "merge_right m vs = (m', vs')" by (cases "merge_right m vs")
  have "live us' = live us"
    using assms(1,2) m1 by (cases rule: merge_left_cases) (auto simp: live_simps)
  moreover have "live vs' = live vs"
    using assms(3) m2 by (cases rule: merge_right_cases) (auto simp: live_simps)
  ultimately show ?thesis by (simp add: merge_def m1 m2 live_simps)
qed

lemma free_live:
  assumes i: "heap_inv c h bs" and l: "(r, k) \<in> live bs"
  shows "\<exists>h' bs'. vPortFree c r h = Some h' \<and> heap_inv c h' bs' \<and> live bs' = live bs - {(r, k)}"
proof -
  obtain p n where p: "r = p + 16" "k = n - 16" "(p, n, True) \<in> set bs" using l by (auto simp: live_def)
  obtain us vs where bs: "bs = us @ (p, n, True) # vs" using p(3) by (meson split_list)
  note i' = i [unfolded bs]
  note ls = layout_split [OF heap_inv_layout [OF i']]
  obtain h' where h': "vPortFree c r h = Some h'" "heap_inv c h' (merge us p n vs)"
    using vPortFree_inv [OF i'] p(1) by blast
  have "(p + 16, n - 16) \<notin> live us \<union> live vs"
  proof
    assume "(p + 16, n - 16) \<in> live us \<union> live vs"
    then obtain m where "(p, m, True) \<in> set us \<or> (p, m, True) \<in> set vs" by (auto simp: live_def)
    then show False using ls(4,5) [of p m True] by auto
  qed
  then have "live (merge us p n vs) = live bs - {(r, k)}"
    by (auto simp: merge_live [OF ls(1,3,2)] bs live_simps p(1,2))
  then show ?thesis using h' by blast
qed

lemma malloc_state:
  assumes "heap_inv c h bs"
  shows "\<exists>r h'. pvPortMalloc c x h = Some (r, h') \<and>
    (if r = 0 then heap_state c h' (live bs)
     else \<exists>k. x \<le> k \<and> 16 dvd unat r \<and> r \<notin> fst ` live bs \<and> heap_state c h' (insert (r, k) (live bs)))"
proof -
  obtain r h' bs' where m: "pvPortMalloc c x h = Some (r, h')" and i: "heap_inv c h' bs'"
    and l: "if r = 0 then live bs' = live bs
      else \<exists>k. x \<le> k \<and> 16 dvd unat r \<and> r \<notin> fst ` live bs \<and> live bs' = insert (r, k) (live bs)"
    using malloc_live [OF assms, of x] by blast
  have "heap_state c h' (live bs')" using i by (auto simp: heap_state_def)
  then show ?thesis using m l by (cases "r = 0") auto
qed

interpretation h4: allocator "heap_state c" "pvPortMalloc c" "vPortFree c" for c
proof
  fix h A x assume "heap_state c h A"
  then consider "pxEnd h = 0" "A = {}" "cfg_ok c" | bs where "heap_inv c h bs" "A = live bs"
    by (auto simp: heap_state_def)
  then show "\<exists>r h'. pvPortMalloc c x h = Some (r, h') \<and>
      (if r = 0 then heap_state c h' A
       else \<exists>k. x \<le> k \<and> 16 dvd unat r \<and> r \<notin> fst ` A \<and> heap_state c h' (insert (r, k) A))"
  proof cases
    case 1
    have "live [(heap_start c, heap_end c - heap_start c, False)] = A" using 1 by (simp add: live_simps)
    with malloc_state [OF prvHeapInit_inv(1) [OF 1(3), of h], of x] show ?thesis
      unfolding malloc_uninitialised [OF 1(3,1)] by (simp only:)
  next
    case 2
    then show ?thesis using malloc_state [OF 2(1), of x] by (simp only: 2(2))
  qed
next
  fix h A p n q m
  assume s: "heap_state c h A" and a: "(p, n) \<in> A" "(q, m) \<in> A" "(p, n) \<noteq> (q, m)"
  then obtain bs where i: "heap_inv c h bs" "A = live bs" by (auto simp: heap_state_def)
  then obtain p' n' q' m' where b: "(p', n', True) \<in> set bs" "p = p' + 16" "n = n' - 16"
    "(q', m', True) \<in> set bs" "q = q' + 16" "m = m' - 16" using a(1,2) by (auto simp: live_def)
  have "(p', n', True) \<noteq> (q', m', True)" using a(3) b by auto
  from blocks_disjoint [OF i(1) b(1,4) this] show "unat p + unat n \<le> unat q \<or> unat q + unat m \<le> unat p"
    using live_block [OF i(1) b(1)] live_block [OF i(1) b(4)] unfolding b by linarith
next
  fix h A p n assume s: "heap_state c h A" and a: "(p, n) \<in> A"
  then obtain bs where i: "heap_inv c h bs" "A = live bs" by (auto simp: heap_state_def)
  from free_live [OF i(1) a [unfolded i(2)]]
  show "\<exists>h'. vPortFree c p h = Some h' \<and> heap_state c h' (A - {(p, n)})"
    unfolding i(2) heap_state_def by blast
next
  fix h A p n m assume s: "heap_state c h A" and a: "(p, n) \<in> A" "(p, m) \<in> A"
  then obtain bs where i: "heap_inv c h bs" "A = live bs" by (auto simp: heap_state_def)
  then obtain p' n' m' where b: "(p', n', True) \<in> set bs" "n = n' - 16" "(p', m', True) \<in> set bs" "m = m' - 16"
    using a by (auto simp: live_def)
  show "n = m"
    using blocks_disjoint [OF i(1) b(1,3)] live_block(3) [OF i(1) b(1)] live_block(3) [OF i(1) b(3)] b(2,4)
    by (cases "n' = m'") auto
qed

end
