(* ===== verification/Heap_Properties.thy ===== *)
theory Heap_Properties
  imports Heap_4_Free
begin

text \<open>
  The properties of the \<^verbatim>\<open>heap_4.c\<close> allocator, each with a concrete heap on which it applies.
\<close>

section \<open>A small heap\<close>

definition demo_cfg :: heap_cfg where
  "demo_cfg = \<lparr>ucHeap = 0x1008, configTOTAL_HEAP_SIZE = 0x200, xStart = 0x800\<rparr>"

definition blank_heap :: heap where
  "blank_heap = \<lparr>blk = (\<lambda>_. \<lparr>pxNextFreeBlock = 0, xBlockSize = 0\<rparr>), bytes = (\<lambda>_. 1), pxEnd = 0,
     xFreeBytesRemaining = 0, xMinimumEverFreeBytesRemaining = 0,
     xNumberOfSuccessfulAllocations = 0, xNumberOfSuccessfulFrees = 0\<rparr>"

definition demo_heap :: heap where
  "demo_heap = prvHeapInit demo_cfg blank_heap"

lemma demo_ok: "cfg_ok demo_cfg"
  by (simp add: cfg_ok_def demo_cfg_def)

lemma demo_inv: "heap_inv demo_cfg demo_heap [(0x1010, 0x1E0, False)]"
proof -
  have "heap_start demo_cfg = 0x1010" "heap_end demo_cfg - heap_start demo_cfg = 0x1E0" by code_simp+
  then show ?thesis
    using prvHeapInit_inv(1) [OF demo_ok, of blank_heap] by (simp add: demo_heap_def)
qed

lemma demo_wanted: "wanted_size 100 = 0x80" "wanted_size 0x1000 = 0x1010"
  by code_simp+

lemma demo_alloc:
  "\<exists>h'. pvPortMalloc demo_cfg 100 demo_heap = Some (0x1020, h') \<and>
     heap_inv demo_cfg h' [(0x1010, 0x80, True), (0x1090, 0x160, False)]"
proof -
  have c: "cut_block 0x80 0x1010 0x1E0 = [(0x1010, 0x80, True), (0x1090, 0x160, False)]"
    by code_simp
  show ?thesis
    using malloc_some [of demo_cfg demo_heap "[]" "0x1010" "0x1E0" "[]" 100] demo_inv
    by (auto simp: demo_wanted c)
qed

section \<open>Statistics\<close>

lemma stats_loop_chain:
  assumes "chain h a ps (pxEnd h)" "pxEnd h \<notin> set ps"
  shows "stats_loop h (pxNextFreeBlock (blk h a)) (k, mx, mn) =
    Some (k + of_nat (length ps), fold max (map (\<lambda>p. xBlockSize (blk h p)) ps) mx,
      fold min (map (\<lambda>p. xBlockSize (blk h p)) ps) mn)"
  using assms
proof (induction ps arbitrary: a k mx mn)
  case Nil
  then show ?case by (subst stats_loop.simps) simp
next
  case (Cons q qs)
  let ?n = "xBlockSize (blk h q)"
  have ne: "q \<noteq> pxEnd h" using Cons.prems(2) by auto
  have m: "(if ?n > mx then ?n else mx) = max ?n mx" "(if ?n < mn then ?n else mn) = min ?n mn"
    by (auto simp: max_def min_def)
  have "stats_loop h q (k, mx, mn) =
      stats_loop h (pxNextFreeBlock (blk h q)) (k + 1, max ?n mx, min ?n mn)"
    using ne by (subst stats_loop.simps) (simp only: Let_def m not_False_eq_True if_True prod.case simp_thms)
  also have "\<dots> = Some (k + 1 + of_nat (length qs),
      fold max (map (\<lambda>p. xBlockSize (blk h p)) qs) (max ?n mx),
      fold min (map (\<lambda>p. xBlockSize (blk h p)) qs) (min ?n mn))"
    using Cons.prems by (intro Cons.IH) auto
  finally show ?case using Cons.prems by (simp add: ac_simps)
qed

lemma free_sizes:
  assumes "heap_inv c h bs"
  shows "map (\<lambda>p. xBlockSize (blk h p)) (frees bs) = map (\<lambda>(p, n, f). n) (free_blocks bs)"
  unfolding frees_def map_map
proof (rule map_cong [OF refl])
  fix d assume "d \<in> set (free_blocks bs)"
  moreover obtain p n f where "d = (p, n, f)" by (cases d)
  ultimately have "d = (p, n, False)" "(p, n, False) \<in> set bs"
    by (auto simp: free_blocks_def)
  then show "((\<lambda>p. xBlockSize (blk h p)) \<circ> fst) d = (case d of (p, n, f) \<Rightarrow> n)"
    using block_size(1) [OF assms, of p n False] by simp
qed

section \<open>The shape of an allocation\<close>

lemma malloc_shape:
  assumes "heap_inv c h bs"
  shows "if wanted_size x = 0 \<or> \<not> (\<exists>b \<in> set bs. fits (wanted_size x) b)
    then pvPortMalloc c x h = Some (0, h)
    else \<exists>us p n vs h'. bs = us @ (p, n, False) # vs \<and> wanted_size x \<le> n \<and>
      \<not> (\<exists>b \<in> set us. fits (wanted_size x) b) \<and> pvPortMalloc c x h = Some (p + 16, h') \<and>
      heap_inv c h' (us @ cut_block (wanted_size x) p n @ vs) \<and>
      xMinimumEverFreeBytesRemaining h' =
        min (xMinimumEverFreeBytesRemaining h) (xFreeBytesRemaining h')"
proof (cases "wanted_size x = 0 \<or> \<not> (\<exists>b \<in> set bs. fits (wanted_size x) b)")
  case True
  have "pvPortMalloc c x h = Some (0, h)"
  proof (cases "wanted_size x = 0")
    case True
    then show ?thesis using end_facts(1) [OF assms] by (simp add: pvPortMalloc_def Let_def)
  qed (use True malloc_none [OF assms] in blast)
  then show ?thesis using True by simp
next
  case False
  let ?w = "wanted_size x"
  obtain us d vs where bs: "bs = us @ d # vs" "fits ?w d" "\<not> (\<exists>b \<in> set us. fits ?w b)"
    using split_list_first_prop [of bs "fits ?w"] False by blast
  then obtain p n where d: "d = (p, n, False)" "?w \<le> n" by (cases d) (auto simp: fits_def)
  have "?w > 0" using False by (simp add: word_greater_zero_iff)
  from malloc_some [OF assms [unfolded bs(1) d(1)] this d(2) bs(3)] obtain h' where
    "pvPortMalloc c x h = Some (p + 16, h')" "heap_inv c h' (us @ cut_block ?w p n @ vs)"
    "xMinimumEverFreeBytesRemaining h' = min (xMinimumEverFreeBytesRemaining h) (xFreeBytesRemaining h')"
    by blast
  then show ?thesis
    unfolding if_not_P [OF False] using bs d
    by (intro exI [of _ us] exI [of _ p] exI [of _ n] exI [of _ vs] exI [of _ h']) simp
qed

text \<open>Freeing the block that was just cut off undoes the cut.\<close>

lemma merge_cut:
  assumes "no_adjacent (us @ (p, n, False) # vs)" "w \<le> n"
  shows "n - w > 32 \<Longrightarrow> merge us p w ((p + w, n - w, False) # vs) = us @ (p, n, False) # vs"
    "merge us p n vs = us @ (p, n, False) # vs"
proof -
  have l: "us = [] \<or> snd (snd (last us))"
    using assms(1) by (cases us rule: rev_cases)
      (auto simp: no_adjacent_def successively_append_iff)
  have r: "vs = [] \<or> snd (snd (hd vs))"
    using assms(1) by (cases vs) (auto simp: no_adjacent_def successively_append_iff)
  show "n - w > 32 \<Longrightarrow> merge us p w ((p + w, n - w, False) # vs) = us @ (p, n, False) # vs"
    using l by (auto simp: merge_def merge_left_def merge_right_def)
  show "merge us p n vs = us @ (p, n, False) # vs"
    using l r by (auto simp: merge_def merge_left_def merge_right_def)
qed

section \<open>The claims\<close>

text \<open>
  C13. pvPortMalloc returns NULL and changes nothing exactly when the rounded request is
  zero or fits no free block; otherwise it returns the data area of the first free block in
  address order that is large enough, split when the rest exceeds the minimum block, and
  the heap invariant and the low-water mark are kept.
\<close>

theorem heap4_first_fit:
  assumes "heap_inv c h bs"
  shows "if wanted_size x = 0 \<or> \<not> (\<exists>b \<in> set bs. fits (wanted_size x) b)
    then pvPortMalloc c x h = Some (0, h)
    else \<exists>us p n vs h'. bs = us @ (p, n, False) # vs \<and> wanted_size x \<le> n \<and>
      \<not> (\<exists>b \<in> set us. fits (wanted_size x) b) \<and> pvPortMalloc c x h = Some (p + 16, h') \<and>
      heap_inv c h' (us @ cut_block (wanted_size x) p n @ vs) \<and>
      xMinimumEverFreeBytesRemaining h' =
        min (xMinimumEverFreeBytesRemaining h) (xFreeBytesRemaining h')"
  using assms by (rule malloc_shape)

theorem heap4_first_fit_witness:
  "\<exists>h'. pvPortMalloc demo_cfg 100 demo_heap = Some (0x1020, h') \<and>
     pvPortMalloc demo_cfg 0x1000 demo_heap = Some (0, demo_heap)"
  using heap4_first_fit [OF demo_inv, of 100] heap4_first_fit [OF demo_inv, of "0x1000"]
  by (auto simp: demo_wanted fits_def Cons_eq_append_conv)

text \<open>
  C8. From an uninitialised heap in any workable configuration, an application that
  requests memory and releases pointers it holds, in any order, never trips an assertion of
  heap_4: every call returns, and the regions it holds are pairwise disjoint.
\<close>

theorem heap4_session_safe:
  assumes "cfg_ok c" "pxEnd h = 0"
  shows "\<exists>h' held A. serve (pvPortMalloc c) (vPortFree c) rs (h, []) = Some (h', held) \<and>
    distinct held \<and> fst ` A = set held \<and> disjoint_regions A \<and> heap_state c h' A"
proof -
  have "heap_state c h {}" using assms by (simp add: heap_state_def)
  from h4.serve_safe [OF this, of "[]" rs] obtain h' held A where
    "serve (pvPortMalloc c) (vPortFree c) rs (h, []) = Some (h', held)" "heap_state c h' A"
    "fst ` A = set held" "distinct held" by auto
  moreover from this(2) have "disjoint_regions A" by (rule h4.regions)
  ultimately show ?thesis by blast
qed

theorem heap4_session_safe_witness:
  "\<exists>h' held A. serve (pvPortMalloc demo_cfg) (vPortFree demo_cfg)
     [Request 100, Request 50, Release 1, Request 20, Release 0] (blank_heap, []) = Some (h', held) \<and>
   distinct held \<and> disjoint_regions A \<and> heap_state demo_cfg h' A"
proof -
  have "pxEnd blank_heap = 0" by (simp add: blank_heap_def)
  from heap4_session_safe [OF demo_ok this] show ?thesis by blast
qed

text \<open>
  C12. vPortFree of an allocated block returns; the block is merged with its free
  neighbours so that no two free blocks are adjacent, the free byte count grows by its
  size, and freeing the same pointer again fails the allocation assertion.
\<close>

theorem heap4_free_coalesces:
  assumes "heap_inv c h (us @ (p, n, True) # vs)"
  shows "\<exists>h'. vPortFree c (p + 16) h = Some h' \<and> heap_inv c h' (merge us p n vs) \<and>
    no_adjacent (merge us p n vs) \<and>
    unat (xPortGetFreeHeapSize h') = unat (xPortGetFreeHeapSize h) + unat n \<and>
    vPortFree c (p + 16) h' = None"
proof -
  obtain h' where h': "vPortFree c (p + 16) h = Some h'" "heap_inv c h' (merge us p n vs)"
    "unat (xFreeBytesRemaining h') = unat (xFreeBytesRemaining h) + unat n"
    "\<not> heapBLOCK_IS_ALLOCATED (blk h' p)"
    using vPortFree_inv [OF assms] by blast
  have "p + 16 \<noteq> 0" using live_block(5) [OF assms, of p n True] by simp
  then have "vPortFree c (p + 16) h' = None" using h'(4) by (simp add: vPortFree_def)
  moreover have "no_adjacent (merge us p n vs)" using h'(2) by (simp add: heap_inv_def)
  ultimately show ?thesis using h' unfolding xPortGetFreeHeapSize_def by blast
qed

theorem heap4_free_coalesces_witness:
  "\<exists>h h'. pvPortMalloc demo_cfg 100 demo_heap = Some (0x1020, h) \<and>
     vPortFree demo_cfg 0x1020 h = Some h' \<and> heap_inv demo_cfg h' [(0x1010, 0x1E0, False)] \<and>
     vPortFree demo_cfg 0x1020 h' = None"
proof -
  obtain h where h: "pvPortMalloc demo_cfg 100 demo_heap = Some (0x1020, h)"
    "heap_inv demo_cfg h ([] @ (0x1010, 0x80, True) # [(0x1090, 0x160, False)])"
    using demo_alloc by auto
  have "merge [] 0x1010 0x80 [(0x1090, 0x160, False)] = [(0x1010, 0x1E0, False)]" by code_simp
  then show ?thesis using heap4_free_coalesces [OF h(2)] h(1) by auto
qed

text \<open>
  C22. Freeing the pointer that pvPortMalloc just returned restores the row of blocks and
  the number of free bytes exactly.
\<close>

theorem heap4_malloc_free_roundtrip:
  assumes "heap_inv c h bs" "pvPortMalloc c x h = Some (r, h1)" "r \<noteq> 0"
  shows "\<exists>h2. vPortFree c r h1 = Some h2 \<and> heap_inv c h2 bs \<and>
    xPortGetFreeHeapSize h2 = xPortGetFreeHeapSize h"
proof -
  let ?w = "wanted_size x"
  have fit: "\<not> (?w = 0 \<or> \<not> (\<exists>b \<in> set bs. fits ?w b))"
  proof
    assume "?w = 0 \<or> \<not> (\<exists>b \<in> set bs. fits ?w b)"
    from malloc_shape [OF assms(1), of x, unfolded if_P [OF this]] show False using assms(2,3) by simp
  qed
  obtain us p n vs where bs: "bs = us @ (p, n, False) # vs" "?w \<le> n" "r = p + 16"
    "heap_inv c h1 (us @ cut_block ?w p n @ vs)"
    using malloc_shape [OF assms(1), of x] assms(2) unfolding if_not_P [OF fit] by auto
  have na: "no_adjacent (us @ (p, n, False) # vs)" using assms(1) bs(1) by (simp add: heap_inv_def)
  note mc = merge_cut [OF na bs(2)]
  have "\<exists>h2. vPortFree c r h1 = Some h2 \<and> heap_inv c h2 bs"
  proof (cases "n - ?w > 32")
    case True
    then show ?thesis
      using vPortFree_inv [of c h1 us p ?w "(p + ?w, n - ?w, False) # vs"] bs mc(1)
      by (auto simp: cut_block_def)
  next
    case False
    then show ?thesis
      using vPortFree_inv [of c h1 us p n vs] bs mc(2) by (auto simp: cut_block_def)
  qed
  moreover have "xFreeBytesRemaining h2 = xFreeBytesRemaining h" if "heap_inv c h2 bs" for h2
    using that assms(1) by (simp add: heap_inv_def word_unat_eq_iff)
  ultimately show ?thesis unfolding xPortGetFreeHeapSize_def by blast
qed

theorem heap4_malloc_free_roundtrip_witness:
  "\<exists>h1 h2. pvPortMalloc demo_cfg 100 demo_heap = Some (0x1020, h1) \<and>
     vPortFree demo_cfg 0x1020 h1 = Some h2 \<and> heap_inv demo_cfg h2 [(0x1010, 0x1E0, False)]"
proof -
  obtain h1 where h1: "pvPortMalloc demo_cfg 100 demo_heap = Some (0x1020, h1)"
    using demo_alloc by blast
  then show ?thesis using heap4_malloc_free_roundtrip [OF demo_inv h1] by auto
qed



text \<open>
  C29. vPortGetHeapStats returns and reports the number of free blocks, the largest and the
  smallest free block and the free byte count of the heap.
\<close>

theorem heap4_stats:
  assumes "heap_inv c h bs"
  shows "\<exists>st. vPortGetHeapStats c h = Some st \<and>
    xNumberOfFreeBlocks st = of_nat (length (free_blocks bs)) \<and>
    xSizeOfLargestFreeBlockInBytes st = Max (insert 0 ((\<lambda>(p, n, f). n) ` set (free_blocks bs))) \<and>
    xSizeOfSmallestFreeBlockInBytes st =
      Min (insert 0xFFFFFFFF ((\<lambda>(p, n, f). n) ` set (free_blocks bs))) \<and>
    unat (xAvailableHeapSpaceInBytes st) = free_bytes bs"
proof -
  let ?ns = "map (\<lambda>(p, n, f). n) (free_blocks bs)"
  have no: "NOT 0 = (0xFFFFFFFF :: word32)" by simp
  have "pxEnd h \<notin> set (frees bs)" using frees_distinct [OF assms] by simp
  from stats_loop_chain [OF heap_inv_chain [OF assms] this, of 0 0 "NOT 0"]
  have l: "stats_loop h (pxNextFreeBlock (blk h (xStart c))) (0, 0, 0xFFFFFFFF) =
      Some (of_nat (length (free_blocks bs)), fold max ?ns 0, fold min ?ns 0xFFFFFFFF)"
    unfolding free_sizes [OF assms] no by (simp add: frees_def)
  have nz: "pxNextFreeBlock (blk h (xStart c)) \<noteq> 0"
  proof (cases "frees bs")
    case Nil
    then show ?thesis using heap_inv_chain [OF assms] end_facts(1) [OF assms] by simp
  next
    case (Cons q qs)
    then have "q \<in> set (frees bs)" by simp
    then obtain n where "(q, n, False) \<in> set bs" by (auto simp only: frees_iff)
    from block_facts(6) [OF assms this] show ?thesis
      using heap_inv_chain [OF assms] Cons by simp
  qed
  have f: "fold max ?ns 0 = Max (insert 0 ((\<lambda>(p, n, f). n) ` set (free_blocks bs)))"
    "fold min ?ns 0xFFFFFFFF = Min (insert 0xFFFFFFFF ((\<lambda>(p, n, f). n) ` set (free_blocks bs)))"
    using Max.set_eq_fold [of 0 ?ns] Min.set_eq_fold [of "0xFFFFFFFF" ?ns] by simp_all
  show ?thesis
    using assms nz l unfolding vPortGetHeapStats_def f no by (simp add: heap_inv_def Let_def)
qed

theorem heap4_stats_witness:
  "\<exists>st. vPortGetHeapStats demo_cfg demo_heap = Some st \<and> xNumberOfFreeBlocks st = 1 \<and>
     xSizeOfLargestFreeBlockInBytes st = 0x1E0 \<and> xSizeOfSmallestFreeBlockInBytes st = 0x1E0"
  using heap4_stats [OF demo_inv] by (auto simp: free_blocks_def)

end
