(* ===== verification/Kernel_State.thy ===== *)
theory Kernel_State
  imports Kernel_List "HOL-Library.Monad_Syntax"
begin

text \<open>
  The state that \<^verbatim>\<open>tasks.c\<close> keeps, and the list operations it is built from. A task is named
  by its handle; its two list items are in at most one list each. The kernel's lists are
  abstract lists of the previous theory, addressed by name, and every list operation of the
  scheduler is one of five primitives below, which \<open>refines\<close> relates to the pointer code of
  \<^verbatim>\<open>list.c\<close>. The configuration is the single-core, preemptive, time-sliced one of the demo,
  with the optional API functions (\<^verbatim>\<open>INCLUDE_*\<close>), mutexes and task notifications compiled in.
  A failed \<^verbatim>\<open>configASSERT\<close> and the dereference of a null pointer are the result \<open>None\<close>.
\<close>

type_synonym tid = nat

datatype item = StateItem tid | EventItem tid

datatype lid =
    ReadyList word32
  | DelayedTaskList1
  | DelayedTaskList2
  | PendingReadyList
  | TasksWaitingTermination
  | SuspendedTaskList
  | EventList nat

datatype notify_state =
    NotWaitingNotification
  | WaitingNotification
  | NotificationReceived

record TCB =
  uxPriority :: word32
  uxBasePriority :: word32
  uxMutexesHeld :: word32
  ulNotifiedValue :: word32
  ucNotifyState :: notify_state
  ucDelayAborted :: bool

record kernel =
  klists :: "lid \<Rightarrow> item klist"
  container :: "item \<Rightarrow> lid option"
  item_value :: "item \<Rightarrow> word32"
  tcbs :: "tid \<Rightarrow> TCB"
  pxCurrentTCB :: "tid option"
  pxDelayedTaskList :: lid
  pxOverflowDelayedTaskList :: lid
  uxDeletedTasksWaitingCleanUp :: word32
  uxCurrentNumberOfTasks :: word32
  xTickCount :: word32
  uxTopReadyPriority :: word32
  xSchedulerRunning :: bool
  xPendedTicks :: word32
  xYieldPending :: bool
  xNumOfOverflows :: word32
  uxTaskNumber :: word32
  xNextTaskUnblockTime :: word32
  uxSchedulerSuspended :: word32
  freed :: "tid list"

definition configMAX_PRIORITIES :: word32 where
  "configMAX_PRIORITIES = 5"

text \<open>The owner of a list item is the task it is embedded in.\<close>

fun owner_of :: "item \<Rightarrow> tid" where
  "owner_of (StateItem t) = t"
| "owner_of (EventItem t) = t"

subsection \<open>List primitives\<close>

definition init_list :: "lid \<Rightarrow> kernel \<Rightarrow> kernel" where
  "init_list l s = s\<lparr>klists := (klists s)(l := kl_empty)\<rparr>"

definition insert_end :: "lid \<Rightarrow> item \<Rightarrow> kernel \<Rightarrow> kernel" where
  "insert_end l i s = s\<lparr>klists := (klists s)(l := kl_insert_end i (klists s l)),
     container := (container s)(i := Some l)\<rparr>"

definition insert_value :: "lid \<Rightarrow> item \<Rightarrow> kernel \<Rightarrow> kernel" where
  "insert_value l i s = s\<lparr>klists := (klists s)(l := kl_insert (item_value s) i (klists s l)),
     container := (container s)(i := Some l)\<rparr>"

definition list_remove :: "item \<Rightarrow> kernel \<Rightarrow> kernel option" where
  "list_remove i s = (case container s i of None \<Rightarrow> None
     | Some l \<Rightarrow> Some (s\<lparr>klists := (klists s)(l := kl_remove i (klists s l)),
         container := (container s)(i := None)\<rparr>))"

definition next_entry :: "lid \<Rightarrow> kernel \<Rightarrow> tid \<times> kernel" where
  "next_entry l s =
     (let k = kl_next (klists s l) in
      (owner_of (the (kindex k)), s\<lparr>klists := (klists s)(l := k)\<rparr>))"

definition set_value :: "item \<Rightarrow> word32 \<Rightarrow> kernel \<Rightarrow> kernel" where
  "set_value i v s = s\<lparr>item_value := (item_value s)(i := v)\<rparr>"

definition is_empty :: "lid \<Rightarrow> kernel \<Rightarrow> bool" where
  "is_empty l s \<longleftrightarrow> kitems (klists s l) = []"

definition head_entry :: "lid \<Rightarrow> kernel \<Rightarrow> tid" where
  "head_entry l s = owner_of (hd (kitems (klists s l)))"

definition upd_tcb :: "tid \<Rightarrow> (TCB \<Rightarrow> TCB) \<Rightarrow> kernel \<Rightarrow> kernel" where
  "upd_tcb t f s = s\<lparr>tcbs := (tcbs s)(t := f (tcbs s t))\<rparr>"

subsection \<open>Refinement of the list code\<close>

text \<open>
  The pointer store holds the kernel's lists; \<open>addr\<close> gives the address of the TCB behind a
  handle, which the items of that task have as owner.
\<close>

definition refines :: "(tid \<Rightarrow> word32) \<Rightarrow> (item, lid) store \<Rightarrow> kernel \<Rightarrow> bool" where
  "refines addr st s \<longleftrightarrow> reprs st (\<lambda>l. Some (klists s l)) \<and>
     (\<forall>i. xItemValue (nodes st (Item i)) = item_value s i) \<and>
     (\<forall>i. pxContainer (nodes st (Item i)) = container s i) \<and>
     (\<forall>i. pvOwner (nodes st (Item i)) = addr (owner_of i))"

text \<open>What every state of the kernel satisfies of its lists.\<close>

definition lists_ok :: "kernel \<Rightarrow> bool" where
  "lists_ok s \<longleftrightarrow> (\<forall>l. kl_wf (klists s l)) \<and>
     (\<forall>i l. i \<in> set (kitems (klists s l)) \<longleftrightarrow> container s i = Some l)"

lemma set_kl_insert_end [simp]: "set (kitems (kl_insert_end x k)) = insert x (set (kitems k))"
proof -
  have "set (fst (kl_split k) @ snd (kl_split k)) = set (kitems k)"
    by (simp add: kl_split_def del: set_append split: option.split)
  then show ?thesis by (auto simp: kl_insert_end_def)
qed

lemma set_take_drop: "set (takeWhile P xs) \<union> set (dropWhile P xs) = set xs"
  by (metis set_append takeWhile_dropWhile_id)

lemma set_kl_insert [simp]: "set (kitems (kl_insert v x k)) = insert x (set (kitems k))"
  by (simp add: kl_insert_def set_take_drop)

lemma set_kl_remove: "kl_wf k \<Longrightarrow> set (kitems (kl_remove x k)) = set (kitems k) - {x}"
  by (simp add: kl_remove_def kl_wf_def)

lemma distinct_insert_mid:
  "distinct (us @ vs) \<Longrightarrow> x \<notin> set (us @ vs) \<Longrightarrow> distinct (us @ x # vs)"
  by auto

lemma kl_wf_insert_end:
  assumes wf: "kl_wf k" and x: "x \<notin> set (kitems k)"
  shows "kl_wf (kl_insert_end x k)"
proof -
  have k: "fst (kl_split k) @ snd (kl_split k) = kitems k"
    by (simp add: kl_split_def split: option.split)
  have "distinct (fst (kl_split k) @ x # snd (kl_split k))"
    using wf x by (intro distinct_insert_mid) (simp_all add: k kl_wf_def del: set_append distinct_append)
  then have "distinct (kitems (kl_insert_end x k))" by (simp only: kl_insert_end_def) simp
  moreover have "kindex (kl_insert_end x k) = kindex k" by (simp add: kl_insert_end_def)
  ultimately show ?thesis using wf by (simp add: kl_wf_def)
qed

lemma kl_wf_insert:
  assumes wf: "kl_wf k" and x: "x \<notin> set (kitems k)"
  shows "kl_wf (kl_insert v x k)"
proof -
  have "distinct (takeWhile P (kitems k) @ x # dropWhile P (kitems k))" for P
    using wf x by (intro distinct_insert_mid) (simp_all add: kl_wf_def del: set_append distinct_append)
  then have "distinct (kitems (kl_insert v x k))" by (simp only: kl_insert_def) simp
  moreover have "kindex (kl_insert v x k) = kindex k" by (simp add: kl_insert_def)
  ultimately show ?thesis using wf by (simp add: kl_wf_def)
qed

lemma kl_prev_in: "kl_prev x xs = Some y \<Longrightarrow> y \<in> set xs \<and> y \<noteq> x"
proof -
  assume "kl_prev x xs = Some y"
  then have "y \<in> set (takeWhile (\<lambda>y. y \<noteq> x) xs)"
    by (auto simp: kl_prev_def split: list.splits)
  then show ?thesis by (auto dest: set_takeWhileD)
qed

lemma kl_wf_remove: "kl_wf k \<Longrightarrow> kl_wf (kl_remove x k)"
  using kl_prev_in [of x "kitems k"] by (auto simp: kl_wf_def kl_remove_def split: if_splits)

lemma kl_wf_next: "kl_wf k \<Longrightarrow> kl_wf (kl_next k)"
  using kl_round_perm(1) [of k] by (auto simp: kl_wf_def kl_next_def split: list.split)

lemma kl_next_items [simp]: "kitems (kl_next k) = kitems k"
  by (simp add: kl_next_def)

lemma lists_okD:
  assumes "lists_ok s"
  shows "kl_wf (klists s l)" "i \<in> set (kitems (klists s l)) \<longleftrightarrow> container s i = Some l"
  using assms by (simp_all add: lists_ok_def)

lemma lists_ok_insert_end:
  "lists_ok s \<Longrightarrow> container s i = None \<Longrightarrow> lists_ok (insert_end l i s)"
  by (auto simp: lists_ok_def insert_end_def intro!: kl_wf_insert_end)

lemma lists_ok_insert_value:
  "lists_ok s \<Longrightarrow> container s i = None \<Longrightarrow> lists_ok (insert_value l i s)"
  by (auto simp: lists_ok_def insert_value_def intro!: kl_wf_insert)

lemma lists_ok_remove:
  "lists_ok s \<Longrightarrow> list_remove i s = Some s' \<Longrightarrow> lists_ok s'"
  by (auto simp: lists_ok_def list_remove_def set_kl_remove kl_wf_remove split: option.splits if_splits)

lemma lists_ok_next: "lists_ok s \<Longrightarrow> lists_ok (snd (next_entry l s))"
  by (auto simp: lists_ok_def next_entry_def Let_def kl_wf_next)

lemma item_fields [simp]:
  "xItemValue (nodes (set_next p q st) c) = xItemValue (nodes st c)"
  "xItemValue (nodes (set_previous p q st) c) = xItemValue (nodes st c)"
  "xItemValue (nodes (set_container p k st) c) = xItemValue (nodes st c)"
  "xItemValue (nodes (set_number l n st) c) = xItemValue (nodes st c)"
  "xItemValue (nodes (set_index l q st) c) = xItemValue (nodes st c)"
  "pvOwner (nodes (set_next p q st) c) = pvOwner (nodes st c)"
  "pvOwner (nodes (set_previous p q st) c) = pvOwner (nodes st c)"
  "pvOwner (nodes (set_container p k st) c) = pvOwner (nodes st c)"
  "pvOwner (nodes (set_number l n st) c) = pvOwner (nodes st c)"
  "pvOwner (nodes (set_index l q st) c) = pvOwner (nodes st c)"
  "pxContainer (nodes (set_next p q st) c) = pxContainer (nodes st c)"
  "pxContainer (nodes (set_previous p q st) c) = pxContainer (nodes st c)"
  "pxContainer (nodes (set_container p k st) c) = (if c = p then k else pxContainer (nodes st c))"
  "pxContainer (nodes (set_number l n st) c) = pxContainer (nodes st c)"
  "pxContainer (nodes (set_index l q st) c) = pxContainer (nodes st c)"
  by (simp_all add: store_defs)

lemma list_ops_fields:
  "xItemValue (nodes (vListInsertEnd l i st) c) = xItemValue (nodes st c)"
  "pvOwner (nodes (vListInsertEnd l i st) c) = pvOwner (nodes st c)"
  "pxContainer (nodes (vListInsertEnd l i st) c) = (if c = Item i then Some l else pxContainer (nodes st c))"
  "xItemValue (nodes (insert_after l i p st) c) = xItemValue (nodes st c)"
  "pvOwner (nodes (insert_after l i p st) c) = pvOwner (nodes st c)"
  "pxContainer (nodes (insert_after l i p st) c) = (if c = Item i then Some l else pxContainer (nodes st c))"
  "xItemValue (nodes (snd (listGET_OWNER_OF_NEXT_ENTRY l st)) c) = xItemValue (nodes st c)"
  "pvOwner (nodes (snd (listGET_OWNER_OF_NEXT_ENTRY l st)) c) = pvOwner (nodes st c)"
  "pxContainer (nodes (snd (listGET_OWNER_OF_NEXT_ENTRY l st)) c) = pxContainer (nodes st c)"
  by (simp_all add: vListInsertEnd_def insert_after_def listGET_OWNER_OF_NEXT_ENTRY_def Let_def)

lemma vListInsert_fields:
  assumes "vListInsert l i st = Some st'"
  shows "xItemValue (nodes st' c) = xItemValue (nodes st c)" "pvOwner (nodes st' c) = pvOwner (nodes st c)"
    "pxContainer (nodes st' c) = (if c = Item i then Some l else pxContainer (nodes st c))"
  using assms by (auto simp: vListInsert_def Let_def list_ops_fields)

lemma uxListRemove_fields:
  assumes "uxListRemove i st = Some (n, st')"
  shows "xItemValue (nodes st' c) = xItemValue (nodes st c)" "pvOwner (nodes st' c) = pvOwner (nodes st c)"
    "pxContainer (nodes st' c) = (if c = Item i then None else pxContainer (nodes st c))"
  using assms by (auto simp: uxListRemove_def Let_def split: option.splits)

lemma map_upd_some: "(\<lambda>l. Some (f l))(l \<mapsto> k) = (\<lambda>m. Some ((f(l := k)) m))"
  by (rule ext) simp

lemma refines_not_listed:
  "lists_ok s \<Longrightarrow> container s i = None \<Longrightarrow> \<not> listed (\<lambda>l. Some (klists s l)) i"
  by (simp add: listed_def lists_okD(2))

lemma refines_insert_end:
  assumes r: "refines addr st s" and ok: "lists_ok s" and i: "container s i = None"
  shows "refines addr (vListInsertEnd l i st) (insert_end l i s)"
  using kl.ins_end_rep [OF _ _ refines_not_listed [OF ok i], of st l] r
  by (simp add: refines_def insert_end_def list_ops_fields map_upd_some)

lemma refines_insert_value:
  assumes r: "refines addr st s" and ok: "lists_ok s" and i: "container s i = None"
  shows "\<exists>st'. vListInsert l i st = Some st' \<and> refines addr st' (insert_value l i s)"
proof -
  have v: "(\<lambda>y. xItemValue (nodes st (Item y))) = item_value s" using r by (auto simp: refines_def)
  obtain st' where "vListInsert l i st = Some st'"
    "reprs st' ((\<lambda>l. Some (klists s l))(l \<mapsto> kl_insert (item_value s) i (klists s l)))"
    using kl.ins_rep [OF _ _ refines_not_listed [OF ok i], of st l] r
    unfolding v by (auto simp: refines_def)
  then show ?thesis
    using r by (auto simp: refines_def insert_value_def vListInsert_fields map_upd_some)
qed

lemma refines_remove:
  assumes r: "refines addr st s" and ok: "lists_ok s" and s': "list_remove i s = Some s'"
  shows "\<exists>n st'. uxListRemove i st = Some (n, st') \<and> refines addr st' s'"
proof -
  obtain l where l: "container s i = Some l" using s' by (auto simp: list_remove_def split: option.splits)
  then have "i \<in> set (kitems (klists s l))" using lists_okD(2) [OF ok] by blast
  then obtain n st' where "uxListRemove i st = Some (n, st')"
    "reprs st' ((\<lambda>l. Some (klists s l))(l \<mapsto> kl_remove i (klists s l)))"
    using kl.rem_rep [of st "\<lambda>l. Some (klists s l)" l "klists s l" i] r by (auto simp: refines_def)
  then show ?thesis
    using r s' l by (auto simp: refines_def list_remove_def uxListRemove_fields map_upd_some)
qed

lemma kl_next_index: "kl_wf k \<Longrightarrow> kitems k \<noteq> [] \<Longrightarrow> kindex (kl_next k) = Some (hd (kl_round k))"
  using kl_round_perm(3) [of k] by (auto simp: kl_next_def split: list.split)

lemma refines_next:
  assumes r: "refines addr st s" and ok: "lists_ok s" and ne: "\<not> is_empty l s"
  shows "refines addr (snd (listGET_OWNER_OF_NEXT_ENTRY l st)) (snd (next_entry l s))"
    "fst (listGET_OWNER_OF_NEXT_ENTRY l st) = addr (fst (next_entry l s))"
proof -
  have n: "kitems (klists s l) \<noteq> []" using ne by (simp add: is_empty_def)
  have "reprs st (\<lambda>l. Some (klists s l))" using r by (simp add: refines_def)
  note nx = kl.nxt_rep [OF this _ n]
  show "refines addr (snd (listGET_OWNER_OF_NEXT_ENTRY l st)) (snd (next_entry l s))"
    using nx r by (simp add: refines_def next_entry_def Let_def list_ops_fields map_upd_some)
  show "fst (listGET_OWNER_OF_NEXT_ENTRY l st) = addr (fst (next_entry l s))"
    using nx r kl_next_index [OF lists_okD(1) [OF ok] n]
    by (simp add: refines_def next_entry_def Let_def)
qed

section \<open>The invariant of the scheduler\<close>

text \<open>
  State items are in the ready, delayed, suspended and termination lists; event items are in
  the pending ready list and in the event lists of queues and event groups.
\<close>

fun state_list :: "lid \<Rightarrow> bool" where
  "state_list (ReadyList p) = True"
| "state_list DelayedTaskList1 = True"
| "state_list DelayedTaskList2 = True"
| "state_list SuspendedTaskList = True"
| "state_list TasksWaitingTermination = True"
| "state_list PendingReadyList = False"
| "state_list (EventList n) = False"

definition delayed_pair :: "kernel \<Rightarrow> bool" where
  "delayed_pair s \<longleftrightarrow>
     (pxDelayedTaskList s = DelayedTaskList1 \<and> pxOverflowDelayedTaskList s = DelayedTaskList2) \<or>
     (pxDelayedTaskList s = DelayedTaskList2 \<and> pxOverflowDelayedTaskList s = DelayedTaskList1)"

definition delayed_sorted :: "kernel \<Rightarrow> bool" where
  "delayed_sorted s \<longleftrightarrow> (\<forall>l \<in> {DelayedTaskList1, DelayedTaskList2}.
     sorted (map (item_value s) (kitems (klists s l))))"

text \<open>
  A ready task is in the list of its priority, at most the recorded top priority, and a task
  whose event item is in a list is blocked, or ready and on its way through the pending ready
  list. A task in the current delayed list wakes after the
  present tick and not before the recorded next wake time; the wake times in the overflow list
  are below the present tick, to be reached after it has wrapped.
\<close>

abbreviation blocked_lists :: "lid set" where
  "blocked_lists \<equiv> {DelayedTaskList1, DelayedTaskList2, SuspendedTaskList}"

definition task_ok :: "kernel \<Rightarrow> tid \<Rightarrow> bool" where
  "task_ok s t \<longleftrightarrow>
     (\<forall>l. container s (StateItem t) = Some l \<longrightarrow>
        state_list l \<and> uxPriority (tcbs s t) < configMAX_PRIORITIES) \<and>
     (\<forall>p. container s (StateItem t) = Some (ReadyList p) \<longrightarrow>
        p = uxPriority (tcbs s t) \<and> p \<le> uxTopReadyPriority s) \<and>
     (\<forall>l. container s (EventItem t) = Some l \<longrightarrow>
        \<not> state_list l \<and> (container s (StateItem t) \<in> Some ` blocked_lists \<or>
          l = PendingReadyList \<and> (\<exists>p. container s (StateItem t) = Some (ReadyList p))))"

definition core_ok :: "kernel \<Rightarrow> bool" where
  "core_ok s \<longleftrightarrow> lists_ok s \<and> delayed_pair s \<and> delayed_sorted s \<and> (\<forall>t. task_ok s t) \<and>
     uxTopReadyPriority s < configMAX_PRIORITIES"

definition delays_ok :: "kernel \<Rightarrow> bool" where
  "delays_ok s \<longleftrightarrow> (\<forall>t. container s (StateItem t) = Some (pxDelayedTaskList s) \<longrightarrow>
     xTickCount s < item_value s (StateItem t) \<and> xNextTaskUnblockTime s \<le> item_value s (StateItem t))"

definition overflow_ok :: "kernel \<Rightarrow> bool" where
  "overflow_ok s \<longleftrightarrow> (\<forall>t. container s (StateItem t) = Some (pxOverflowDelayedTaskList s) \<longrightarrow>
     item_value s (StateItem t) < xTickCount s)"

definition sched_ok :: "kernel \<Rightarrow> bool" where
  "sched_ok s \<longleftrightarrow> core_ok s \<and> delays_ok s \<and> overflow_ok s"

lemma sched_okD:
  assumes "sched_ok s" shows "core_ok s" "delays_ok s" "overflow_ok s"
  using assms by (simp_all add: sched_ok_def)

lemma core_okD:
  assumes "core_ok s"
  shows "lists_ok s" "delayed_pair s" "delayed_sorted s" "task_ok s t"
    "uxTopReadyPriority s < configMAX_PRIORITIES"
  using assms by (simp_all add: core_ok_def)

lemma delayed_pairD:
  "delayed_pair s \<Longrightarrow> pxDelayedTaskList s \<in> {DelayedTaskList1, DelayedTaskList2}"
  "delayed_pair s \<Longrightarrow> pxOverflowDelayedTaskList s \<in> {DelayedTaskList1, DelayedTaskList2}"
  "delayed_pair s \<Longrightarrow> pxDelayedTaskList s \<noteq> pxOverflowDelayedTaskList s"
  by (auto simp: delayed_pair_def)

lemma kl_insert_sorted:
  "sorted (map v (kitems k)) \<Longrightarrow> sorted (map v (kitems (kl_insert v x k)))" for v :: "'i \<Rightarrow> word32"
proof -
  assume s: "sorted (map v (kitems k))"
  have "sorted (map v (filter P (kitems k)))" for P by (rule sorted_filter) (rule s)
  then show ?thesis
    using takeWhile_sorted [OF s, of "v x"] by (auto simp: kl_insert_def sorted_append)
qed

lemma kl_remove_sorted:
  "sorted (map v (kitems k)) \<Longrightarrow> sorted (map v (kitems (kl_remove x k)))" for v :: "'i \<Rightarrow> word32"
  by (simp add: kl_remove_def sorted_map_remove1)

lemma delayed_sorted_insert_end:
  "delayed_sorted s \<Longrightarrow> l \<notin> {DelayedTaskList1, DelayedTaskList2} \<Longrightarrow> delayed_sorted (insert_end l i s)"
  by (auto simp: delayed_sorted_def insert_end_def)

lemma delayed_sorted_insert_value:
  "delayed_sorted s \<Longrightarrow> delayed_sorted (insert_value l i s)"
  by (simp add: delayed_sorted_def insert_value_def kl_insert_sorted)

lemma delayed_sorted_remove:
  "delayed_sorted s \<Longrightarrow> list_remove i s = Some s' \<Longrightarrow> delayed_sorted s'"
  by (auto simp: delayed_sorted_def list_remove_def kl_remove_sorted split: option.splits)

lemma delayed_sorted_set_value:
  assumes "delayed_sorted s" "lists_ok s" "container s i \<notin> {Some DelayedTaskList1, Some DelayedTaskList2}"
  shows "delayed_sorted (set_value i v s)"
proof -
  have "map ((item_value s)(i := v)) (kitems (klists s l)) = map (item_value s) (kitems (klists s l))"
    if "l \<in> {DelayedTaskList1, DelayedTaskList2}" for l
    using lists_okD(2) [OF assms(2), of i l] assms(3) that by auto
  from this [of DelayedTaskList1] this [of DelayedTaskList2] show ?thesis
    using assms(1) by (simp add: delayed_sorted_def set_value_def del: map_eq_conv)
qed

text \<open>The fields that the list primitives change, and those they do not.\<close>

lemma list_remove_cases:
  assumes "list_remove i s = Some s'"
  obtains l where "container s i = Some l"
    "s' = s\<lparr>klists := (klists s)(l := kl_remove i (klists s l)), container := (container s)(i := None)\<rparr>"
  using assms by (auto simp: list_remove_def split: option.splits)

lemma list_remove_some: "container s i \<noteq> None \<Longrightarrow> \<exists>s'. list_remove i s = Some s'"
  by (auto simp: list_remove_def)

lemma list_remove_container: "list_remove i s = Some s' \<Longrightarrow> container s' = (container s)(i := None)"
  by (auto elim: list_remove_cases)

lemma list_remove_frame [frame_simps]:
  assumes "list_remove i s = Some s'"
  shows "item_value s' = item_value s" "tcbs s' = tcbs s" "pxCurrentTCB s' = pxCurrentTCB s"
    "pxDelayedTaskList s' = pxDelayedTaskList s" "pxOverflowDelayedTaskList s' = pxOverflowDelayedTaskList s"
    "xTickCount s' = xTickCount s" "uxTopReadyPriority s' = uxTopReadyPriority s"
    "xNextTaskUnblockTime s' = xNextTaskUnblockTime s" "uxSchedulerSuspended s' = uxSchedulerSuspended s"
    "xPendedTicks s' = xPendedTicks s" "xYieldPending s' = xYieldPending s"
    "xSchedulerRunning s' = xSchedulerRunning s" "uxCurrentNumberOfTasks s' = uxCurrentNumberOfTasks s"
    "xNumOfOverflows s' = xNumOfOverflows s"
    "uxDeletedTasksWaitingCleanUp s' = uxDeletedTasksWaitingCleanUp s" "uxTaskNumber s' = uxTaskNumber s"
    "freed s' = freed s"
  using assms by (auto elim!: list_remove_cases)

text \<open>Taking an event item out of its list keeps the invariant.\<close>

lemma core_ok_remove_event:
  assumes ok: "core_ok s" and r: "list_remove (EventItem t) s = Some s'"
  shows "core_ok s'"
proof -
  note f = list_remove_frame [OF r] list_remove_container [OF r]
  have "task_ok s' u" for u using core_okD(4) [OF ok, of u] by (auto simp: task_ok_def f)
  then show ?thesis
    using ok lists_ok_remove [OF _ r] delayed_sorted_remove [OF _ r]
    by (simp add: core_ok_def f delayed_pair_def)
qed

lemma insert_end_frame [frame_simps]:
  "container (insert_end l i s) = (container s)(i := Some l)"
  "item_value (insert_end l i s) = item_value s" "tcbs (insert_end l i s) = tcbs s"
  "pxCurrentTCB (insert_end l i s) = pxCurrentTCB s"
  "pxDelayedTaskList (insert_end l i s) = pxDelayedTaskList s"
  "pxOverflowDelayedTaskList (insert_end l i s) = pxOverflowDelayedTaskList s"
  "xTickCount (insert_end l i s) = xTickCount s"
  "uxTopReadyPriority (insert_end l i s) = uxTopReadyPriority s"
  "xNextTaskUnblockTime (insert_end l i s) = xNextTaskUnblockTime s"
  "uxSchedulerSuspended (insert_end l i s) = uxSchedulerSuspended s"
  "xPendedTicks (insert_end l i s) = xPendedTicks s" "xYieldPending (insert_end l i s) = xYieldPending s"
  "xSchedulerRunning (insert_end l i s) = xSchedulerRunning s"
  "uxCurrentNumberOfTasks (insert_end l i s) = uxCurrentNumberOfTasks s"
  "xNumOfOverflows (insert_end l i s) = xNumOfOverflows s"
  "uxDeletedTasksWaitingCleanUp (insert_end l i s) = uxDeletedTasksWaitingCleanUp s"
  "uxTaskNumber (insert_end l i s) = uxTaskNumber s" "freed (insert_end l i s) = freed s"
  by (simp_all add: insert_end_def)

lemma insert_value_frame [frame_simps]:
  "container (insert_value l i s) = (container s)(i := Some l)"
  "item_value (insert_value l i s) = item_value s" "tcbs (insert_value l i s) = tcbs s"
  "pxCurrentTCB (insert_value l i s) = pxCurrentTCB s"
  "pxDelayedTaskList (insert_value l i s) = pxDelayedTaskList s"
  "pxOverflowDelayedTaskList (insert_value l i s) = pxOverflowDelayedTaskList s"
  "xTickCount (insert_value l i s) = xTickCount s"
  "uxTopReadyPriority (insert_value l i s) = uxTopReadyPriority s"
  "xNextTaskUnblockTime (insert_value l i s) = xNextTaskUnblockTime s"
  "uxSchedulerSuspended (insert_value l i s) = uxSchedulerSuspended s"
  "xPendedTicks (insert_value l i s) = xPendedTicks s"
  "xYieldPending (insert_value l i s) = xYieldPending s"
  "xSchedulerRunning (insert_value l i s) = xSchedulerRunning s"
  "uxCurrentNumberOfTasks (insert_value l i s) = uxCurrentNumberOfTasks s"
  "xNumOfOverflows (insert_value l i s) = xNumOfOverflows s"
  "uxDeletedTasksWaitingCleanUp (insert_value l i s) = uxDeletedTasksWaitingCleanUp s"
  "uxTaskNumber (insert_value l i s) = uxTaskNumber s" "freed (insert_value l i s) = freed s"
  by (simp_all add: insert_value_def)

text \<open>
  A task is torn while it is being moved: its state item is in no list, and everything else is
  in order. Putting the item back into a list that fits ends the move.
\<close>

definition torn :: "tid \<Rightarrow> kernel \<Rightarrow> bool" where
  "torn t s \<longleftrightarrow> lists_ok s \<and> delayed_pair s \<and> delayed_sorted s \<and>
     uxTopReadyPriority s < configMAX_PRIORITIES \<and> (\<forall>u. u \<noteq> t \<longrightarrow> task_ok s u) \<and>
     container s (StateItem t) = None \<and> uxPriority (tcbs s t) < configMAX_PRIORITIES \<and>
     (\<forall>e. container s (EventItem t) = Some e \<longrightarrow> \<not> state_list e)"

lemma tornD:
  assumes "torn t s"
  shows "lists_ok s" "delayed_pair s" "container s (StateItem t) = None"
    "uxPriority (tcbs s t) < configMAX_PRIORITIES"
  using assms by (simp_all add: torn_def)

lemma torn_insert_end:
  assumes tn: "torn t s" and l: "state_list l" "l \<notin> {DelayedTaskList1, DelayedTaskList2}"
    and rdy: "\<And>p. l = ReadyList p \<Longrightarrow> p = uxPriority (tcbs s t) \<and> p \<le> uxTopReadyPriority s"
    and ev: "container s (EventItem t) = None \<or> l = SuspendedTaskList \<or>
      container s (EventItem t) = Some PendingReadyList \<and> (\<exists>p. l = ReadyList p)"
  shows "core_ok (insert_end l (StateItem t) s)"
proof -
  have "task_ok (insert_end l (StateItem t) s) u" for u
  proof (cases "u = t")
    case True
    then show ?thesis using tn l rdy ev by (auto simp: task_ok_def torn_def frame_simps)
  next
    case False
    then have "task_ok s u" using tn by (simp add: torn_def)
    then show ?thesis using False by (simp add: task_ok_def frame_simps)
  qed
  then show ?thesis
    using tn l by (simp add: core_ok_def torn_def frame_simps lists_ok_insert_end
        delayed_sorted_insert_end delayed_pair_def)
qed

lemma torn_insert_value:
  assumes tn: "torn t s" and l: "l \<in> {DelayedTaskList1, DelayedTaskList2}"
  shows "core_ok (insert_value l (StateItem t) s)"
proof -
  have "task_ok (insert_value l (StateItem t) s) u" for u
  proof (cases "u = t")
    case True
    then show ?thesis using tn l by (auto simp: task_ok_def torn_def frame_simps)
  next
    case False
    then have "task_ok s u" using tn by (simp add: torn_def)
    then show ?thesis using False by (simp add: task_ok_def frame_simps)
  qed
  then show ?thesis
    using tn by (simp add: core_ok_def torn_def frame_simps lists_ok_insert_value
        delayed_sorted_insert_value delayed_pair_def)
qed

lemma torn_remove_state:
  assumes ok: "core_ok s" and r: "list_remove (StateItem t) s = Some s'"
  shows "torn t s'"
proof -
  note f = list_remove_frame [OF r] list_remove_container [OF r]
  have "lists_ok s'" "delayed_sorted s'"
    using core_okD(1,3) [OF ok] lists_ok_remove [OF _ r] delayed_sorted_remove [OF _ r] by blast+
  moreover have "task_ok s' u" if "u \<noteq> t" for u
    using core_okD(4) [OF ok, of u] that by (simp add: f task_ok_def)
  moreover have "uxPriority (tcbs s' t) < configMAX_PRIORITIES"
    using core_okD(4) [OF ok, of t] r by (auto simp: task_ok_def f elim!: list_remove_cases)
  moreover have "container s (EventItem t) = Some e \<longrightarrow> \<not> state_list e" for e
    using core_okD(4) [OF ok, of t] by (simp add: task_ok_def)
  ultimately show ?thesis
    using core_okD(2,5) [OF ok] by (simp add: torn_def f delayed_pair_def)
qed

lemma torn_remove_event:
  assumes tn: "torn t s" and r: "list_remove (EventItem t) s = Some s'"
  shows "torn t s'"
proof -
  note f = list_remove_frame [OF r] list_remove_container [OF r]
  have "lists_ok s'" "delayed_sorted s'"
    using tn lists_ok_remove [OF _ r] delayed_sorted_remove [OF _ r] by (auto simp: torn_def)
  moreover have "task_ok s' u" if "u \<noteq> t" for u
    using tn that by (auto simp: torn_def f task_ok_def)
  ultimately show ?thesis using tn by (simp add: torn_def f delayed_pair_def)
qed

lemma torn_set_value:
  assumes tn: "torn t s" shows "torn t (set_value (StateItem t) v s)"
proof -
  have "task_ok (set_value (StateItem t) v s) u = task_ok s u" for u
    by (simp add: task_ok_def set_value_def)
  then show ?thesis
    using tn delayed_sorted_set_value [of s "StateItem t" v]
    by (simp add: torn_def) (simp add: set_value_def lists_ok_def delayed_pair_def)
qed

text \<open>The invariant looks at few fields: the others may change freely.\<close>

lemmas core_defs = core_ok_def torn_def lists_ok_def delayed_pair_def delayed_sorted_def task_ok_def

lemma core_ok_xNextTaskUnblockTime [simp]:
  "core_ok (s\<lparr>xNextTaskUnblockTime := v\<rparr>) = core_ok s"
  "torn t (s\<lparr>xNextTaskUnblockTime := v\<rparr>) = torn t s"
  by (simp_all add: core_defs)

lemma core_ok_xTickCount [simp]:
  "core_ok (s\<lparr>xTickCount := v\<rparr>) = core_ok s"
  "torn t (s\<lparr>xTickCount := v\<rparr>) = torn t s"
  by (simp_all add: core_defs)

lemma core_ok_pxCurrentTCB [simp]:
  "core_ok (s\<lparr>pxCurrentTCB := v\<rparr>) = core_ok s"
  "torn t (s\<lparr>pxCurrentTCB := v\<rparr>) = torn t s"
  "sched_ok (s\<lparr>pxCurrentTCB := v\<rparr>) = sched_ok s"
  by (simp_all add: core_defs sched_ok_def delays_ok_def overflow_ok_def)

lemma core_ok_uxDeletedTasksWaitingCleanUp [simp]:
  "core_ok (s\<lparr>uxDeletedTasksWaitingCleanUp := v\<rparr>) = core_ok s"
  "torn t (s\<lparr>uxDeletedTasksWaitingCleanUp := v\<rparr>) = torn t s"
  "sched_ok (s\<lparr>uxDeletedTasksWaitingCleanUp := v\<rparr>) = sched_ok s"
  by (simp_all add: core_defs sched_ok_def delays_ok_def overflow_ok_def)

lemma core_ok_uxCurrentNumberOfTasks [simp]:
  "core_ok (s\<lparr>uxCurrentNumberOfTasks := v\<rparr>) = core_ok s"
  "torn t (s\<lparr>uxCurrentNumberOfTasks := v\<rparr>) = torn t s"
  "sched_ok (s\<lparr>uxCurrentNumberOfTasks := v\<rparr>) = sched_ok s"
  by (simp_all add: core_defs sched_ok_def delays_ok_def overflow_ok_def)

lemma core_ok_xSchedulerRunning [simp]:
  "core_ok (s\<lparr>xSchedulerRunning := v\<rparr>) = core_ok s"
  "torn t (s\<lparr>xSchedulerRunning := v\<rparr>) = torn t s"
  "sched_ok (s\<lparr>xSchedulerRunning := v\<rparr>) = sched_ok s"
  by (simp_all add: core_defs sched_ok_def delays_ok_def overflow_ok_def)

lemma core_ok_xPendedTicks [simp]:
  "core_ok (s\<lparr>xPendedTicks := v\<rparr>) = core_ok s"
  "torn t (s\<lparr>xPendedTicks := v\<rparr>) = torn t s"
  "sched_ok (s\<lparr>xPendedTicks := v\<rparr>) = sched_ok s"
  by (simp_all add: core_defs sched_ok_def delays_ok_def overflow_ok_def)

lemma core_ok_xYieldPending [simp]:
  "core_ok (s\<lparr>xYieldPending := v\<rparr>) = core_ok s"
  "torn t (s\<lparr>xYieldPending := v\<rparr>) = torn t s"
  "sched_ok (s\<lparr>xYieldPending := v\<rparr>) = sched_ok s"
  by (simp_all add: core_defs sched_ok_def delays_ok_def overflow_ok_def)

lemma core_ok_xNumOfOverflows [simp]:
  "core_ok (s\<lparr>xNumOfOverflows := v\<rparr>) = core_ok s"
  "torn t (s\<lparr>xNumOfOverflows := v\<rparr>) = torn t s"
  "sched_ok (s\<lparr>xNumOfOverflows := v\<rparr>) = sched_ok s"
  by (simp_all add: core_defs sched_ok_def delays_ok_def overflow_ok_def)

lemma core_ok_uxTaskNumber [simp]:
  "core_ok (s\<lparr>uxTaskNumber := v\<rparr>) = core_ok s"
  "torn t (s\<lparr>uxTaskNumber := v\<rparr>) = torn t s"
  "sched_ok (s\<lparr>uxTaskNumber := v\<rparr>) = sched_ok s"
  by (simp_all add: core_defs sched_ok_def delays_ok_def overflow_ok_def)

lemma core_ok_uxSchedulerSuspended [simp]:
  "core_ok (s\<lparr>uxSchedulerSuspended := v\<rparr>) = core_ok s"
  "torn t (s\<lparr>uxSchedulerSuspended := v\<rparr>) = torn t s"
  "sched_ok (s\<lparr>uxSchedulerSuspended := v\<rparr>) = sched_ok s"
  by (simp_all add: core_defs sched_ok_def delays_ok_def overflow_ok_def)

lemma core_ok_freed [simp]:
  "core_ok (s\<lparr>freed := v\<rparr>) = core_ok s"
  "torn t (s\<lparr>freed := v\<rparr>) = torn t s"
  "sched_ok (s\<lparr>freed := v\<rparr>) = sched_ok s"
  by (simp_all add: core_defs sched_ok_def delays_ok_def overflow_ok_def)

lemma core_ok_upd_tcb:
  "(\<And>x. uxPriority (f x) = uxPriority x) \<Longrightarrow> core_ok (upd_tcb t f s) = core_ok s"
  "(\<And>x. uxPriority (f x) = uxPriority x) \<Longrightarrow> torn u (upd_tcb t f s) = torn u s"
  "(\<And>x. uxPriority (f x) = uxPriority x) \<Longrightarrow> sched_ok (upd_tcb t f s) = sched_ok s"
proof -
  assume f: "\<And>x. uxPriority (f x) = uxPriority x"
  have p: "uxPriority (tcbs (upd_tcb t f s) u) = uxPriority (tcbs s u)" for u
    by (simp add: upd_tcb_def f)
  have g: "klists (upd_tcb t f s) = klists s" "container (upd_tcb t f s) = container s"
    "item_value (upd_tcb t f s) = item_value s" "uxTopReadyPriority (upd_tcb t f s) = uxTopReadyPriority s"
    "pxDelayedTaskList (upd_tcb t f s) = pxDelayedTaskList s"
    "pxOverflowDelayedTaskList (upd_tcb t f s) = pxOverflowDelayedTaskList s"
    "xTickCount (upd_tcb t f s) = xTickCount s"
    "xNextTaskUnblockTime (upd_tcb t f s) = xNextTaskUnblockTime s"
    by (simp_all add: upd_tcb_def)
  show "core_ok (upd_tcb t f s) = core_ok s" "torn u (upd_tcb t f s) = torn u s"
    by (simp_all add: core_defs p g)
  then show "sched_ok (upd_tcb t f s) = sched_ok s" by (simp add: sched_ok_def delays_ok_def overflow_ok_def g)
qed

end
