(* ===== verification/Queue_Storage.thy ===== *)
theory Queue_Storage
  imports Kernel_State
begin

text \<open>
  The storage of a queue (\<^verbatim>\<open>queue.c\<close>): items are copied byte by byte into a circular buffer
  between \<^verbatim>\<open>pcHead\<close> and \<^verbatim>\<open>pcTail\<close>, with a pointer to the next free slot and a pointer to the
  slot that was last read. \<open>holds\<close> relates the pointers and the memory to the list of queued
  items, and the buffer is shown to be a bounded double-ended queue.
\<close>

section \<open>Memory\<close>

type_synonym memory = "word32 \<Rightarrow> byte"

primrec memcpy_in :: "word32 \<Rightarrow> byte list \<Rightarrow> memory \<Rightarrow> memory" where
  "memcpy_in p [] m = m"
| "memcpy_in p (b # bs) m = memcpy_in (p + 1) bs (m(p := b))"

definition memcpy_out :: "word32 \<Rightarrow> nat \<Rightarrow> memory \<Rightarrow> byte list" where
  "memcpy_out p n m = map (\<lambda>i. m (p + of_nat i)) [0..<n]"

lemma unat_plus_of_nat: "unat p + i < 2 ^ 32 \<Longrightarrow> unat (p + of_nat i :: word32) = unat p + i"
  by (simp add: unat_word_ariths unat_of_nat)

lemma memcpy_in_apply:
  "unat p + length bs \<le> 2 ^ 32 \<Longrightarrow>
   memcpy_in p bs m a = (if unat p \<le> unat a \<and> unat a < unat p + length bs then bs ! (unat a - unat p) else m a)"
proof (induction bs arbitrary: p m)
  case (Cons b bs)
  show ?case
  proof (cases "bs = []")
    case True then show ?thesis by (auto simp: word_unat_eq_iff)
  next
    case False
    then have "unat p + 1 < 2 ^ 32" using Cons.prems by (cases bs) auto
    then have u: "unat (p + 1) = unat p + 1" using unat_plus_of_nat [of p 1] by simp
    have "memcpy_in (p + 1) bs (m(p := b)) a =
        (if unat p + 1 \<le> unat a \<and> unat a < unat p + 1 + length bs then bs ! (unat a - (unat p + 1)) else (m(p := b)) a)"
      by (subst Cons.IH) (use Cons.prems u in simp_all)
    moreover have "a = p \<longleftrightarrow> unat a = unat p" by (simp add: word_unat_eq_iff)
    ultimately show ?thesis unfolding memcpy_in.simps by (auto simp: nth_Cons')
  qed
qed auto

lemma memcpy_out_in:
  assumes "unat p + length bs \<le> 2 ^ 32"
  shows "memcpy_out p (length bs) (memcpy_in p bs m) = bs"
  using assms unat_plus_of_nat [of p] by (intro nth_equalityI) (simp_all add: memcpy_out_def memcpy_in_apply)

lemma memcpy_out_frame:
  assumes "\<And>a. unat p \<le> unat a \<Longrightarrow> unat a < unat p + n \<Longrightarrow> m' a = m a" "unat p + n \<le> 2 ^ 32"
  shows "memcpy_out p n m' = memcpy_out p n m"
  using assms unat_plus_of_nat [of p] by (simp add: memcpy_out_def)

section \<open>The queue structure\<close>

text \<open>
  The pointers and the semaphore data share a union in C; which of them is in use is told by
  \<^verbatim>\<open>pcHead\<close>, which is \<^verbatim>\<open>NULL\<close> for a mutex. The lock counts are signed bytes that stay
  between \<^verbatim>\<open>queueUNLOCKED\<close> (-1) and 127.
\<close>

record Queue_t =
  pcHead :: word32
  pcWriteTo :: word32
  pcTail :: word32
  pcReadFrom :: word32
  xMutexHolder :: "tid option"
  uxRecursiveCallCount :: word32
  uxMessagesWaiting :: word32
  uxLength :: word32
  uxItemSize :: word32
  cRxLock :: int
  cTxLock :: int

datatype copy_position = queueSEND_TO_BACK | queueSEND_TO_FRONT | queueOVERWRITE

definition copy_to_back :: "byte list \<Rightarrow> Queue_t \<Rightarrow> memory \<Rightarrow> memory \<times> Queue_t" where
  "copy_to_back item q m =
     (let m = memcpy_in (pcWriteTo q) item m;
          q = q\<lparr>pcWriteTo := pcWriteTo q + uxItemSize q\<rparr>
      in (m, if pcWriteTo q \<ge> pcTail q then q\<lparr>pcWriteTo := pcHead q\<rparr> else q))"

definition copy_to_front :: "byte list \<Rightarrow> Queue_t \<Rightarrow> memory \<Rightarrow> memory \<times> Queue_t" where
  "copy_to_front item q m =
     (let m = memcpy_in (pcReadFrom q) item m;
          q = q\<lparr>pcReadFrom := pcReadFrom q - uxItemSize q\<rparr>
      in (m, if pcReadFrom q < pcHead q then q\<lparr>pcReadFrom := pcTail q - uxItemSize q\<rparr> else q))"

text \<open>The part of \<^verbatim>\<open>prvCopyDataToQueue\<close> that stores an item: item sizes other than zero.\<close>

definition store_item :: "copy_position \<Rightarrow> byte list \<Rightarrow> memory \<times> Queue_t \<Rightarrow> memory \<times> Queue_t" where
  "store_item xPosition item = (\<lambda>(m, q).
     let n = uxMessagesWaiting q;
         (m, q) = (if xPosition = queueSEND_TO_BACK then copy_to_back item q m else copy_to_front item q m);
         n = (if xPosition = queueOVERWRITE \<and> n > 0 then n - 1 else n)
     in (m, q\<lparr>uxMessagesWaiting := n + 1\<rparr>))"

definition prvCopyDataFromQueue :: "memory \<Rightarrow> Queue_t \<Rightarrow> byte list \<times> Queue_t" where
  "prvCopyDataFromQueue m q =
     (if uxItemSize q \<noteq> 0 then
        let q = q\<lparr>pcReadFrom := pcReadFrom q + uxItemSize q\<rparr>;
            q = (if pcReadFrom q \<ge> pcTail q then q\<lparr>pcReadFrom := pcHead q\<rparr> else q)
        in (memcpy_out (pcReadFrom q) (unat (uxItemSize q)) m, q)
      else ([], q))"

text \<open>What a receive does to the storage, and what a peek reads: the read pointer is put back.\<close>

definition fetch_item :: "memory \<times> Queue_t \<Rightarrow> byte list \<times> memory \<times> Queue_t" where
  "fetch_item = (\<lambda>(m, q). let (x, q) = prvCopyDataFromQueue m q
     in (x, m, q\<lparr>uxMessagesWaiting := uxMessagesWaiting q - 1\<rparr>))"

definition peek_item :: "memory \<times> Queue_t \<Rightarrow> byte list \<times> memory \<times> Queue_t" where
  "peek_item = (\<lambda>(m, q). let pcOriginalReadPosition = pcReadFrom q; (x, q) = prvCopyDataFromQueue m q
     in (x, m, q\<lparr>pcReadFrom := pcOriginalReadPosition\<rparr>))"

section \<open>What the storage holds\<close>

definition slot :: "Queue_t \<Rightarrow> nat \<Rightarrow> word32" where
  "slot q j = pcHead q + of_nat (j * unat (uxItemSize q))"

text \<open>
  The storage lies within the address space, and not so low in it that stepping one item back
  from its start wraps around.
\<close>

definition storage_ok :: "Queue_t \<Rightarrow> bool" where
  "storage_ok q \<longleftrightarrow> uxItemSize q \<noteq> 0 \<and> uxLength q \<noteq> 0 \<and> uxItemSize q \<le> pcHead q \<and>
     unat (pcHead q) + unat (uxLength q) * unat (uxItemSize q) < 2 ^ 32 \<and>
     pcTail q = slot q (unat (uxLength q))"

definition holds :: "memory \<times> Queue_t \<Rightarrow> byte list list \<Rightarrow> bool" where
  "holds = (\<lambda>(m, q) xs. storage_ok q \<and> length xs \<le> unat (uxLength q) \<and>
     uxMessagesWaiting q = of_nat (length xs) \<and>
     (\<exists>r < unat (uxLength q). pcReadFrom q = slot q r \<and>
        pcWriteTo q = slot q ((r + 1 + length xs) mod unat (uxLength q)) \<and>
        (\<forall>j < length xs. memcpy_out (slot q ((r + 1 + j) mod unat (uxLength q))) (unat (uxItemSize q)) m = xs ! j)))"

lemma unat_slot:
  "storage_ok q \<Longrightarrow> j \<le> unat (uxLength q) \<Longrightarrow> unat (slot q j) = unat (pcHead q) + j * unat (uxItemSize q)"
proof -
  assume ok: "storage_ok q" and "j \<le> unat (uxLength q)"
  then have "j * unat (uxItemSize q) \<le> unat (uxLength q) * unat (uxItemSize q)" by (intro mult_le_mono1)
  then show ?thesis unfolding slot_def using ok unfolding storage_ok_def by (intro unat_plus_of_nat) linarith
qed

lemma slot_next:
  assumes ok: "storage_ok q" and j: "j < unat (uxLength q)"
  shows "(if slot q j + uxItemSize q \<ge> pcTail q then pcHead q else slot q j + uxItemSize q) =
    slot q ((j + 1) mod unat (uxLength q))"
proof -
  have s: "slot q j + uxItemSize q = slot q (j + 1)" by (simp add: slot_def)
  have "pcTail q \<le> slot q (j + 1) \<longleftrightarrow> unat (uxLength q) * unat (uxItemSize q) \<le> (j + 1) * unat (uxItemSize q)"
    using ok j unat_slot [OF ok, of "j + 1"] unat_slot [OF ok, of "unat (uxLength q)"]
    by (simp add: storage_ok_def word_le_nat_alt)
  also have "\<dots> \<longleftrightarrow> unat (uxLength q) \<le> j + 1"
    using ok by (simp only: mult_le_cancel2) (simp add: storage_ok_def unat_gt_0)
  finally have "pcTail q \<le> slot q (j + 1) \<longleftrightarrow> unat (uxLength q) \<le> j + 1" .
  moreover have "slot q 0 = pcHead q" by (simp add: slot_def)
  ultimately show ?thesis using j unfolding s by (cases "j + 1 = unat (uxLength q)") auto
qed

lemma slot_prev:
  assumes ok: "storage_ok q" and j: "j < unat (uxLength q)"
  shows "(if slot q j - uxItemSize q < pcHead q then pcTail q - uxItemSize q else slot q j - uxItemSize q) =
    slot q ((j + unat (uxLength q) - 1) mod unat (uxLength q))"
proof (cases j)
  case 0
  have z: "uxItemSize q \<le> pcHead q" "0 < unat (uxItemSize q)" using ok by (simp_all add: storage_ok_def unat_gt_0)
  have "unat (pcHead q - uxItemSize q) < unat (pcHead q)"
    using z unat_minus_le [OF z(1)] by (simp add: word_le_nat_alt)
  then have "slot q 0 - uxItemSize q < pcHead q" by (simp add: slot_def word_less_nat_alt)
  moreover have "pcTail q - uxItemSize q = slot q (unat (uxLength q) - 1)"
  proof -
    obtain l where l: "unat (uxLength q) = Suc l" using j by (cases "unat (uxLength q)") auto
    then show ?thesis using ok by (simp add: storage_ok_def slot_def)
  qed
  ultimately show ?thesis using 0 j by simp
next
  case (Suc i)
  have s: "slot q j - uxItemSize q = slot q i" by (simp add: Suc slot_def)
  have "\<not> slot q i < pcHead q" using ok unat_slot [OF ok, of i] j Suc by (simp add: word_less_nat_alt)
  moreover have "(j + unat (uxLength q) - 1) mod unat (uxLength q) = i" using j Suc by simp
  ultimately show ?thesis by (simp add: s)
qed

lemma slots_apart:
  assumes ok: "storage_ok q" and ij: "i < unat (uxLength q)" "j < unat (uxLength q)" "i \<noteq> j"
    and len: "length x = unat (uxItemSize q)"
  shows "memcpy_out (slot q j) (unat (uxItemSize q)) (memcpy_in (slot q i) x m) =
    memcpy_out (slot q j) (unat (uxItemSize q)) m"
proof -
  have top: "unat (slot q k) + unat (uxItemSize q) < 2 ^ 32" if "k < unat (uxLength q)" for k
  proof -
    have "Suc k * unat (uxItemSize q) \<le> unat (uxLength q) * unat (uxItemSize q)" using that by (intro mult_le_mono1) simp
    then show ?thesis using ok unat_slot [OF ok, of k] that by (simp add: storage_ok_def)
  qed
  have "Suc i * unat (uxItemSize q) \<le> j * unat (uxItemSize q) \<or> Suc j * unat (uxItemSize q) \<le> i * unat (uxItemSize q)"
    using ij(3) by (cases "i < j") (auto intro!: mult_le_mono1 simp del: mult_Suc)
  then have "unat (slot q i) + unat (uxItemSize q) \<le> unat (slot q j) \<or> unat (slot q j) + unat (uxItemSize q) \<le> unat (slot q i)"
    using unat_slot [OF ok] ij by auto
  then show ?thesis
    using top [OF ij(1)] top [OF ij(2)] len by (intro memcpy_out_frame) (auto simp: memcpy_in_apply)
qed

lemma slot_read_back:
  assumes ok: "storage_ok q" and i: "i < unat (uxLength q)" and len: "length x = unat (uxItemSize q)"
  shows "memcpy_out (slot q i) (unat (uxItemSize q)) (memcpy_in (slot q i) x m) = x"
proof -
  have "Suc i * unat (uxItemSize q) \<le> unat (uxLength q) * unat (uxItemSize q)" using i by (intro mult_le_mono1) simp
  then have "unat (slot q i) + length x \<le> 2 ^ 32" using ok unat_slot [OF ok, of i] i len by (simp add: storage_ok_def)
  then show ?thesis using memcpy_out_in [of "slot q i" x m] len by simp
qed

lemma slot_cong [simp]:
  "slot (q\<lparr>pcWriteTo := a\<rparr>) = slot q" "slot (q\<lparr>pcReadFrom := a\<rparr>) = slot q"
  "slot (q\<lparr>uxMessagesWaiting := a\<rparr>) = slot q" "slot (q\<lparr>cRxLock := l\<rparr>) = slot q" "slot (q\<lparr>cTxLock := l\<rparr>) = slot q"
  "storage_ok (q\<lparr>pcWriteTo := a\<rparr>) = storage_ok q" "storage_ok (q\<lparr>pcReadFrom := a\<rparr>) = storage_ok q"
  "storage_ok (q\<lparr>uxMessagesWaiting := a\<rparr>) = storage_ok q" "storage_ok (q\<lparr>cRxLock := l\<rparr>) = storage_ok q"
  "storage_ok (q\<lparr>cTxLock := l\<rparr>) = storage_ok q"
  by (simp_all add: slot_def storage_ok_def fun_eq_iff)

text \<open>The abstract queue: a list of at most as many items as the queue is long.\<close>

fun deque_put :: "copy_position \<Rightarrow> 'a \<Rightarrow> 'a list \<Rightarrow> 'a list" where
  "deque_put queueSEND_TO_BACK x xs = xs @ [x]"
| "deque_put queueSEND_TO_FRONT x xs = x # xs"
| "deque_put queueOVERWRITE x xs = x # tl xs"

lemma mod_apart:
  assumes "i < j" "j < i + n" shows "i mod n \<noteq> j mod (n :: nat)"
proof
  assume "i mod n = j mod n"
  then have "n dvd j - i" using assms by (metis mod_eq_dvd_iff_nat less_imp_le)
  then show False using assms by (auto dest: dvd_imp_le)
qed

lemma holdsE:
  assumes "holds (m, q) xs"
  obtains r where "storage_ok q" "length xs \<le> unat (uxLength q)" "uxMessagesWaiting q = of_nat (length xs)"
    "r < unat (uxLength q)" "pcReadFrom q = slot q r" "pcWriteTo q = slot q ((r + 1 + length xs) mod unat (uxLength q))"
    "\<forall>j < length xs. memcpy_out (slot q ((r + 1 + j) mod unat (uxLength q))) (unat (uxItemSize q)) m = xs ! j"
  using assms by (auto simp: holds_def)

lemma holds_put_back:
  assumes h: "holds (m, q) xs" and x: "length x = unat (uxItemSize q)" and room: "length xs < unat (uxLength q)"
  shows "holds (store_item queueSEND_TO_BACK x (m, q)) (xs @ [x])"
proof -
  let ?n = "unat (uxLength q)" and ?z = "unat (uxItemSize q)"
  from h obtain r where r: "storage_ok q" "uxMessagesWaiting q = of_nat (length xs)" "r < ?n" "pcReadFrom q = slot q r"
    "pcWriteTo q = slot q ((r + 1 + length xs) mod ?n)" "\<forall>j < length xs. memcpy_out (slot q ((r + 1 + j) mod ?n)) ?z m = xs ! j"
    by (rule holdsE)
  let ?w = "(r + 1 + length xs) mod ?n"
  have w: "?w < ?n" using r(3) by simp
  have nx: "(if pcWriteTo q + uxItemSize q \<ge> pcTail q then pcHead q else pcWriteTo q + uxItemSize q) =
      slot q ((r + 1 + Suc (length xs)) mod ?n)"
    unfolding r(5) slot_next [OF r(1) w] by (simp add: mod_Suc_eq)
  have "memcpy_out (slot q ((r + 1 + j) mod ?n)) ?z (memcpy_in (slot q ?w) x m) = (xs @ [x]) ! j" if "j < Suc (length xs)" for j
  proof (cases "j = length xs")
    case True
    then show ?thesis using slot_read_back [OF r(1) w x] by simp
  next
    case False
    then have j: "j < length xs" using that by simp
    have "(r + 1 + j) mod ?n \<noteq> ?w" by (rule mod_apart) (use j room in simp_all)
    then show ?thesis using slots_apart [OF r(1) w _ _ x, of "(r + 1 + j) mod ?n" m] r(3,6) j by (simp add: nth_append)
  qed
  then show ?thesis
    using r(1-4) room nx
    by (auto simp: holds_def store_item_def copy_to_back_def Let_def r(5) intro!: exI [of _ r])
qed

lemma holds_put_front:
  assumes h: "holds (m, q) xs" and x: "length x = unat (uxItemSize q)" and room: "length xs < unat (uxLength q)"
  shows "holds (store_item queueSEND_TO_FRONT x (m, q)) (x # xs)"
proof -
  let ?n = "unat (uxLength q)" and ?z = "unat (uxItemSize q)"
  from h obtain r where r: "storage_ok q" "uxMessagesWaiting q = of_nat (length xs)" "r < ?n" "pcReadFrom q = slot q r"
    "pcWriteTo q = slot q ((r + 1 + length xs) mod ?n)" "\<forall>j < length xs. memcpy_out (slot q ((r + 1 + j) mod ?n)) ?z m = xs ! j"
    by (rule holdsE)
  define r' where "r' = (r + ?n - 1) mod ?n"
  have rot: "(r' + 1 + j) mod ?n = (r + j) mod ?n" for j
  proof -
    have "(r' + (1 + j)) mod ?n = (r + ?n - 1 + (1 + j)) mod ?n" unfolding r'_def by (rule mod_add_left_eq)
    also have "r + ?n - 1 + (1 + j) = r + j + ?n" using r(3) by simp
    also have "\<dots> mod ?n = (r + j) mod ?n" by (rule mod_add_self2)
    finally show ?thesis by (simp only: add.assoc)
  qed
  have "memcpy_out (slot q ((r + j) mod ?n)) ?z (memcpy_in (slot q r) x m) = (x # xs) ! j" if "j < Suc (length xs)" for j
  proof (cases j)
    case 0 then show ?thesis using slot_read_back [OF r(1,3) x] r(3) by simp
  next
    case (Suc i)
    have "r mod ?n \<noteq> (r + j) mod ?n" by (rule mod_apart) (use that room Suc in simp_all)
    then have "memcpy_out (slot q ((r + j) mod ?n)) ?z (memcpy_in (slot q r) x m) = memcpy_out (slot q ((r + j) mod ?n)) ?z m"
      using r(3) by (intro slots_apart [OF r(1,3) _ _ x]) simp_all
    then show ?thesis using r(6) that Suc by simp
  qed
  then have "\<forall>j < Suc (length xs). memcpy_out (slot q ((r' + 1 + j) mod ?n)) ?z (memcpy_in (slot q r) x m) = (x # xs) ! j"
    unfolding rot by blast
  moreover have "(r' + 1 + Suc (length xs)) mod ?n = (r + 1 + length xs) mod ?n" unfolding rot by simp
  moreover have "r' < ?n" using r(3) by (simp add: r'_def)
  ultimately show ?thesis
    using r(1-3,5) room slot_prev [OF r(1,3), folded r'_def]
    by (auto simp: holds_def store_item_def copy_to_front_def Let_def r(4) intro!: exI [of _ r'])
qed

lemma holds_overwrite:
  assumes h: "holds (m, q) xs" and x: "length x = unat (uxItemSize q)" and one: "uxLength q = 1"
  shows "holds (store_item queueOVERWRITE x (m, q)) [x]"
proof -
  from h obtain r where r: "storage_ok q" "length xs \<le> 1" "uxMessagesWaiting q = of_nat (length xs)" "pcReadFrom q = slot q 0"
    "pcWriteTo q = slot q 0"
    by (rule holdsE) (auto simp: one)
  have p: "(if slot q 0 - uxItemSize q < pcHead q then pcTail q - uxItemSize q else slot q 0 - uxItemSize q) = slot q 0"
    using slot_prev [OF r(1), of 0] by (simp add: one)
  have "memcpy_out (slot q 0) (unat (uxItemSize q)) (memcpy_in (slot q 0) x m) = x"
    by (rule slot_read_back [OF r(1) _ x]) (simp add: one)
  moreover have "uxMessagesWaiting q = 0 \<or> uxMessagesWaiting q = 1" using r(2,3) by (cases xs) auto
  ultimately show ?thesis
    using r(1,5) p by (auto simp: holds_def store_item_def copy_to_front_def Let_def r(4) one)
qed

lemma holds_fetch:
  assumes h: "holds (m, q) (x # xs)"
  shows "fst (fetch_item (m, q)) = x" "holds (snd (fetch_item (m, q))) xs"
    "peek_item (m, q) = (x, m, q)"
proof -
  let ?n = "unat (uxLength q)" and ?z = "unat (uxItemSize q)"
  from h obtain r where r: "storage_ok q" "length (x # xs) \<le> ?n" "uxMessagesWaiting q = of_nat (length (x # xs))"
    "r < ?n" "pcReadFrom q = slot q r" "pcWriteTo q = slot q ((r + 1 + length (x # xs)) mod ?n)"
    "\<forall>j < length (x # xs). memcpy_out (slot q ((r + 1 + j) mod ?n)) ?z m = (x # xs) ! j"
    by (rule holdsE)
  have z: "uxItemSize q \<noteq> 0" using r(1) by (simp add: storage_ok_def)
  have c: "prvCopyDataFromQueue m q = (x, q\<lparr>pcReadFrom := slot q ((r + 1) mod ?n)\<rparr>)"
    using z slot_next [OF r(1,4)] r(5,7) by (auto simp: prvCopyDataFromQueue_def Let_def split: if_splits)
  show "fst (fetch_item (m, q)) = x" "peek_item (m, q) = (x, m, q)"
    by (simp_all add: fetch_item_def peek_item_def c Let_def)
  have m: "((r + 1) mod ?n + 1 + j) mod ?n = (r + 1 + Suc j) mod ?n" for j
    using mod_add_left_eq [of "r + 1" ?n "1 + j"] by (simp add: add.assoc)
  have "\<forall>j < length xs. memcpy_out (slot q (((r + 1) mod ?n + 1 + j) mod ?n)) ?z m = xs ! j"
    using r(7) unfolding m by auto
  moreover have "pcWriteTo q = slot q (((r + 1) mod ?n + 1 + length xs) mod ?n)" using r(6) unfolding m by simp
  ultimately show "holds (snd (fetch_item (m, q))) xs"
    using r(1-4) by (auto simp: holds_def fetch_item_def c Let_def intro!: exI [of _ "(r + 1) mod ?n"])
qed

section \<open>The storage is a bounded double-ended queue\<close>

datatype 'a deque_op = Put copy_position 'a | Get | Peek

text \<open>
  What a caller that does not wait sees of a queue of a given capacity: whether the operation
  was possible, and the item it returned.
\<close>

fun deque_step :: "nat \<Rightarrow> 'a deque_op \<Rightarrow> 'a list \<Rightarrow> (bool \<times> 'a option) \<times> 'a list" where
  "deque_step n (Put pos x) xs =
     (if length xs < n \<or> pos = queueOVERWRITE then ((True, None), deque_put pos x xs) else ((False, None), xs))"
| "deque_step n Get xs = (case xs of [] \<Rightarrow> ((False, None), []) | y # ys \<Rightarrow> ((True, Some y), ys))"
| "deque_step n Peek xs = (case xs of [] \<Rightarrow> ((False, None), []) | y # ys \<Rightarrow> ((True, Some y), xs))"

text \<open>The same operations on a buffer that offers a count, put, get and peek.\<close>

fun buffer_step ::
  "('s \<Rightarrow> nat) \<Rightarrow> ('s \<Rightarrow> nat) \<Rightarrow> (copy_position \<Rightarrow> 'a \<Rightarrow> 's \<Rightarrow> 's) \<Rightarrow> ('s \<Rightarrow> 'a \<times> 's) \<Rightarrow> ('s \<Rightarrow> 'a \<times> 's) \<Rightarrow>
   'a deque_op \<Rightarrow> 's \<Rightarrow> (bool \<times> 'a option) \<times> 's" where
  "buffer_step capacity count put get peek (Put pos x) s =
     (if count s < capacity s \<or> pos = queueOVERWRITE then ((True, None), put pos x s) else ((False, None), s))"
| "buffer_step capacity count put get peek Get s =
     (if count s = 0 then ((False, None), s) else let (x, s) = get s in ((True, Some x), s))"
| "buffer_step capacity count put get peek Peek s =
     (if count s = 0 then ((False, None), s) else let (x, s) = peek s in ((True, Some x), s))"

primrec run_ops :: "('c \<Rightarrow> 's \<Rightarrow> 'r \<times> 's) \<Rightarrow> 'c list \<Rightarrow> 's \<Rightarrow> 'r list \<times> 's" where
  "run_ops f [] s = ([], s)"
| "run_ops f (c # cs) s = (let (r, s) = f c s; (rs, s) = run_ops f cs s in (r # rs, s))"

text \<open>The contract of a bounded buffer, and what follows from it for any sequence of operations.\<close>

locale bounded_deque =
  fixes rep :: "'s \<Rightarrow> 'a list \<Rightarrow> bool" and capacity :: "'s \<Rightarrow> nat" and count :: "'s \<Rightarrow> nat"
    and fits :: "'s \<Rightarrow> 'a \<Rightarrow> bool" and put :: "copy_position \<Rightarrow> 'a \<Rightarrow> 's \<Rightarrow> 's"
    and get :: "'s \<Rightarrow> 'a \<times> 's" and peek :: "'s \<Rightarrow> 'a \<times> 's"
  assumes put_rep: "rep s xs \<Longrightarrow> fits s x \<Longrightarrow> length xs < capacity s \<or> pos = queueOVERWRITE \<Longrightarrow>
      pos = queueOVERWRITE \<longrightarrow> capacity s = 1 \<Longrightarrow> rep (put pos x s) (deque_put pos x xs)"
    and get_rep: "rep s (x # xs) \<Longrightarrow> fst (get s) = x" "rep s (x # xs) \<Longrightarrow> rep (snd (get s)) xs"
    and peek_rep: "rep s (x # xs) \<Longrightarrow> peek s = (x, s)"
    and count_rep: "rep s xs \<Longrightarrow> count s = length xs"
    and same_shape: "capacity (put pos x s) = capacity s" "capacity (snd (get s)) = capacity s"
      "fits (put pos x s) = fits s" "fits (snd (get s)) = fits s"
begin

abbreviation step :: "'a deque_op \<Rightarrow> 's \<Rightarrow> (bool \<times> 'a option) \<times> 's" where
  "step \<equiv> buffer_step capacity count put get peek"

primrec proper :: "'a deque_op \<Rightarrow> 's \<Rightarrow> bool" where
  "proper (Put pos x) s \<longleftrightarrow> fits s x \<and> (pos = queueOVERWRITE \<longrightarrow> capacity s = 1)"
| "proper Get s \<longleftrightarrow> True"
| "proper Peek s \<longleftrightarrow> True"

lemma step_refines:
  assumes "rep s xs" "proper c s"
  shows "fst (step c s) = fst (deque_step (capacity s) c xs)"
    "rep (snd (step c s)) (snd (deque_step (capacity s) c xs))"
    "capacity (snd (step c s)) = capacity s" "fits (snd (step c s)) = fits s"
proof -
  have "fst (step c s) = fst (deque_step (capacity s) c xs) \<and>
    rep (snd (step c s)) (snd (deque_step (capacity s) c xs)) \<and>
    capacity (snd (step c s)) = capacity s \<and> fits (snd (step c s)) = fits s"
  proof (cases c)
    case (Put pos x)
    then show ?thesis using assms put_rep count_rep [OF assms(1)] same_shape by auto
  next
    case Get
    then show ?thesis using assms get_rep count_rep [OF assms(1)] same_shape
      by (cases xs) (auto simp: split_beta Let_def)
  next
    case Peek
    then show ?thesis using assms peek_rep count_rep [OF assms(1)] by (cases xs) auto
  qed
  then show "fst (step c s) = fst (deque_step (capacity s) c xs)"
    "rep (snd (step c s)) (snd (deque_step (capacity s) c xs))"
    "capacity (snd (step c s)) = capacity s" "fits (snd (step c s)) = fits s" by auto
qed

lemma proper_cong: "capacity s' = capacity s \<Longrightarrow> fits s' = fits s \<Longrightarrow> proper c s' = proper c s"
  by (cases c) simp_all

lemma run_refines:
  "rep s xs \<Longrightarrow> \<forall>c \<in> set cs. proper c s \<Longrightarrow>
   fst (run_ops step cs s) = fst (run_ops (deque_step (capacity s)) cs xs) \<and>
   rep (snd (run_ops step cs s)) (snd (run_ops (deque_step (capacity s)) cs xs))"
proof (induction cs arbitrary: s xs)
  case (Cons c cs)
  note st = step_refines [OF Cons.prems(1), of c]
  have p: "proper c s" using Cons.prems(2) by simp
  have "\<forall>d \<in> set cs. proper d (snd (step c s))"
    using Cons.prems(2) proper_cong [OF st(3,4) [OF p]] by simp
  from Cons.IH [OF st(2) [OF p] this] st(1,3) [OF p] show ?case by (simp add: split_beta Let_def)
qed simp

end

definition ring_capacity :: "memory \<times> Queue_t \<Rightarrow> nat" where
  "ring_capacity s = unat (uxLength (snd s))"

definition ring_count :: "memory \<times> Queue_t \<Rightarrow> nat" where
  "ring_count s = unat (uxMessagesWaiting (snd s))"

definition item_fits :: "memory \<times> Queue_t \<Rightarrow> byte list \<Rightarrow> bool" where
  "item_fits s x \<longleftrightarrow> length x = unat (uxItemSize (snd s))"

lemma store_item_shape:
  "uxLength (snd (store_item pos x s)) = uxLength (snd s)" "uxItemSize (snd (store_item pos x s)) = uxItemSize (snd s)"
  "pcHead (snd (store_item pos x s)) = pcHead (snd s)" "pcTail (snd (store_item pos x s)) = pcTail (snd s)"
  "xMutexHolder (snd (store_item pos x s)) = xMutexHolder (snd s)"
  "cRxLock (snd (store_item pos x s)) = cRxLock (snd s)" "cTxLock (snd (store_item pos x s)) = cTxLock (snd s)"
  by (simp_all add: store_item_def copy_to_back_def copy_to_front_def Let_def split_beta)

lemma fetch_item_shape:
  "uxLength (snd (snd (fetch_item s))) = uxLength (snd s)" "uxItemSize (snd (snd (fetch_item s))) = uxItemSize (snd s)"
  "pcHead (snd (snd (fetch_item s))) = pcHead (snd s)" "pcTail (snd (snd (fetch_item s))) = pcTail (snd s)"
  "xMutexHolder (snd (snd (fetch_item s))) = xMutexHolder (snd s)" "fst (snd (fetch_item s)) = fst s"
  "cRxLock (snd (snd (fetch_item s))) = cRxLock (snd s)" "cTxLock (snd (snd (fetch_item s))) = cTxLock (snd s)"
  by (simp_all add: fetch_item_def prvCopyDataFromQueue_def Let_def split_beta)

interpretation ring: bounded_deque holds ring_capacity ring_count item_fits store_item fetch_item peek_item
proof unfold_locales
  fix s :: "memory \<times> Queue_t" and xs x pos
  obtain m q where s: "s = (m, q)" by (cases s)
  show "holds (store_item pos x s) (deque_put pos x xs)" if "holds s xs" "item_fits s x"
    "length xs < ring_capacity s \<or> pos = queueOVERWRITE" "pos = queueOVERWRITE \<longrightarrow> ring_capacity s = 1"
  proof (cases pos)
    case queueSEND_TO_BACK
    then show ?thesis using that holds_put_back [of m q xs x] by (simp add: s item_fits_def ring_capacity_def)
  next
    case queueSEND_TO_FRONT
    then show ?thesis using that holds_put_front [of m q xs x] by (simp add: s item_fits_def ring_capacity_def)
  next
    case queueOVERWRITE
    then have one: "uxLength q = 1" using that(4) by (simp add: s ring_capacity_def word_unat_eq_iff)
    moreover have "tl xs = []" using that(1) one by (cases xs) (auto simp: s holds_def)
    ultimately show ?thesis
      using queueOVERWRITE that holds_overwrite [of m q xs x] by (simp add: s item_fits_def)
  qed
  show "fst (fetch_item s) = x" "holds (snd (fetch_item s)) xs" "peek_item s = (x, s)" if "holds s (x # xs)"
    using that holds_fetch [of m q x xs] by (simp_all add: s)
  show "ring_count s = length xs" if "holds s xs"
  proof -
    have "length xs < 2 ^ 32" "uxMessagesWaiting q = of_nat (length xs)"
      using that unat_word32_less [of "uxLength q"] by (auto simp: s holds_def)
    then show ?thesis by (simp add: ring_count_def s unat_of_nat)
  qed
  show "ring_capacity (store_item pos x s) = ring_capacity s" "ring_capacity (snd (fetch_item s)) = ring_capacity s"
    "item_fits (store_item pos x s) = item_fits s" "item_fits (snd (fetch_item s)) = item_fits s"
    by (simp_all add: ring_capacity_def item_fits_def fun_eq_iff store_item_shape fetch_item_shape)
qed


lemma buffer_proper:
  "ring.proper c (m, q) \<longleftrightarrow> (case c of Put pos x \<Rightarrow> length x = unat (uxItemSize q) \<and> (pos = queueOVERWRITE \<longrightarrow> uxLength q = 1)
     | _ \<Rightarrow> True)"
  by (cases c) (auto simp: item_fits_def ring_capacity_def word_unat_eq_iff)

section \<open>The storage stays within its bounds\<close>

lemma holds_write:
  assumes "holds (m, q) xs"
  obtains r where "r < unat (uxLength q)" "pcWriteTo q = slot q r" "storage_ok q"
proof -
  from assms obtain r where "storage_ok q" "pcWriteTo q = slot q ((r + 1 + length xs) mod unat (uxLength q))" "r < unat (uxLength q)"
    by (rule holdsE)
  then show thesis using that [of "(r + 1 + length xs) mod unat (uxLength q)"] by simp
qed

definition in_storage :: "Queue_t \<Rightarrow> word32 \<Rightarrow> bool" where
  "in_storage q a \<longleftrightarrow> pcHead q \<le> a \<and> a < pcTail q"

lemma slot_in_storage:
  assumes ok: "storage_ok q" and r: "r < unat (uxLength q)"
  shows "unat (slot q r) + unat (uxItemSize q) \<le> 2 ^ 32"
    "unat (slot q r) \<le> unat a \<Longrightarrow> unat a < unat (slot q r) + unat (uxItemSize q) \<Longrightarrow> in_storage q a"
proof -
  have "Suc r * unat (uxItemSize q) \<le> unat (uxLength q) * unat (uxItemSize q)" using r by (intro mult_le_mono1) simp
  then have e: "unat (slot q r) + unat (uxItemSize q) \<le> unat (pcTail q)" "unat (pcHead q) \<le> unat (slot q r)"
    using unat_slot [OF ok, of r] unat_slot [OF ok, of "unat (uxLength q)"] r ok by (simp_all add: storage_ok_def)
  then show "unat (slot q r) + unat (uxItemSize q) \<le> 2 ^ 32" using unat_word32_less [of "pcTail q"] by simp
  show "in_storage q a" if "unat (slot q r) \<le> unat a" "unat a < unat (slot q r) + unat (uxItemSize q)"
    using that e by (simp add: in_storage_def word_le_nat_alt word_less_nat_alt)
qed

lemma store_item_frame:
  assumes h: "holds (m, q) xs" and x: "length x = unat (uxItemSize q)" and a: "\<not> in_storage q a"
  shows "fst (store_item pos x (m, q)) a = m a"
proof -
  have un: "memcpy_in (slot q r) x m a = m a" if "storage_ok q" "r < unat (uxLength q)" for r
    using slot_in_storage [OF that] a x by (subst memcpy_in_apply) auto
  from h obtain w where "w < unat (uxLength q)" "pcWriteTo q = slot q w" "storage_ok q" by (rule holds_write)
  moreover from h obtain r where "r < unat (uxLength q)" "pcReadFrom q = slot q r" by (rule holdsE)
  ultimately show ?thesis using un by (simp add: store_item_def copy_to_back_def copy_to_front_def Let_def)
qed

lemma holds_frame:
  assumes h: "holds (m, q) xs" and same: "\<And>a. in_storage q a \<Longrightarrow> m' a = m a"
  shows "holds (m', q) xs"
proof -
  have "memcpy_out (slot q r) (unat (uxItemSize q)) m' = memcpy_out (slot q r) (unat (uxItemSize q)) m"
    if "storage_ok q" "r < unat (uxLength q)" for r
    using slot_in_storage [OF that] same by (intro memcpy_out_frame) auto
  then show ?thesis using h by (auto simp: holds_def)
qed

end
