(* ===== verification/Scheduler.thy ===== *)
theory Scheduler
  imports Kernel_State
begin

text \<open>
  The core of the scheduler in \<^verbatim>\<open>tasks.c\<close>: the ready lists and the choice of the next task,
  the delayed lists, the tick, and the suspension of the scheduler. On this port a yield is an
  \<^verbatim>\<open>ecall\<close>, whose handler calls \<^verbatim>\<open>vTaskSwitchContext\<close> at once; what a function does after it
  has yielded happens when the calling task is chosen again, and touches no kernel state in
  the functions of this theory.
\<close>

section \<open>Ready tasks\<close>

definition taskRECORD_READY_PRIORITY :: "word32 \<Rightarrow> kernel \<Rightarrow> kernel" where
  "taskRECORD_READY_PRIORITY p s =
     (if p > uxTopReadyPriority s then s\<lparr>uxTopReadyPriority := p\<rparr> else s)"

definition prvAddTaskToReadyList :: "tid \<Rightarrow> kernel \<Rightarrow> kernel" where
  "prvAddTaskToReadyList t s =
     (let s = taskRECORD_READY_PRIORITY (uxPriority (tcbs s t)) s
      in insert_end (ReadyList (uxPriority (tcbs s t))) (StateItem t) s)"

text \<open>The search loop of the task selection; reaching an empty list at priority 0 is asserted against.\<close>

function highest_ready :: "word32 \<Rightarrow> kernel \<Rightarrow> word32 option" where
  "highest_ready uxTopPriority s =
     (if is_empty (ReadyList uxTopPriority) s
      then if uxTopPriority = 0 then None else highest_ready (uxTopPriority - 1) s
      else Some uxTopPriority)"
  by auto
termination
  by (relation "measure (\<lambda>(p, s). unat p)") (auto simp: measure_unat)

definition taskSELECT_HIGHEST_PRIORITY_TASK :: "kernel \<Rightarrow> kernel option" where
  "taskSELECT_HIGHEST_PRIORITY_TASK s =
     (case highest_ready (uxTopReadyPriority s) s of None \<Rightarrow> None
      | Some uxTopPriority \<Rightarrow>
          let (t, s) = next_entry (ReadyList uxTopPriority) s
          in Some (s\<lparr>pxCurrentTCB := Some t, uxTopReadyPriority := uxTopPriority\<rparr>))"

definition vTaskSwitchContext :: "kernel \<Rightarrow> kernel option" where
  "vTaskSwitchContext s =
     (if uxSchedulerSuspended s \<noteq> 0 then Some (s\<lparr>xYieldPending := True\<rparr>)
      else taskSELECT_HIGHEST_PRIORITY_TASK (s\<lparr>xYieldPending := False\<rparr>))"

abbreviation portYIELD_WITHIN_API :: "kernel \<Rightarrow> kernel option" where
  "portYIELD_WITHIN_API \<equiv> vTaskSwitchContext"

definition taskYIELD_ANY_CORE_IF_USING_PREEMPTION :: "tid \<Rightarrow> kernel \<Rightarrow> kernel option" where
  "taskYIELD_ANY_CORE_IF_USING_PREEMPTION t s = do {
     c \<leftarrow> pxCurrentTCB s;
     if uxPriority (tcbs s c) < uxPriority (tcbs s t) then portYIELD_WITHIN_API s else Some s }"

section \<open>Task creation\<close>

text \<open>
  The scheduler's part of \<^verbatim>\<open>prvInitialiseNewTask\<close> for a new handle: priority, list items and
  notification state. An out-of-range priority trips the assertion before it is clamped.
\<close>

definition prvInitialiseNewTask :: "word32 \<Rightarrow> tid \<Rightarrow> kernel \<Rightarrow> kernel option" where
  "prvInitialiseNewTask prio t s =
     (if prio \<ge> configMAX_PRIORITIES then None
      else let s = s\<lparr>tcbs := (tcbs s)(t := \<lparr>uxPriority = prio, uxBasePriority = prio,
                 uxMutexesHeld = 0, ulNotifiedValue = 0, ucNotifyState = NotWaitingNotification,
                 ucDelayAborted = False\<rparr>)\<rparr>;
               s = s\<lparr>container := (container s)(StateItem t := None, EventItem t := None)\<rparr>
           in Some (set_value (EventItem t) (configMAX_PRIORITIES - prio) s))"

definition prvInitialiseTaskLists :: "kernel \<Rightarrow> kernel" where
  "prvInitialiseTaskLists s =
     (let s = fold (\<lambda>p. init_list (ReadyList (of_nat p))) [0..<unat configMAX_PRIORITIES] s;
          s = init_list DelayedTaskList1 s;
          s = init_list DelayedTaskList2 s;
          s = init_list PendingReadyList s;
          s = init_list TasksWaitingTermination s;
          s = init_list SuspendedTaskList s
      in s\<lparr>pxDelayedTaskList := DelayedTaskList1, pxOverflowDelayedTaskList := DelayedTaskList2\<rparr>)"

definition prvAddNewTaskToReadyList :: "tid \<Rightarrow> kernel \<Rightarrow> kernel option" where
  "prvAddNewTaskToReadyList t s =
     (let s = s\<lparr>uxCurrentNumberOfTasks := uxCurrentNumberOfTasks s + 1\<rparr>;
          s = (case pxCurrentTCB s of
                 None \<Rightarrow>
                   let s = s\<lparr>pxCurrentTCB := Some t\<rparr>
                   in if uxCurrentNumberOfTasks s = 1 then prvInitialiseTaskLists s else s
               | Some c \<Rightarrow>
                   if \<not> xSchedulerRunning s \<and> uxPriority (tcbs s c) \<le> uxPriority (tcbs s t)
                   then s\<lparr>pxCurrentTCB := Some t\<rparr> else s);
          s = s\<lparr>uxTaskNumber := uxTaskNumber s + 1\<rparr>;
          s = prvAddTaskToReadyList t s
      in if xSchedulerRunning s then taskYIELD_ANY_CORE_IF_USING_PREEMPTION t s else Some s)"

text \<open>
  \<^verbatim>\<open>xTaskCreate\<close>: \<open>new\<close> is the TCB that \<^verbatim>\<open>prvCreateTask\<close> allocated, \<open>None\<close> when the heap had no
  room; the result is \<^verbatim>\<open>pdPASS\<close> or \<^verbatim>\<open>errCOULD_NOT_ALLOCATE_REQUIRED_MEMORY\<close>.
\<close>

definition xTaskCreate :: "tid option \<Rightarrow> word32 \<Rightarrow> kernel \<Rightarrow> (bool \<times> kernel) option" where
  "xTaskCreate new prio s = (case new of None \<Rightarrow> Some (False, s)
     | Some t \<Rightarrow> do {
         s \<leftarrow> prvInitialiseNewTask prio t s;
         s \<leftarrow> prvAddNewTaskToReadyList t s;
         Some (True, s) })"

text \<open>\<^verbatim>\<open>vTaskStartScheduler\<close> up to the call of the port, with the idle task created as \<open>idle\<close>.\<close>

definition vTaskStartScheduler :: "tid option \<Rightarrow> kernel \<Rightarrow> kernel option" where
  "vTaskStartScheduler idle s = do {
     (r, s) \<leftarrow> xTaskCreate idle 0 s;
     if r then Some (s\<lparr>xNextTaskUnblockTime := portMAX_DELAY, xSchedulerRunning := True, xTickCount := 0\<rparr>)
     else None }"

section \<open>Delays and the tick\<close>

definition prvResetNextTaskUnblockTime :: "kernel \<Rightarrow> kernel" where
  "prvResetNextTaskUnblockTime s =
     s\<lparr>xNextTaskUnblockTime :=
         (if is_empty (pxDelayedTaskList s) s then portMAX_DELAY
          else item_value s (hd (kitems (klists s (pxDelayedTaskList s)))))\<rparr>"

definition taskSWITCH_DELAYED_LISTS :: "kernel \<Rightarrow> kernel option" where
  "taskSWITCH_DELAYED_LISTS s =
     (if is_empty (pxDelayedTaskList s) s then
        Some (prvResetNextTaskUnblockTime
          (s\<lparr>pxDelayedTaskList := pxOverflowDelayedTaskList s,
             pxOverflowDelayedTaskList := pxDelayedTaskList s,
             xNumOfOverflows := xNumOfOverflows s + 1\<rparr>))
      else None)"

definition prvAddCurrentTaskToDelayedList :: "word32 \<Rightarrow> bool \<Rightarrow> kernel \<Rightarrow> kernel option" where
  "prvAddCurrentTaskToDelayedList xTicksToWait xCanBlockIndefinitely s = do {
     t \<leftarrow> pxCurrentTCB s;
     let s = upd_tcb t (ucDelayAborted_update (\<lambda>_. False)) s;
     s \<leftarrow> list_remove (StateItem t) s;
     if xTicksToWait = portMAX_DELAY \<and> xCanBlockIndefinitely
     then Some (insert_end SuspendedTaskList (StateItem t) s)
     else
       let xTimeToWake = xTickCount s + xTicksToWait;
           s = set_value (StateItem t) xTimeToWake s
       in if xTimeToWake < xTickCount s
          then Some (insert_value (pxOverflowDelayedTaskList s) (StateItem t) s)
          else
            let s = insert_value (pxDelayedTaskList s) (StateItem t) s
            in Some (if xTimeToWake < xNextTaskUnblockTime s
                     then s\<lparr>xNextTaskUnblockTime := xTimeToWake\<rparr> else s) }"

definition remove_event_item :: "tid \<Rightarrow> kernel \<Rightarrow> kernel option" where
  "remove_event_item t s =
     (if container s (EventItem t) \<noteq> None then list_remove (EventItem t) s else Some s)"

text \<open>The loop of the tick; \<open>xSwitchRequired\<close> is its accumulator.\<close>

partial_function (option) unblock_expired :: "bool \<Rightarrow> kernel \<Rightarrow> (bool \<times> kernel) option" where
  "unblock_expired xSwitchRequired s =
     (if is_empty (pxDelayedTaskList s) s
      then Some (xSwitchRequired, s\<lparr>xNextTaskUnblockTime := portMAX_DELAY\<rparr>)
      else
        let t = head_entry (pxDelayedTaskList s) s;
            xItemValue = item_value s (StateItem t)
        in if xTickCount s < xItemValue
           then Some (xSwitchRequired, s\<lparr>xNextTaskUnblockTime := xItemValue\<rparr>)
           else do {
             s \<leftarrow> list_remove (StateItem t) s;
             s \<leftarrow> remove_event_item t s;
             let s = prvAddTaskToReadyList t s;
             c \<leftarrow> pxCurrentTCB s;
             unblock_expired (xSwitchRequired \<or> uxPriority (tcbs s c) < uxPriority (tcbs s t)) s })"

definition xTaskIncrementTick :: "kernel \<Rightarrow> (bool \<times> kernel) option" where
  "xTaskIncrementTick s =
     (if uxSchedulerSuspended s = 0 then do {
        let xConstTickCount = xTickCount s + 1;
        let s = s\<lparr>xTickCount := xConstTickCount\<rparr>;
        s \<leftarrow> (if xConstTickCount = 0 then taskSWITCH_DELAYED_LISTS s else Some s);
        (xSwitchRequired, s) \<leftarrow> (if xNextTaskUnblockTime s \<le> xConstTickCount
                                 then unblock_expired False s else Some (False, s));
        c \<leftarrow> pxCurrentTCB s;
        Some (xSwitchRequired \<or> 1 < length (kitems (klists s (ReadyList (uxPriority (tcbs s c))))) \<or>
              xYieldPending s, s) }
      else Some (False, s\<lparr>xPendedTicks := xPendedTicks s + 1\<rparr>))"

section \<open>Suspending and resuming the scheduler\<close>

definition vTaskSuspendAll :: "kernel \<Rightarrow> kernel" where
  "vTaskSuspendAll s = s\<lparr>uxSchedulerSuspended := uxSchedulerSuspended s + 1\<rparr>"

text \<open>The pending loop; \<open>moved\<close> says that \<^verbatim>\<open>pxTCB\<close> is no longer \<^verbatim>\<open>NULL\<close>.\<close>

partial_function (option) drain_pending :: "bool \<Rightarrow> kernel \<Rightarrow> (bool \<times> kernel) option" where
  "drain_pending moved s =
     (if is_empty PendingReadyList s then Some (moved, s)
      else do {
        let t = head_entry PendingReadyList s;
        s \<leftarrow> list_remove (EventItem t) s;
        s \<leftarrow> list_remove (StateItem t) s;
        let s = prvAddTaskToReadyList t s;
        c \<leftarrow> pxCurrentTCB s;
        drain_pending True
          (if uxPriority (tcbs s c) < uxPriority (tcbs s t) then s\<lparr>xYieldPending := True\<rparr> else s) })"

declare unblock_expired.simps [code] drain_pending.simps [code]

primrec replay_ticks :: "nat \<Rightarrow> kernel \<Rightarrow> kernel option" where
  "replay_ticks 0 s = Some s"
| "replay_ticks (Suc n) s = do {
     (r, s) \<leftarrow> xTaskIncrementTick s;
     replay_ticks n (if r then s\<lparr>xYieldPending := True\<rparr> else s) }"

definition xTaskResumeAll :: "kernel \<Rightarrow> (bool \<times> kernel) option" where
  "xTaskResumeAll s =
     (if uxSchedulerSuspended s = 0 then None
      else
        let s = s\<lparr>uxSchedulerSuspended := uxSchedulerSuspended s - 1\<rparr>
        in if uxSchedulerSuspended s = 0 \<and> uxCurrentNumberOfTasks s > 0 then do {
             (moved, s) \<leftarrow> drain_pending False s;
             let s = (if moved then prvResetNextTaskUnblockTime s else s);
             s \<leftarrow> (if xPendedTicks s > 0
                  then map_option (\<lambda>s. s\<lparr>xPendedTicks := 0\<rparr>) (replay_ticks (unat (xPendedTicks s)) s)
                  else Some s);
             if xYieldPending s then map_option (Pair True) (portYIELD_WITHIN_API s)
             else Some (False, s) }
           else Some (False, s))"

definition xTaskCatchUpTicks :: "word32 \<Rightarrow> kernel \<Rightarrow> (bool \<times> kernel) option" where
  "xTaskCatchUpTicks xTicksToCatchUp s =
     (if uxSchedulerSuspended s \<noteq> 0 then None
      else
        let s = vTaskSuspendAll s;
            s = s\<lparr>xPendedTicks := xPendedTicks s + xTicksToCatchUp\<rparr>
        in xTaskResumeAll s)"

section \<open>Delaying the calling task\<close>

definition vTaskDelay :: "word32 \<Rightarrow> kernel \<Rightarrow> kernel option" where
  "vTaskDelay xTicksToDelay s =
     (if xTicksToDelay > 0 then
        let s = vTaskSuspendAll s
        in if uxSchedulerSuspended s \<noteq> 1 then None
           else do {
             s \<leftarrow> prvAddCurrentTaskToDelayedList xTicksToDelay False s;
             (xAlreadyYielded, s) \<leftarrow> xTaskResumeAll s;
             if xAlreadyYielded then Some s else portYIELD_WITHIN_API s }
      else portYIELD_WITHIN_API s)"

text \<open>\<^verbatim>\<open>xTaskDelayUntil\<close>; the result is \<^verbatim>\<open>xShouldDelay\<close>, the new \<^verbatim>\<open>*pxPreviousWakeTime\<close> and the state.\<close>

definition should_delay :: "word32 \<Rightarrow> word32 \<Rightarrow> word32 \<Rightarrow> bool" where
  "should_delay now previous wake =
     (if now < previous then wake < previous \<and> wake > now
      else wake < previous \<or> wake > now)"

definition xTaskDelayUntil :: "word32 \<Rightarrow> word32 \<Rightarrow> kernel \<Rightarrow> (bool \<times> word32 \<times> kernel) option" where
  "xTaskDelayUntil previous xTimeIncrement s =
     (if xTimeIncrement = 0 then None
      else
        let s = vTaskSuspendAll s
        in if uxSchedulerSuspended s \<noteq> 1 then None
           else do {
             let xTimeToWake = previous + xTimeIncrement;
             let xShouldDelay = should_delay (xTickCount s) previous xTimeToWake;
             s \<leftarrow> (if xShouldDelay
                  then prvAddCurrentTaskToDelayedList (xTimeToWake - xTickCount s) False s
                  else Some s);
             (xAlreadyYielded, s) \<leftarrow> xTaskResumeAll s;
             s \<leftarrow> (if xAlreadyYielded then Some s else portYIELD_WITHIN_API s);
             Some (xShouldDelay, xTimeToWake, s) })"

end
