(* ===== verification/Task_Control.thy ===== *)
theory Task_Control
  imports Scheduler
begin

text \<open>
  The rest of the task API of \<^verbatim>\<open>tasks.c\<close>: suspending, resuming, deleting and re-prioritising
  tasks, aborting a delay, the event lists that queues and event groups block on, timeouts,
  priority inheritance, and task notifications. A handle \<open>None\<close> is \<^verbatim>\<open>NULL\<close>, the calling task.
  There is one notification per task (\<^verbatim>\<open>configTASK_NOTIFICATION_ARRAY_ENTRIES\<close> is 1).
\<close>

definition tcb_of_handle :: "tid option \<Rightarrow> kernel \<Rightarrow> tid option" where
  "tcb_of_handle h s = (case h of None \<Rightarrow> pxCurrentTCB s | Some t \<Rightarrow> Some t)"

definition set_notify :: "tid \<Rightarrow> notify_state \<Rightarrow> kernel \<Rightarrow> kernel" where
  "set_notify t n = upd_tcb t (ucNotifyState_update (\<lambda>_. n))"

definition set_priority :: "tid \<Rightarrow> word32 \<Rightarrow> kernel \<Rightarrow> kernel" where
  "set_priority t p = upd_tcb t (uxPriority_update (\<lambda>_. p))"

text \<open>A yield is noted when \<open>t\<close> has a higher priority than the running task.\<close>

definition pend_yield_for :: "tid \<Rightarrow> kernel \<Rightarrow> (bool \<times> kernel) option" where
  "pend_yield_for t s = do {
     c \<leftarrow> pxCurrentTCB s;
     Some (if uxPriority (tcbs s t) > uxPriority (tcbs s c)
           then (True, s\<lparr>xYieldPending := True\<rparr>) else (False, s)) }"

section \<open>Suspension, deletion and priority\<close>

text \<open>A task that is suspended while it waits for a notification no longer waits for it.\<close>

definition stop_waiting :: "tid \<Rightarrow> kernel \<Rightarrow> kernel" where
  "stop_waiting t s =
     (if ucNotifyState (tcbs s t) = WaitingNotification
      then set_notify t NotWaitingNotification s else s)"

definition vTaskSuspend :: "tid option \<Rightarrow> kernel \<Rightarrow> kernel option" where
  "vTaskSuspend xTaskToSuspend s = do {
     t \<leftarrow> tcb_of_handle xTaskToSuspend s;
     s \<leftarrow> list_remove (StateItem t) s;
     s \<leftarrow> remove_event_item t s;
     let s = insert_end SuspendedTaskList (StateItem t) s;
     let s = stop_waiting t s;
     let s = (if xSchedulerRunning s then prvResetNextTaskUnblockTime s else s);
     if pxCurrentTCB s = Some t then
       if xSchedulerRunning s then
         if uxSchedulerSuspended s \<noteq> 0 then None else portYIELD_WITHIN_API s
       else if of_nat (length (kitems (klists s SuspendedTaskList))) = uxCurrentNumberOfTasks s
       then Some (s\<lparr>pxCurrentTCB := None\<rparr>)
       else vTaskSwitchContext s
     else Some s }"

definition prvTaskIsTaskSuspended :: "tid \<Rightarrow> kernel \<Rightarrow> bool" where
  "prvTaskIsTaskSuspended t s \<longleftrightarrow>
     container s (StateItem t) = Some SuspendedTaskList \<and>
     container s (EventItem t) \<noteq> Some PendingReadyList \<and>
     container s (EventItem t) = None \<and>
     ucNotifyState (tcbs s t) \<noteq> WaitingNotification"

definition vTaskResume :: "tid \<Rightarrow> kernel \<Rightarrow> kernel option" where
  "vTaskResume t s =
     (if pxCurrentTCB s \<noteq> Some t \<and> prvTaskIsTaskSuspended t s then do {
        s \<leftarrow> list_remove (StateItem t) s;
        let s = prvAddTaskToReadyList t s;
        taskYIELD_ANY_CORE_IF_USING_PREEMPTION t s }
      else Some s)"

definition xTaskResumeFromISR :: "tid \<Rightarrow> kernel \<Rightarrow> (bool \<times> kernel) option" where
  "xTaskResumeFromISR t s =
     (if prvTaskIsTaskSuspended t s then
        if uxSchedulerSuspended s = 0 then do {
          (xYieldRequired, s) \<leftarrow> pend_yield_for t s;
          s \<leftarrow> list_remove (StateItem t) s;
          Some (xYieldRequired, prvAddTaskToReadyList t s) }
        else Some (False, insert_end PendingReadyList (EventItem t) s)
      else Some (False, s))"

definition vTaskDelete :: "tid option \<Rightarrow> kernel \<Rightarrow> kernel option" where
  "vTaskDelete xTaskToDelete s = do {
     t \<leftarrow> tcb_of_handle xTaskToDelete s;
     s \<leftarrow> list_remove (StateItem t) s;
     s \<leftarrow> remove_event_item t s;
     let s = s\<lparr>uxTaskNumber := uxTaskNumber s + 1\<rparr>;
     if xSchedulerRunning s \<and> pxCurrentTCB s = Some t then
       let s = insert_end TasksWaitingTermination (StateItem t) s;
           s = s\<lparr>uxDeletedTasksWaitingCleanUp := uxDeletedTasksWaitingCleanUp s + 1\<rparr>
       in if uxSchedulerSuspended s \<noteq> 0 then None else portYIELD_WITHIN_API s
     else
       let s = s\<lparr>uxCurrentNumberOfTasks := uxCurrentNumberOfTasks s - 1\<rparr>;
           s = prvResetNextTaskUnblockTime s
       in Some (s\<lparr>freed := t # freed s\<rparr>) }"

text \<open>The clean-up of the idle task, one round per deleted task; \<^verbatim>\<open>prvDeleteTCB\<close> frees it.\<close>

primrec check_termination :: "nat \<Rightarrow> kernel \<Rightarrow> kernel option" where
  "check_termination 0 s = Some s"
| "check_termination (Suc n) s =
     (if is_empty TasksWaitingTermination s then None
      else do {
        let t = head_entry TasksWaitingTermination s;
        s \<leftarrow> list_remove (StateItem t) s;
        check_termination n
          (s\<lparr>uxCurrentNumberOfTasks := uxCurrentNumberOfTasks s - 1,
             uxDeletedTasksWaitingCleanUp := uxDeletedTasksWaitingCleanUp s - 1,
             freed := t # freed s\<rparr>) })"

definition prvCheckTasksWaitingTermination :: "kernel \<Rightarrow> kernel option" where
  "prvCheckTasksWaitingTermination s = check_termination (unat (uxDeletedTasksWaitingCleanUp s)) s"

abbreviation taskEVENT_LIST_ITEM_VALUE_IN_USE :: word32 where
  "taskEVENT_LIST_ITEM_VALUE_IN_USE \<equiv> 0x80000000"

text \<open>Keeps the priority order key of the event item in step, unless an event group borrows it.\<close>

definition reset_event_value :: "tid \<Rightarrow> word32 \<Rightarrow> kernel \<Rightarrow> kernel" where
  "reset_event_value t p s =
     (if item_value s (EventItem t) AND taskEVENT_LIST_ITEM_VALUE_IN_USE = 0
      then set_value (EventItem t) (configMAX_PRIORITIES - p) s else s)"

text \<open>Moves a ready task from the list of its old priority to that of its present one.\<close>

definition requeue_ready :: "tid \<Rightarrow> word32 \<Rightarrow> kernel \<Rightarrow> kernel option" where
  "requeue_ready t old s =
     (if container s (StateItem t) = Some (ReadyList old)
      then map_option (prvAddTaskToReadyList t) (list_remove (StateItem t) s) else Some s)"

definition uxTaskPriorityGet :: "tid option \<Rightarrow> kernel \<Rightarrow> word32 option" where
  "uxTaskPriorityGet h s = map_option (\<lambda>t. uxPriority (tcbs s t)) (tcb_of_handle h s)"

definition uxTaskBasePriorityGet :: "tid option \<Rightarrow> kernel \<Rightarrow> word32 option" where
  "uxTaskBasePriorityGet h s = map_option (\<lambda>t. uxBasePriority (tcbs s t)) (tcb_of_handle h s)"

definition vTaskPrioritySet :: "tid option \<Rightarrow> word32 \<Rightarrow> kernel \<Rightarrow> kernel option" where
  "vTaskPrioritySet h uxNewPriority s =
     (if uxNewPriority \<ge> configMAX_PRIORITIES then None
      else do {
        t \<leftarrow> tcb_of_handle h s;
        c \<leftarrow> pxCurrentTCB s;
        let base = uxBasePriority (tcbs s t);
        let uxPriorityUsedOnEntry = uxPriority (tcbs s t);
        if base = uxNewPriority then Some s
        else do {
          let xYieldRequired = (if uxNewPriority > base
                                then t \<noteq> c \<and> uxNewPriority > uxPriority (tcbs s c) else t = c);
          let s = (if base = uxPriority (tcbs s t) \<or> uxNewPriority > uxPriority (tcbs s t)
                   then set_priority t uxNewPriority s else s);
          let s = upd_tcb t (uxBasePriority_update (\<lambda>_. uxNewPriority)) s;
          let s = reset_event_value t uxNewPriority s;
          s \<leftarrow> requeue_ready t uxPriorityUsedOnEntry s;
          if xYieldRequired then portYIELD_WITHIN_API s else Some s } })"

datatype eTaskState = eRunning | eReady | eBlocked | eSuspended | eDeleted | eInvalid

definition eTaskGetState :: "tid \<Rightarrow> kernel \<Rightarrow> eTaskState" where
  "eTaskGetState t s =
     (if pxCurrentTCB s = Some t then eRunning
      else if container s (EventItem t) = Some PendingReadyList then eReady
      else if container s (StateItem t) \<in> {Some (pxDelayedTaskList s), Some (pxOverflowDelayedTaskList s)}
      then eBlocked
      else if container s (StateItem t) = Some SuspendedTaskList
      then if container s (EventItem t) = None
           then if ucNotifyState (tcbs s t) = WaitingNotification then eBlocked else eSuspended
           else eBlocked
      else if container s (StateItem t) \<in> {Some TasksWaitingTermination, None} then eDeleted
      else eReady)"

definition xTaskAbortDelay :: "tid \<Rightarrow> kernel \<Rightarrow> (bool \<times> kernel) option" where
  "xTaskAbortDelay t s = do {
     let s = vTaskSuspendAll s;
     (xReturn, s) \<leftarrow>
       (if eTaskGetState t s = eBlocked then do {
          s \<leftarrow> list_remove (StateItem t) s;
          s \<leftarrow> (if container s (EventItem t) \<noteq> None
               then map_option (upd_tcb t (ucDelayAborted_update (\<lambda>_. True))) (list_remove (EventItem t) s)
               else Some s);
          let s = prvAddTaskToReadyList t s;
          (_, s) \<leftarrow> pend_yield_for t s;
          Some (True, s) }
        else Some (False, s));
     (_, s) \<leftarrow> xTaskResumeAll s;
     Some (xReturn, s) }"

section \<open>Event lists\<close>

definition vTaskPlaceOnEventList :: "nat \<Rightarrow> word32 \<Rightarrow> kernel \<Rightarrow> kernel option" where
  "vTaskPlaceOnEventList e xTicksToWait s = do {
     t \<leftarrow> pxCurrentTCB s;
     let s = insert_value (EventList e) (EventItem t) s;
     prvAddCurrentTaskToDelayedList xTicksToWait True s }"

definition vTaskPlaceOnUnorderedEventList :: "nat \<Rightarrow> word32 \<Rightarrow> word32 \<Rightarrow> kernel \<Rightarrow> kernel option" where
  "vTaskPlaceOnUnorderedEventList e newValue xTicksToWait s =
     (if uxSchedulerSuspended s = 0 then None
      else do {
        t \<leftarrow> pxCurrentTCB s;
        let s = set_value (EventItem t) (newValue OR taskEVENT_LIST_ITEM_VALUE_IN_USE) s;
        let s = insert_end (EventList e) (EventItem t) s;
        prvAddCurrentTaskToDelayedList xTicksToWait True s })"

definition vTaskPlaceOnEventListRestricted :: "nat \<Rightarrow> word32 \<Rightarrow> bool \<Rightarrow> kernel \<Rightarrow> kernel option" where
  "vTaskPlaceOnEventListRestricted e xTicksToWait xWaitIndefinitely s = do {
     t \<leftarrow> pxCurrentTCB s;
     let s = insert_end (EventList e) (EventItem t) s;
     prvAddCurrentTaskToDelayedList (if xWaitIndefinitely then portMAX_DELAY else xTicksToWait)
       xWaitIndefinitely s }"

text \<open>The caller has checked that the event list is not empty.\<close>

definition xTaskRemoveFromEventList :: "nat \<Rightarrow> kernel \<Rightarrow> (bool \<times> kernel) option" where
  "xTaskRemoveFromEventList e s =
     (if is_empty (EventList e) s then None
      else do {
        let t = head_entry (EventList e) s;
        s \<leftarrow> list_remove (EventItem t) s;
        s \<leftarrow> (if uxSchedulerSuspended s = 0
             then map_option (prvAddTaskToReadyList t) (list_remove (StateItem t) s)
             else Some (insert_end PendingReadyList (EventItem t) s));
        pend_yield_for t s })"

definition vTaskRemoveFromUnorderedEventList :: "tid \<Rightarrow> word32 \<Rightarrow> kernel \<Rightarrow> kernel option" where
  "vTaskRemoveFromUnorderedEventList t newValue s =
     (if uxSchedulerSuspended s = 0 then None
      else do {
        let s = set_value (EventItem t) (newValue OR taskEVENT_LIST_ITEM_VALUE_IN_USE) s;
        s \<leftarrow> list_remove (EventItem t) s;
        s \<leftarrow> list_remove (StateItem t) s;
        let s = prvAddTaskToReadyList t s;
        (_, s) \<leftarrow> pend_yield_for t s;
        Some s })"

definition uxTaskResetEventItemValue :: "kernel \<Rightarrow> (word32 \<times> kernel) option" where
  "uxTaskResetEventItemValue s = do {
     t \<leftarrow> pxCurrentTCB s;
     Some (item_value s (EventItem t),
           set_value (EventItem t) (configMAX_PRIORITIES - uxPriority (tcbs s t)) s) }"

definition vTaskMissedYield :: "kernel \<Rightarrow> kernel" where
  "vTaskMissedYield s = s\<lparr>xYieldPending := True\<rparr>"

section \<open>Timeouts\<close>

record TimeOut_t =
  xOverflowCount :: word32
  xTimeOnEntering :: word32

definition vTaskInternalSetTimeOutState :: "kernel \<Rightarrow> TimeOut_t" where
  "vTaskInternalSetTimeOutState s =
     \<lparr>xOverflowCount = xNumOfOverflows s, xTimeOnEntering = xTickCount s\<rparr>"

text \<open>The result: timed out, the new timeout state, the remaining ticks, and the kernel state.\<close>

definition xTaskCheckForTimeOut ::
  "TimeOut_t \<Rightarrow> word32 \<Rightarrow> kernel \<Rightarrow> (bool \<times> TimeOut_t \<times> word32 \<times> kernel) option" where
  "xTaskCheckForTimeOut timeout ticksToWait s = do {
     c \<leftarrow> pxCurrentTCB s;
     let xElapsedTime = xTickCount s - xTimeOnEntering timeout;
     if ucDelayAborted (tcbs s c)
     then Some (True, timeout, ticksToWait, upd_tcb c (ucDelayAborted_update (\<lambda>_. False)) s)
     else if ticksToWait = portMAX_DELAY then Some (False, timeout, ticksToWait, s)
     else if xNumOfOverflows s \<noteq> xOverflowCount timeout \<and> xTickCount s \<ge> xTimeOnEntering timeout
     then Some (True, timeout, 0, s)
     else if xElapsedTime < ticksToWait
     then Some (False, vTaskInternalSetTimeOutState s, ticksToWait - xElapsedTime, s)
     else Some (True, timeout, 0, s) }"

section \<open>Priority inheritance\<close>

definition xTaskPriorityInherit :: "tid option \<Rightarrow> kernel \<Rightarrow> (bool \<times> kernel) option" where
  "xTaskPriorityInherit pxMutexHolder s = (case pxMutexHolder of None \<Rightarrow> Some (False, s)
     | Some t \<Rightarrow> do {
         c \<leftarrow> pxCurrentTCB s;
         let p = uxPriority (tcbs s c);
         if uxPriority (tcbs s t) < p then do {
           let old = uxPriority (tcbs s t);
           let s = reset_event_value t p s;
           s \<leftarrow> (if container s (StateItem t) = Some (ReadyList old)
                then map_option (\<lambda>s. prvAddTaskToReadyList t (set_priority t p s))
                       (list_remove (StateItem t) s)
                else Some (set_priority t p s));
           Some (True, s) }
         else Some (uxBasePriority (tcbs s t) < p, s) })"

definition xTaskPriorityDisinherit :: "tid option \<Rightarrow> kernel \<Rightarrow> (bool \<times> kernel) option" where
  "xTaskPriorityDisinherit pxMutexHolder s = (case pxMutexHolder of None \<Rightarrow> Some (False, s)
     | Some t \<Rightarrow>
         if pxCurrentTCB s \<noteq> Some t \<or> uxMutexesHeld (tcbs s t) = 0 then None
         else
           let s = upd_tcb t (\<lambda>x. x\<lparr>uxMutexesHeld := uxMutexesHeld x - 1\<rparr>) s
           in if uxPriority (tcbs s t) \<noteq> uxBasePriority (tcbs s t) \<and> uxMutexesHeld (tcbs s t) = 0 then do {
                s \<leftarrow> list_remove (StateItem t) s;
                let s = set_priority t (uxBasePriority (tcbs s t)) s;
                let s = set_value (EventItem t) (configMAX_PRIORITIES - uxPriority (tcbs s t)) s;
                Some (True, prvAddTaskToReadyList t s) }
              else Some (False, s))"

definition vTaskPriorityDisinheritAfterTimeout :: "tid option \<Rightarrow> word32 \<Rightarrow> kernel \<Rightarrow> kernel option" where
  "vTaskPriorityDisinheritAfterTimeout pxMutexHolder uxHighestPriorityWaitingTask s =
     (case pxMutexHolder of None \<Rightarrow> Some s
      | Some t \<Rightarrow>
          if uxMutexesHeld (tcbs s t) = 0 then None
          else
            let uxPriorityToUse = max (uxBasePriority (tcbs s t)) uxHighestPriorityWaitingTask;
                uxPriorityUsedOnEntry = uxPriority (tcbs s t)
            in if uxPriority (tcbs s t) \<noteq> uxPriorityToUse \<and> uxMutexesHeld (tcbs s t) = 1
               then if pxCurrentTCB s = Some t then None
                    else
                      let s = set_priority t uxPriorityToUse s;
                          s = reset_event_value t uxPriorityToUse s
                      in requeue_ready t uxPriorityUsedOnEntry s
               else Some s)"

definition pvTaskIncrementMutexHeldCount :: "kernel \<Rightarrow> tid option \<times> kernel" where
  "pvTaskIncrementMutexHeldCount s = (case pxCurrentTCB s of None \<Rightarrow> (None, s)
     | Some t \<Rightarrow> (Some t, upd_tcb t (\<lambda>x. x\<lparr>uxMutexesHeld := uxMutexesHeld x + 1\<rparr>) s))"

section \<open>Task notifications\<close>

datatype eNotifyAction =
  eNoAction | eSetBits | eIncrement | eSetValueWithOverwrite | eSetValueWithoutOverwrite

text \<open>The switch over the action: the new value, and whether the value could be written.\<close>

fun notify_value :: "eNotifyAction \<Rightarrow> notify_state \<Rightarrow> word32 \<Rightarrow> word32 \<Rightarrow> word32 \<times> bool" where
  "notify_value eSetBits st v new = (v OR new, True)"
| "notify_value eIncrement st v new = (v + 1, True)"
| "notify_value eSetValueWithOverwrite st v new = (new, True)"
| "notify_value eSetValueWithoutOverwrite st v new =
     (if st \<noteq> NotificationReceived then (new, True) else (v, False))"
| "notify_value eNoAction st v new = (v, True)"

definition note_received :: "tid \<Rightarrow> word32 \<Rightarrow> kernel \<Rightarrow> kernel" where
  "note_received t v = upd_tcb t (\<lambda>x. x\<lparr>ulNotifiedValue := v, ucNotifyState := NotificationReceived\<rparr>)"

definition xTaskGenericNotify :: "tid \<Rightarrow> word32 \<Rightarrow> eNotifyAction \<Rightarrow> kernel \<Rightarrow> (bool \<times> word32 \<times> kernel) option" where
  "xTaskGenericNotify t ulValue eAction s = do {
     let previous = ulNotifiedValue (tcbs s t);
     let ucOriginalNotifyState = ucNotifyState (tcbs s t);
     let (v, xReturn) = notify_value eAction ucOriginalNotifyState previous ulValue;
     let s = note_received t v s;
     s \<leftarrow> (if ucOriginalNotifyState = WaitingNotification then do {
            s \<leftarrow> list_remove (StateItem t) s;
            let s = prvAddTaskToReadyList t s;
            if container s (EventItem t) \<noteq> None then None
            else taskYIELD_ANY_CORE_IF_USING_PREEMPTION t s }
          else Some s);
     Some (xReturn, previous, s) }"

text \<open>The wake-up that the two interrupt-safe variants share.\<close>

definition notify_wake_from_isr :: "tid \<Rightarrow> kernel \<Rightarrow> (bool \<times> kernel) option" where
  "notify_wake_from_isr t s =
     (if container s (EventItem t) \<noteq> None then None
      else do {
        s \<leftarrow> (if uxSchedulerSuspended s = 0
             then map_option (prvAddTaskToReadyList t) (list_remove (StateItem t) s)
             else Some (insert_end PendingReadyList (EventItem t) s));
        pend_yield_for t s })"

definition xTaskGenericNotifyFromISR ::
  "tid \<Rightarrow> word32 \<Rightarrow> eNotifyAction \<Rightarrow> kernel \<Rightarrow> (bool \<times> bool \<times> word32 \<times> kernel) option" where
  "xTaskGenericNotifyFromISR t ulValue eAction s = do {
     let previous = ulNotifiedValue (tcbs s t);
     let ucOriginalNotifyState = ucNotifyState (tcbs s t);
     let (v, xReturn) = notify_value eAction ucOriginalNotifyState previous ulValue;
     let s = note_received t v s;
     (woken, s) \<leftarrow> (if ucOriginalNotifyState = WaitingNotification
                    then notify_wake_from_isr t s else Some (False, s));
     Some (xReturn, woken, previous, s) }"

definition vTaskGenericNotifyGiveFromISR :: "tid \<Rightarrow> kernel \<Rightarrow> (bool \<times> kernel) option" where
  "vTaskGenericNotifyGiveFromISR t s =
     (let ucOriginalNotifyState = ucNotifyState (tcbs s t);
          s = note_received t (ulNotifiedValue (tcbs s t) + 1) s
      in if ucOriginalNotifyState = WaitingNotification then notify_wake_from_isr t s
         else Some (False, s))"

text \<open>
  Waiting for a notification, in two parts: up to the yield of the blocking caller (\<open>True\<close> when
  it blocked), and what the caller does when it runs on.
\<close>

definition notify_block :: "(TCB \<Rightarrow> TCB) \<Rightarrow> word32 \<Rightarrow> kernel \<Rightarrow> kernel option" where
  "notify_block f xTicksToWait s = do {
     c \<leftarrow> pxCurrentTCB s;
     let s = vTaskSuspendAll s;
     let s = upd_tcb c (\<lambda>x. (f x)\<lparr>ucNotifyState := WaitingNotification\<rparr>) s;
     s \<leftarrow> prvAddCurrentTaskToDelayedList xTicksToWait True s;
     (xAlreadyYielded, s) \<leftarrow> xTaskResumeAll s;
     if xAlreadyYielded then Some s else portYIELD_WITHIN_API s }"

definition notify_take_enter :: "word32 \<Rightarrow> kernel \<Rightarrow> (bool \<times> kernel) option" where
  "notify_take_enter xTicksToWait s = do {
     c \<leftarrow> pxCurrentTCB s;
     if ulNotifiedValue (tcbs s c) = 0 \<and> xTicksToWait > 0
     then map_option (Pair True) (notify_block id xTicksToWait s) else Some (False, s) }"

definition notify_take_exit :: "bool \<Rightarrow> kernel \<Rightarrow> (word32 \<times> kernel) option" where
  "notify_take_exit xClearCountOnExit s = do {
     c \<leftarrow> pxCurrentTCB s;
     let ulReturn = ulNotifiedValue (tcbs s c);
     let s = (if ulReturn \<noteq> 0
              then upd_tcb c (ulNotifiedValue_update (\<lambda>_. if xClearCountOnExit then 0 else ulReturn - 1)) s
              else s);
     Some (ulReturn, set_notify c NotWaitingNotification s) }"

definition notify_wait_enter :: "word32 \<Rightarrow> word32 \<Rightarrow> kernel \<Rightarrow> (bool \<times> kernel) option" where
  "notify_wait_enter ulBitsToClearOnEntry xTicksToWait s = do {
     c \<leftarrow> pxCurrentTCB s;
     if ucNotifyState (tcbs s c) \<noteq> NotificationReceived \<and> xTicksToWait > 0
     then map_option (Pair True)
            (notify_block (ulNotifiedValue_update (\<lambda>v. v AND NOT ulBitsToClearOnEntry)) xTicksToWait s)
     else Some (False, s) }"

definition notify_wait_exit :: "word32 \<Rightarrow> kernel \<Rightarrow> (bool \<times> word32 \<times> kernel) option" where
  "notify_wait_exit ulBitsToClearOnExit s = do {
     c \<leftarrow> pxCurrentTCB s;
     let value = ulNotifiedValue (tcbs s c);
     let xReturn = (ucNotifyState (tcbs s c) = NotificationReceived);
     let s = (if xReturn
              then upd_tcb c (ulNotifiedValue_update (\<lambda>v. v AND NOT ulBitsToClearOnExit)) s else s);
     Some (xReturn, value, set_notify c NotWaitingNotification s) }"

definition xTaskGenericNotifyStateClear :: "tid option \<Rightarrow> kernel \<Rightarrow> (bool \<times> kernel) option" where
  "xTaskGenericNotifyStateClear h s = do {
     t \<leftarrow> tcb_of_handle h s;
     Some (if ucNotifyState (tcbs s t) = NotificationReceived
           then (True, set_notify t NotWaitingNotification s) else (False, s)) }"

definition ulTaskGenericNotifyValueClear :: "tid option \<Rightarrow> word32 \<Rightarrow> kernel \<Rightarrow> (word32 \<times> kernel) option" where
  "ulTaskGenericNotifyValueClear h ulBitsToClear s = do {
     t \<leftarrow> tcb_of_handle h s;
     Some (ulNotifiedValue (tcbs s t),
           upd_tcb t (ulNotifiedValue_update (\<lambda>v. v AND NOT ulBitsToClear)) s) }"

end
