(* ===== verification/Queue.thy ===== *)
theory Queue
  imports Queue_Storage Task_Control
begin

text \<open>
  Queues, semaphores and mutexes (\<^verbatim>\<open>queue.c\<close>) on top of the scheduler. The state adds to the
  kernel a memory and the queue structures, by handle. The event lists of queue \<open>q\<close> are the
  kernel's event lists \<open>waiting_to_send q\<close> and \<open>waiting_to_receive q\<close>.

  A blocking call is a loop that leaves its critical sections, lets interrupts in, and may
  yield. It is modelled as a step function over its program points (\<open>phase\<close>): one step is what
  runs without an interrupt in between. Queue sets, the registry and the co-routine variants
  are left out; a semaphore or mutex is a queue with item size 0.
\<close>

record sys =
  kern :: kernel
  memry :: memory
  queues :: "nat \<Rightarrow> Queue_t"

definition waiting_to_send :: "nat \<Rightarrow> nat" where
  "waiting_to_send q = 2 * q"

definition waiting_to_receive :: "nat \<Rightarrow> nat" where
  "waiting_to_receive q = 2 * q + 1"

definition on_kern :: "(kernel \<Rightarrow> kernel option) \<Rightarrow> sys \<Rightarrow> sys option" where
  "on_kern f s = map_option (\<lambda>k. s\<lparr>kern := k\<rparr>) (f (kern s))"

definition on_kern_bool :: "(kernel \<Rightarrow> (bool \<times> kernel) option) \<Rightarrow> sys \<Rightarrow> (bool \<times> sys) option" where
  "on_kern_bool f s = map_option (\<lambda>(b, k). (b, s\<lparr>kern := k\<rparr>)) (f (kern s))"

definition upd_queue :: "nat \<Rightarrow> (Queue_t \<Rightarrow> Queue_t) \<Rightarrow> sys \<Rightarrow> sys" where
  "upd_queue q f s = s\<lparr>queues := (queues s)(q := f (queues s q))\<rparr>"

abbreviation queueUNLOCKED :: int where "queueUNLOCKED \<equiv> - 1"
abbreviation queueLOCKED_UNMODIFIED :: int where "queueLOCKED_UNMODIFIED \<equiv> 0"
abbreviation queueINT8_MAX :: int where "queueINT8_MAX \<equiv> 127"

definition is_mutex :: "Queue_t \<Rightarrow> bool" where
  "is_mutex Q \<longleftrightarrow> pcHead Q = 0"

text \<open>A waiting task is released when there is one; the result asks for a context switch.\<close>

definition release_waiter :: "nat \<Rightarrow> sys \<Rightarrow> (bool \<times> sys) option" where
  "release_waiter e s =
     (if \<not> is_empty (EventList e) (kern s) then on_kern_bool (xTaskRemoveFromEventList e) s
      else Some (False, s))"

definition queueYIELD_IF_USING_PREEMPTION :: "bool \<Rightarrow> sys \<Rightarrow> sys option" where
  "queueYIELD_IF_USING_PREEMPTION required s =
     (if required then on_kern portYIELD_WITHIN_API s else Some s)"

section \<open>Creation\<close>

text \<open>
  On a mutex the pointers written by a reset overlay the holder and the call count, which
  become \<^verbatim>\<open>NULL\<close> and 0, since \<^verbatim>\<open>pcHead\<close> and the item size are 0.
\<close>

definition xQueueGenericReset :: "nat \<Rightarrow> bool \<Rightarrow> sys \<Rightarrow> sys option" where
  "xQueueGenericReset q xNewQueue s =
     (let Q = queues s q in
      if uxLength Q \<ge> 1 \<and> 0xFFFFFFFF div uxLength Q \<ge> uxItemSize Q then
        let s = upd_queue q (\<lambda>Q. Q\<lparr>pcTail := pcHead Q + uxLength Q * uxItemSize Q,
                  uxMessagesWaiting := 0, pcWriteTo := pcHead Q,
                  pcReadFrom := pcHead Q + (uxLength Q - 1) * uxItemSize Q,
                  cRxLock := queueUNLOCKED, cTxLock := queueUNLOCKED,
                  xMutexHolder := None, uxRecursiveCallCount := 0\<rparr>) s
        in if \<not> xNewQueue then do {
             (required, s) \<leftarrow> release_waiter (waiting_to_send q) s;
             queueYIELD_IF_USING_PREEMPTION required s }
           else Some (s\<lparr>kern := init_list (EventList (waiting_to_receive q))
                                  (init_list (EventList (waiting_to_send q)) (kern s))\<rparr>)
      else None)"

text \<open>The size of the queue structure on RV32 with static allocation off.\<close>

abbreviation sizeof_Queue_t :: word32 where "sizeof_Queue_t \<equiv> 72"

definition prvInitialiseNewQueue :: "word32 \<Rightarrow> word32 \<Rightarrow> word32 \<Rightarrow> word32 \<Rightarrow> nat \<Rightarrow> sys \<Rightarrow> sys option" where
  "prvInitialiseNewQueue uxQueueLength uxQueueItemSize pucQueueStorage pxNewQueue q s =
     xQueueGenericReset q True
       (upd_queue q (\<lambda>Q. Q\<lparr>pcHead := (if uxQueueItemSize = 0 then pxNewQueue else pucQueueStorage),
          uxLength := uxQueueLength, uxItemSize := uxQueueItemSize\<rparr>) s)"

text \<open>
  \<open>new\<close> is the handle for the new queue and the address that \<^verbatim>\<open>pvPortMalloc\<close> returned for it,
  \<open>None\<close> when the heap had no room.
\<close>

definition xQueueGenericCreate ::
  "(nat \<times> word32) option \<Rightarrow> word32 \<Rightarrow> word32 \<Rightarrow> sys \<Rightarrow> (nat option \<times> sys) option" where
  "xQueueGenericCreate new uxQueueLength uxQueueItemSize s =
     (if uxQueueLength > 0 \<and> 0xFFFFFFFF div uxQueueLength \<ge> uxQueueItemSize \<and>
         0xFFFFFFFF - sizeof_Queue_t \<ge> uxQueueLength * uxQueueItemSize
      then case new of None \<Rightarrow> Some (None, s)
        | Some (q, pxNewQueue) \<Rightarrow>
            map_option (Pair (Some q))
              (prvInitialiseNewQueue uxQueueLength uxQueueItemSize (pxNewQueue + sizeof_Queue_t) pxNewQueue q s)
      else None)"

definition xQueueCreateCountingSemaphore ::
  "(nat \<times> word32) option \<Rightarrow> word32 \<Rightarrow> word32 \<Rightarrow> sys \<Rightarrow> (nat option \<times> sys) option" where
  "xQueueCreateCountingSemaphore new uxMaxCount uxInitialCount s =
     (if uxMaxCount \<noteq> 0 \<and> uxInitialCount \<le> uxMaxCount then do {
        (xHandle, s) \<leftarrow> xQueueGenericCreate new uxMaxCount 0 s;
        Some (xHandle, case xHandle of None \<Rightarrow> s
                       | Some q \<Rightarrow> upd_queue q (uxMessagesWaiting_update (\<lambda>_. uxInitialCount)) s) }
      else None)"

section \<open>Storing, locking and unlocking\<close>

text \<open>Giving a mutex back ends the priority inheritance; the result asks for a context switch.\<close>

definition prvCopyDataToQueue :: "nat \<Rightarrow> byte list \<Rightarrow> copy_position \<Rightarrow> sys \<Rightarrow> (bool \<times> sys) option" where
  "prvCopyDataToQueue q item xPosition s =
     (let Q = queues s q in
      if uxItemSize Q = 0 then do {
        (xReturn, s) \<leftarrow> (if is_mutex Q
           then map_option (\<lambda>(b, k). (b, upd_queue q (xMutexHolder_update (\<lambda>_. None)) (s\<lparr>kern := k\<rparr>)))
                  (xTaskPriorityDisinherit (xMutexHolder Q) (kern s))
           else Some (False, s));
        Some (xReturn, upd_queue q (uxMessagesWaiting_update (\<lambda>_. uxMessagesWaiting Q + 1)) s) }
      else
        let (m, Q) = store_item xPosition item (memry s, Q)
        in Some (False, (upd_queue q (\<lambda>_. Q) s)\<lparr>memry := m\<rparr>))"

definition prvLockQueue :: "nat \<Rightarrow> sys \<Rightarrow> sys" where
  "prvLockQueue q s =
     upd_queue q (\<lambda>Q. let Q = (if cRxLock Q = queueUNLOCKED then Q\<lparr>cRxLock := queueLOCKED_UNMODIFIED\<rparr> else Q)
                      in if cTxLock Q = queueUNLOCKED then Q\<lparr>cTxLock := queueLOCKED_UNMODIFIED\<rparr> else Q) s"

text \<open>The lock counts are capped at the number of tasks.\<close>

definition prvIncrementQueueTxLock :: "nat \<Rightarrow> int \<Rightarrow> sys \<Rightarrow> sys option" where
  "prvIncrementQueueTxLock q lock s =
     (if lock < uint (uxCurrentNumberOfTasks (kern s))
      then if lock = queueINT8_MAX then None else Some (upd_queue q (cTxLock_update (\<lambda>_. lock + 1)) s)
      else Some s)"

definition prvIncrementQueueRxLock :: "nat \<Rightarrow> int \<Rightarrow> sys \<Rightarrow> sys option" where
  "prvIncrementQueueRxLock q lock s =
     (if lock < uint (uxCurrentNumberOfTasks (kern s))
      then if lock = queueINT8_MAX then None else Some (upd_queue q (cRxLock_update (\<lambda>_. lock + 1)) s)
      else Some s)"

text \<open>The loops of \<^verbatim>\<open>prvUnlockQueue\<close>: one waiting task is released for every count of the lock.\<close>

primrec release_counted :: "nat \<Rightarrow> nat \<Rightarrow> sys \<Rightarrow> sys option" where
  "release_counted 0 e s = Some s"
| "release_counted (Suc n) e s =
     (if is_empty (EventList e) (kern s) then Some s
      else do {
        (required, s) \<leftarrow> release_waiter e s;
        release_counted n e (if required then s\<lparr>kern := vTaskMissedYield (kern s)\<rparr> else s) })"

definition unlock_tx :: "nat \<Rightarrow> sys \<Rightarrow> sys option" where
  "unlock_tx q s = map_option (upd_queue q (cTxLock_update (\<lambda>_. queueUNLOCKED)))
     (release_counted (nat (cTxLock (queues s q))) (waiting_to_receive q) s)"

definition unlock_rx :: "nat \<Rightarrow> sys \<Rightarrow> sys option" where
  "unlock_rx q s = map_option (upd_queue q (cRxLock_update (\<lambda>_. queueUNLOCKED)))
     (release_counted (nat (cRxLock (queues s q))) (waiting_to_send q) s)"

definition prvIsQueueEmpty :: "nat \<Rightarrow> sys \<Rightarrow> bool" where
  "prvIsQueueEmpty q s \<longleftrightarrow> uxMessagesWaiting (queues s q) = 0"

definition prvIsQueueFull :: "nat \<Rightarrow> sys \<Rightarrow> bool" where
  "prvIsQueueFull q s \<longleftrightarrow> uxMessagesWaiting (queues s q) = uxLength (queues s q)"

definition uxQueueMessagesWaiting :: "nat \<Rightarrow> sys \<Rightarrow> word32" where
  "uxQueueMessagesWaiting q s = uxMessagesWaiting (queues s q)"

definition uxQueueSpacesAvailable :: "nat \<Rightarrow> sys \<Rightarrow> word32" where
  "uxQueueSpacesAvailable q s = uxLength (queues s q) - uxMessagesWaiting (queues s q)"

definition uxQueueMessagesWaitingFromISR :: "nat \<Rightarrow> sys \<Rightarrow> word32" where
  "uxQueueMessagesWaitingFromISR q s = uxMessagesWaiting (queues s q)"

definition uxQueueGetQueueItemSize :: "nat \<Rightarrow> sys \<Rightarrow> word32" where
  "uxQueueGetQueueItemSize q s = uxItemSize (queues s q)"

definition uxQueueGetQueueLength :: "nat \<Rightarrow> sys \<Rightarrow> word32" where
  "uxQueueGetQueueLength q s = uxLength (queues s q)"

definition prvGetHighestPriorityOfWaitToReceiveList :: "nat \<Rightarrow> sys \<Rightarrow> word32" where
  "prvGetHighestPriorityOfWaitToReceiveList q s =
     (let k = kern s; l = EventList (waiting_to_receive q)
      in if length (kitems (klists k l)) > 0
         then configMAX_PRIORITIES - item_value k (hd (kitems (klists k l))) else 0)"

section \<open>Calls from tasks\<close>

text \<open>
  The program points of a blocking call, the end of a waiting round, the local variables
  (\<open>entry_time\<close> is \<^verbatim>\<open>xTimeOut\<close>, \<open>None\<close> until \<^verbatim>\<open>xEntryTimeSet\<close>; \<open>inherited\<close> is
  \<^verbatim>\<open>xInheritanceOccurred\<close>), and what a step leads to.
\<close>

datatype ending = Waited | TryAgain | TimedOut

datatype phase =
    Enter | Attempt | Suspend_Scheduler | Lock_Queue | Check_Time | Check_State | Inherit | Block
  | Unlock_Tx ending | Unlock_Rx ending | Resume_Scheduler ending | Yield | Expired | Disinherit

record call_vars =
  entry_time :: "TimeOut_t option"
  ticks_left :: word32
  inherited :: bool

datatype progress = Return bool "byte list" | Continue phase call_vars

definition xTaskSuspendedCannotWait :: "call_vars \<Rightarrow> sys \<Rightarrow> bool" where
  "xTaskSuspendedCannotWait v s \<longleftrightarrow>
     xSchedulerRunning (kern s) \<and> uxSchedulerSuspended (kern s) \<noteq> 0 \<and> ticks_left v \<noteq> 0"

text \<open>No item, or no room: give up at once, or note the time of entry and wait.\<close>

definition give_up_or_wait :: "call_vars \<Rightarrow> sys \<Rightarrow> (progress \<times> sys) option" where
  "give_up_or_wait v s =
     (if ticks_left v = 0 then Some (Return False [], s)
      else Some (Continue Suspend_Scheduler
             (if entry_time v = None then v\<lparr>entry_time := Some (vTaskInternalSetTimeOutState (kern s))\<rparr> else v), s))"

text \<open>The program points that every blocking call of \<^verbatim>\<open>queue.c\<close> has in common.\<close>

fun waiting_round :: "nat \<Rightarrow> phase \<Rightarrow> call_vars \<Rightarrow> sys \<Rightarrow> (progress \<times> sys) option" where
  "waiting_round q Suspend_Scheduler v s = Some (Continue Lock_Queue v, s\<lparr>kern := vTaskSuspendAll (kern s)\<rparr>)"
| "waiting_round q Lock_Queue v s = Some (Continue Check_Time v, prvLockQueue q s)"
| "waiting_round q Check_Time v s = do {
     timeout \<leftarrow> entry_time v;
     (expired, timeout, left, k) \<leftarrow> xTaskCheckForTimeOut timeout (ticks_left v) (kern s);
     Some (Continue (if expired then Unlock_Tx TimedOut else Check_State)
             (v\<lparr>entry_time := Some timeout, ticks_left := left\<rparr>), s\<lparr>kern := k\<rparr>) }"
| "waiting_round q (Unlock_Tx e) v s = map_option (Pair (Continue (Unlock_Rx e) v)) (unlock_tx q s)"
| "waiting_round q (Unlock_Rx e) v s = map_option (Pair (Continue (Resume_Scheduler e) v)) (unlock_rx q s)"
| "waiting_round q (Resume_Scheduler e) v s = do {
     (xAlreadyYielded, s) \<leftarrow> on_kern_bool xTaskResumeAll s;
     Some (Continue (if e = TimedOut then Expired
                     else if e = Waited \<and> \<not> xAlreadyYielded then Yield else Attempt) v, s) }"
| "waiting_round q Yield v s = map_option (Pair (Continue Attempt v)) (on_kern portYIELD_WITHIN_API s)"
| "waiting_round q _ v s = None"

fun xQueueGenericSend ::
  "nat \<Rightarrow> byte list \<Rightarrow> copy_position \<Rightarrow> phase \<Rightarrow> call_vars \<Rightarrow> sys \<Rightarrow> (progress \<times> sys) option" where
  "xQueueGenericSend q item xCopyPosition Enter v s =
     (if xCopyPosition = queueOVERWRITE \<and> uxLength (queues s q) \<noteq> 1 \<or> xTaskSuspendedCannotWait v s
      then None else Some (Continue Attempt v, s))"
| "xQueueGenericSend q item xCopyPosition Attempt v s =
     (if uxMessagesWaiting (queues s q) < uxLength (queues s q) \<or> xCopyPosition = queueOVERWRITE then do {
        (xYieldRequired, s) \<leftarrow> prvCopyDataToQueue q item xCopyPosition s;
        (required, s) \<leftarrow> (if \<not> is_empty (EventList (waiting_to_receive q)) (kern s)
                          then release_waiter (waiting_to_receive q) s else Some (xYieldRequired, s));
        s \<leftarrow> queueYIELD_IF_USING_PREEMPTION required s;
        Some (Return True [], s) }
      else give_up_or_wait v s)"
| "xQueueGenericSend q item xCopyPosition Check_State v s =
     Some (Continue (if prvIsQueueFull q s then Block else Unlock_Tx TryAgain) v, s)"
| "xQueueGenericSend q item xCopyPosition Block v s =
     map_option (Pair (Continue (Unlock_Tx Waited) v))
       (on_kern (vTaskPlaceOnEventList (waiting_to_send q) (ticks_left v)) s)"
| "xQueueGenericSend q item xCopyPosition Expired v s = Some (Return False [], s)"
| "xQueueGenericSend q item xCopyPosition ph v s = waiting_round q ph v s"

text \<open>What receivers that find the queue empty do when they wait.\<close>

fun waiting_for_item :: "nat \<Rightarrow> phase \<Rightarrow> call_vars \<Rightarrow> sys \<Rightarrow> (progress \<times> sys) option" where
  "waiting_for_item q Check_State v s =
     Some (Continue (if prvIsQueueEmpty q s then Block else Unlock_Tx TryAgain) v, s)"
| "waiting_for_item q Block v s =
     map_option (Pair (Continue (Unlock_Tx Waited) v))
       (on_kern (vTaskPlaceOnEventList (waiting_to_receive q) (ticks_left v)) s)"
| "waiting_for_item q Expired v s =
     Some (if prvIsQueueEmpty q s then Return False [] else Continue Attempt v, s)"
| "waiting_for_item q ph v s = waiting_round q ph v s"

fun xQueueReceive :: "nat \<Rightarrow> phase \<Rightarrow> call_vars \<Rightarrow> sys \<Rightarrow> (progress \<times> sys) option" where
  "xQueueReceive q Enter v s = (if xTaskSuspendedCannotWait v s then None else Some (Continue Attempt v, s))"
| "xQueueReceive q Attempt v s =
     (if uxMessagesWaiting (queues s q) > 0 then do {
        let (x, m, Q) = fetch_item (memry s, queues s q);
        let s = upd_queue q (\<lambda>_. Q) s;
        (required, s) \<leftarrow> release_waiter (waiting_to_send q) s;
        s \<leftarrow> queueYIELD_IF_USING_PREEMPTION required s;
        Some (Return True x, s) }
      else give_up_or_wait v s)"
| "xQueueReceive q ph v s = waiting_for_item q ph v s"

fun xQueuePeek :: "nat \<Rightarrow> phase \<Rightarrow> call_vars \<Rightarrow> sys \<Rightarrow> (progress \<times> sys) option" where
  "xQueuePeek q Enter v s = (if xTaskSuspendedCannotWait v s then None else Some (Continue Attempt v, s))"
| "xQueuePeek q Attempt v s =
     (if uxMessagesWaiting (queues s q) > 0 then do {
        let (x, m, Q) = peek_item (memry s, queues s q);
        let s = upd_queue q (\<lambda>_. Q) s;
        (required, s) \<leftarrow> release_waiter (waiting_to_receive q) s;
        s \<leftarrow> queueYIELD_IF_USING_PREEMPTION required s;
        Some (Return True x, s) }
      else give_up_or_wait v s)"
| "xQueuePeek q ph v s = waiting_for_item q ph v s"

fun xQueueSemaphoreTake :: "nat \<Rightarrow> phase \<Rightarrow> call_vars \<Rightarrow> sys \<Rightarrow> (progress \<times> sys) option" where
  "xQueueSemaphoreTake q Enter v s =
     (if uxItemSize (queues s q) \<noteq> 0 \<or> xTaskSuspendedCannotWait v s then None else Some (Continue Attempt v, s))"
| "xQueueSemaphoreTake q Attempt v s =
     (if uxMessagesWaiting (queues s q) > 0 then do {
        let s = upd_queue q (\<lambda>Q. Q\<lparr>uxMessagesWaiting := uxMessagesWaiting Q - 1\<rparr>) s;
        let s = (if is_mutex (queues s q) then
                   let (holder, k) = pvTaskIncrementMutexHeldCount (kern s)
                   in upd_queue q (xMutexHolder_update (\<lambda>_. holder)) (s\<lparr>kern := k\<rparr>)
                 else s);
        (required, s) \<leftarrow> release_waiter (waiting_to_send q) s;
        s \<leftarrow> queueYIELD_IF_USING_PREEMPTION required s;
        Some (Return True [], s) }
      else give_up_or_wait v s)"
| "xQueueSemaphoreTake q Check_State v s =
     Some (Continue (if prvIsQueueEmpty q s then if is_mutex (queues s q) then Inherit else Block
                     else Unlock_Tx TryAgain) v, s)"
| "xQueueSemaphoreTake q Inherit v s =
     map_option (\<lambda>(inherits, s). (Continue Block (v\<lparr>inherited := inherits\<rparr>), s))
       (on_kern_bool (xTaskPriorityInherit (xMutexHolder (queues s q))) s)"
| "xQueueSemaphoreTake q Expired v s =
     Some (if prvIsQueueEmpty q s then if inherited v then Continue Disinherit v else Return False []
           else Continue Attempt v, s)"
| "xQueueSemaphoreTake q Disinherit v s =
     map_option (Pair (Return False []))
       (on_kern (vTaskPriorityDisinheritAfterTimeout (xMutexHolder (queues s q))
          (prvGetHighestPriorityOfWaitToReceiveList q s)) s)"
| "xQueueSemaphoreTake q ph v s = waiting_for_item q ph v s"

section \<open>Mutexes\<close>

definition new_call :: "word32 \<Rightarrow> call_vars" where
  "new_call ticks = \<lparr>entry_time = None, ticks_left = ticks, inherited = False\<rparr>"

text \<open>A send that does not wait is done after its first attempt.\<close>

definition send_now :: "nat \<Rightarrow> byte list \<Rightarrow> copy_position \<Rightarrow> sys \<Rightarrow> (bool \<times> sys) option" where
  "send_now q item pos s = do {
     (r, s) \<leftarrow> xQueueGenericSend q item pos Enter (new_call 0) s;
     (r, s) \<leftarrow> xQueueGenericSend q item pos Attempt (new_call 0) s;
     (case r of Return b x \<Rightarrow> Some (b, s) | Continue ph v \<Rightarrow> None) }"

definition prvInitialiseMutex :: "nat \<Rightarrow> sys \<Rightarrow> sys option" where
  "prvInitialiseMutex q s =
     map_option snd (send_now q [] queueSEND_TO_BACK
       (upd_queue q (\<lambda>Q. Q\<lparr>xMutexHolder := None, pcHead := 0, uxRecursiveCallCount := 0\<rparr>) s))"

definition xQueueCreateMutex :: "(nat \<times> word32) option \<Rightarrow> sys \<Rightarrow> (nat option \<times> sys) option" where
  "xQueueCreateMutex new s = do {
     (xNewQueue, s) \<leftarrow> xQueueGenericCreate new 1 0 s;
     (case xNewQueue of None \<Rightarrow> Some (None, s)
      | Some q \<Rightarrow> map_option (Pair (Some q)) (prvInitialiseMutex q s)) }"

definition xQueueGetMutexHolder :: "nat \<Rightarrow> sys \<Rightarrow> tid option" where
  "xQueueGetMutexHolder q s = (if is_mutex (queues s q) then xMutexHolder (queues s q) else None)"

definition xQueueGiveMutexRecursive :: "nat \<Rightarrow> sys \<Rightarrow> (bool \<times> sys) option" where
  "xQueueGiveMutexRecursive q s =
     (if xMutexHolder (queues s q) = pxCurrentTCB (kern s) then
        let s = upd_queue q (\<lambda>Q. Q\<lparr>uxRecursiveCallCount := uxRecursiveCallCount Q - 1\<rparr>) s
        in if uxRecursiveCallCount (queues s q) = 0
           then map_option (\<lambda>(_, s). (True, s)) (send_now q [] queueSEND_TO_BACK s)
           else Some (True, s)
      else Some (False, s))"

text \<open>The count goes up when the mutex was held already or has just been taken.\<close>

definition count_recursive_take :: "nat \<Rightarrow> sys \<Rightarrow> sys option" where
  "count_recursive_take q s =
     (let s = upd_queue q (\<lambda>Q. Q\<lparr>uxRecursiveCallCount := uxRecursiveCallCount Q + 1\<rparr>) s
      in if uxRecursiveCallCount (queues s q) = 0 then None else Some s)"

definition xQueueTakeMutexRecursive :: "nat \<Rightarrow> phase \<Rightarrow> call_vars \<Rightarrow> sys \<Rightarrow> (progress \<times> sys) option" where
  "xQueueTakeMutexRecursive q ph v s =
     (if ph = Enter \<and> xMutexHolder (queues s q) = pxCurrentTCB (kern s)
      then map_option (Pair (Return True [])) (count_recursive_take q s)
      else do {
        (r, s) \<leftarrow> xQueueSemaphoreTake q ph v s;
        (case r of Return True x \<Rightarrow> map_option (Pair r) (count_recursive_take q s) | _ \<Rightarrow> Some (r, s)) })"

section \<open>Calls from interrupts\<close>

text \<open>The result, whether \<^verbatim>\<open>*pxHigherPriorityTaskWoken\<close> was set, and the state.\<close>

definition xQueueGenericSendFromISR ::
  "nat \<Rightarrow> byte list \<Rightarrow> copy_position \<Rightarrow> sys \<Rightarrow> (bool \<times> bool \<times> sys) option" where
  "xQueueGenericSendFromISR q item xCopyPosition s =
     (if xCopyPosition = queueOVERWRITE \<and> uxLength (queues s q) \<noteq> 1 then None
      else if uxMessagesWaiting (queues s q) < uxLength (queues s q) \<or> xCopyPosition = queueOVERWRITE then do {
        let lock = cTxLock (queues s q);
        (_, s) \<leftarrow> prvCopyDataToQueue q item xCopyPosition s;
        (woken, s) \<leftarrow> (if lock = queueUNLOCKED then release_waiter (waiting_to_receive q) s
                       else map_option (Pair False) (prvIncrementQueueTxLock q lock s));
        Some (True, woken, s) }
      else Some (False, False, s))"

definition xQueueGiveFromISR :: "nat \<Rightarrow> sys \<Rightarrow> (bool \<times> bool \<times> sys) option" where
  "xQueueGiveFromISR q s =
     (let Q = queues s q in
      if uxItemSize Q \<noteq> 0 \<or> is_mutex Q \<and> xMutexHolder Q \<noteq> None then None
      else if uxMessagesWaiting Q < uxLength Q then do {
        let lock = cTxLock Q;
        let s = upd_queue q (uxMessagesWaiting_update (\<lambda>_. uxMessagesWaiting Q + 1)) s;
        (woken, s) \<leftarrow> (if lock = queueUNLOCKED then release_waiter (waiting_to_receive q) s
                       else map_option (Pair False) (prvIncrementQueueTxLock q lock s));
        Some (True, woken, s) }
      else Some (False, False, s))"

definition xQueueReceiveFromISR :: "nat \<Rightarrow> sys \<Rightarrow> (bool \<times> byte list \<times> bool \<times> sys) option" where
  "xQueueReceiveFromISR q s =
     (if uxMessagesWaiting (queues s q) > 0 then do {
        let lock = cRxLock (queues s q);
        let (x, m, Q) = fetch_item (memry s, queues s q);
        let s = upd_queue q (\<lambda>_. Q) s;
        (woken, s) \<leftarrow> (if lock = queueUNLOCKED then release_waiter (waiting_to_send q) s
                       else map_option (Pair False) (prvIncrementQueueRxLock q lock s));
        Some (True, x, woken, s) }
      else Some (False, [], False, s))"

definition xQueuePeekFromISR :: "nat \<Rightarrow> sys \<Rightarrow> (bool \<times> byte list) option" where
  "xQueuePeekFromISR q s =
     (if uxItemSize (queues s q) = 0 then None
      else if uxMessagesWaiting (queues s q) > 0
      then Some (True, fst (peek_item (memry s, queues s q))) else Some (False, []))"

definition xQueueIsQueueEmptyFromISR :: "nat \<Rightarrow> sys \<Rightarrow> bool" where
  "xQueueIsQueueEmptyFromISR q s \<longleftrightarrow> uxMessagesWaiting (queues s q) = 0"

definition xQueueIsQueueFullFromISR :: "nat \<Rightarrow> sys \<Rightarrow> bool" where
  "xQueueIsQueueFullFromISR q s \<longleftrightarrow> uxMessagesWaiting (queues s q) = uxLength (queues s q)"

end
