(* ===== verification/Queue_System.thy ===== *)
theory Queue_System
  imports Queue
begin

text \<open>
  A system of tasks that communicate through queues, semaphores and mutexes. Every task has at
  most one call in progress, whose program point and local variables are kept by task; the
  running task advances its call step by step, and the tick and other interrupts come between
  the steps. A call that takes effect, or is refused, produces an outcome, and
  \<open>spec_step\<close> says what an outcome may be: queues are atomic objects.
\<close>

section \<open>The system\<close>

datatype queue_call =
    Send_Call nat "byte list" copy_position | Receive_Call nat | Peek_Call nat | Take_Call nat

fun call_queue :: "queue_call \<Rightarrow> nat" where
  "call_queue (Send_Call q x pos) = q"
| "call_queue (Receive_Call q) = q"
| "call_queue (Peek_Call q) = q"
| "call_queue (Take_Call q) = q"

fun call_step :: "queue_call \<Rightarrow> phase \<Rightarrow> call_vars \<Rightarrow> sys \<Rightarrow> (progress \<times> sys) option" where
  "call_step (Send_Call q x pos) = xQueueGenericSend q x pos"
| "call_step (Receive_Call q) = xQueueReceive q"
| "call_step (Peek_Call q) = xQueuePeek q"
| "call_step (Take_Call q) = xQueueSemaphoreTake q"

text \<open>The operation on the abstract object, and what the caller learns of it.\<close>

fun call_op :: "queue_call \<Rightarrow> byte list deque_op" where
  "call_op (Send_Call q x pos) = Put pos x"
| "call_op (Receive_Call q) = Get"
| "call_op (Peek_Call q) = Peek"
| "call_op (Take_Call q) = Get"

fun learned :: "byte list deque_op \<Rightarrow> Queue_t \<Rightarrow> bool \<Rightarrow> byte list \<Rightarrow> bool \<times> byte list option" where
  "learned (Put pos y) Q done x = (done, None)"
| "learned opn Q done x = (done, if done \<and> uxItemSize Q \<noteq> 0 then Some x else None)"

record conf =
  system :: sys
  calls :: "tid \<Rightarrow> (queue_call \<times> phase \<times> call_vars) option"

datatype event =
    Start queue_call word32 | Advance | Tick | Reschedule | Sleep word32
  | Isr_Send nat "byte list" copy_position | Isr_Give nat | Isr_Receive nat

text \<open>The caller (none for an interrupt), the queue, the operation, and the result.\<close>

type_synonym outcome = "tid option \<times> nat \<times> byte list deque_op \<times> bool \<times> byte list option"

definition on_system :: "conf \<Rightarrow> sys \<Rightarrow> conf" where
  "on_system c s = c\<lparr>system := s\<rparr>"

definition isr_switch :: "bool \<Rightarrow> sys \<Rightarrow> sys option" where
  "isr_switch required s = (if required then on_kern vTaskSwitchContext s else Some s)"

definition advance :: "conf \<Rightarrow> (outcome option \<times> conf) option" where
  "advance c = do {
     t \<leftarrow> pxCurrentTCB (kern (system c));
     (call, ph, v) \<leftarrow> calls c t;
     (r, s) \<leftarrow> call_step call ph v (system c);
     Some (case r of
         Return done x \<Rightarrow>
           (if ph = Attempt
            then Some (Some t, call_queue call, call_op call, learned (call_op call) (queues s (call_queue call)) done x)
            else None,
            c\<lparr>system := s, calls := (calls c)(t := None)\<rparr>)
       | Continue ph v \<Rightarrow> (None, c\<lparr>system := s, calls := (calls c)(t \<mapsto> (call, ph, v))\<rparr>)) }"

fun sys_step :: "event \<Rightarrow> conf \<Rightarrow> (outcome option \<times> conf) option" where
  "sys_step (Start call ticks) c = do {
     t \<leftarrow> pxCurrentTCB (kern (system c));
     Some (None, c\<lparr>calls := (calls c)(t \<mapsto> (call, Enter, new_call ticks))\<rparr>) }"
| "sys_step Advance c = advance c"
| "sys_step Tick c = do {
     (required, s) \<leftarrow> on_kern_bool xTaskIncrementTick (system c);
     s \<leftarrow> isr_switch required s;
     Some (None, on_system c s) }"
| "sys_step Reschedule c = map_option (\<lambda>s. (None, on_system c s)) (on_kern portYIELD_WITHIN_API (system c))"
| "sys_step (Sleep n) c = map_option (\<lambda>s. (None, on_system c s)) (on_kern (vTaskDelay n) (system c))"
| "sys_step (Isr_Send q x pos) c = do {
     (done, woken, s) \<leftarrow> xQueueGenericSendFromISR q x pos (system c);
     s \<leftarrow> isr_switch woken s;
     Some (Some (None, q, Put pos x, done, None), on_system c s) }"
| "sys_step (Isr_Give q) c = do {
     (done, woken, s) \<leftarrow> xQueueGiveFromISR q (system c);
     s \<leftarrow> isr_switch woken s;
     Some (Some (None, q, Put queueSEND_TO_BACK [], done, None), on_system c s) }"
| "sys_step (Isr_Receive q) c = do {
     (done, x, woken, s) \<leftarrow> xQueueReceiveFromISR q (system c);
     s \<leftarrow> isr_switch woken s;
     Some (Some (None, q, Get, learned Get (queues s q) done x), on_system c s) }"

text \<open>A run stops at a failed assertion.\<close>

primrec run_events :: "event list \<Rightarrow> conf \<Rightarrow> (outcome list \<times> conf) option" where
  "run_events [] c = Some ([], c)"
| "run_events (e # es) c = do {
     (out, c) \<leftarrow> sys_step e c;
     (outs, c) \<leftarrow> run_events es c;
     Some (case out of None \<Rightarrow> outs | Some x \<Rightarrow> x # outs, c) }"

section \<open>What the API allows\<close>

text \<open>
  Items have the size of the queue; only queues of length 1 are overwritten; a mutex is given
  by its holder, and not taken again by it; only semaphores and mutexes are taken.
\<close>

definition put_allowed :: "Queue_t \<Rightarrow> byte list \<Rightarrow> copy_position \<Rightarrow> bool" where
  "put_allowed Q x pos \<longleftrightarrow> (uxItemSize Q \<noteq> 0 \<longrightarrow> length x = unat (uxItemSize Q)) \<and>
     (pos = queueOVERWRITE \<longrightarrow> uxItemSize Q \<noteq> 0 \<and> uxLength Q = 1)"

fun call_allowed :: "tid \<Rightarrow> queue_call \<Rightarrow> (nat \<Rightarrow> Queue_t) \<Rightarrow> bool" where
  "call_allowed t (Send_Call q x pos) Q \<longleftrightarrow>
     put_allowed (Q q) x pos \<and> (is_mutex (Q q) \<longrightarrow> xMutexHolder (Q q) = Some t)"
| "call_allowed t (Receive_Call q) Q \<longleftrightarrow> \<not> is_mutex (Q q)"
| "call_allowed t (Peek_Call q) Q \<longleftrightarrow> \<not> is_mutex (Q q)"
| "call_allowed t (Take_Call q) Q \<longleftrightarrow> uxItemSize (Q q) = 0 \<and> (is_mutex (Q q) \<longrightarrow> xMutexHolder (Q q) \<noteq> Some t)"

text \<open>
  The idle task \<open>i\<close> does not wait, and \<open>n\<close> queues have been created. A task starts a call, yields
  or sleeps when it has no call in progress; interrupts do not use mutexes.
\<close>

fun permitted :: "tid \<Rightarrow> nat \<Rightarrow> event \<Rightarrow> conf \<Rightarrow> bool" where
  "permitted i n (Start call ticks) c \<longleftrightarrow> (case pxCurrentTCB (kern (system c)) of None \<Rightarrow> False
     | Some t \<Rightarrow> calls c t = None \<and> (t = i \<longrightarrow> ticks = 0) \<and> call_queue call < n \<and>
         call_allowed t call (queues (system c)))"
| "permitted i n Advance c \<longleftrightarrow> (case pxCurrentTCB (kern (system c)) of None \<Rightarrow> False | Some t \<Rightarrow> calls c t \<noteq> None)"
| "permitted i n Tick c \<longleftrightarrow> True"
| "permitted i n Reschedule c \<longleftrightarrow> (case pxCurrentTCB (kern (system c)) of None \<Rightarrow> False | Some t \<Rightarrow> calls c t = None)"
| "permitted i n (Sleep d) c \<longleftrightarrow>
     (case pxCurrentTCB (kern (system c)) of None \<Rightarrow> False | Some t \<Rightarrow> calls c t = None \<and> t \<noteq> i)"
| "permitted i n (Isr_Send q x pos) c \<longleftrightarrow> q < n \<and> \<not> is_mutex (queues (system c) q) \<and> put_allowed (queues (system c) q) x pos"
| "permitted i n (Isr_Give q) c \<longleftrightarrow> q < n \<and> \<not> is_mutex (queues (system c) q) \<and> uxItemSize (queues (system c) q) = 0"
| "permitted i n (Isr_Receive q) c \<longleftrightarrow> q < n \<and> \<not> is_mutex (queues (system c) q)"

fun all_permitted :: "tid \<Rightarrow> nat \<Rightarrow> event list \<Rightarrow> conf \<Rightarrow> bool" where
  "all_permitted i n [] c \<longleftrightarrow> True"
| "all_permitted i n (e # es) c \<longleftrightarrow> permitted i n e c \<and>
     (case sys_step e c of None \<Rightarrow> True | Some (out, c') \<Rightarrow> all_permitted i n es c')"

section \<open>Queues as atomic objects\<close>

text \<open>
  A queue holds items, a semaphore has a count, each with its capacity; a mutex has an owner or
  none. The caller of an operation is \<open>t\<close>, and \<open>None\<close> is an interrupt.
\<close>

datatype queue_obj = Items nat "byte list list" | Count nat nat | Owner "tid option"

fun obj_count :: "queue_obj \<Rightarrow> nat" where
  "obj_count (Items n xs) = length xs"
| "obj_count (Count n k) = k"
| "obj_count (Owner h) = (if h = None then 1 else 0)"

fun obj_room :: "tid option \<Rightarrow> queue_obj \<Rightarrow> bool" where
  "obj_room t (Items n xs) \<longleftrightarrow> length xs < n"
| "obj_room t (Count n k) \<longleftrightarrow> k < n"
| "obj_room t (Owner h) \<longleftrightarrow> h \<noteq> None \<and> h = t"

fun overwrites :: "copy_position \<Rightarrow> queue_obj \<Rightarrow> bool" where
  "overwrites pos (Items n xs) \<longleftrightarrow> pos = queueOVERWRITE"
| "overwrites pos ob \<longleftrightarrow> False"

fun obj_put :: "copy_position \<Rightarrow> byte list \<Rightarrow> queue_obj \<Rightarrow> queue_obj" where
  "obj_put pos x (Items n xs) = Items n (deque_put pos x xs)"
| "obj_put pos x (Count n k) = Count n (k + 1)"
| "obj_put pos x (Owner h) = Owner None"

fun obj_item :: "queue_obj \<Rightarrow> byte list option" where
  "obj_item (Items n (x # xs)) = Some x"
| "obj_item ob = None"

fun obj_get :: "tid option \<Rightarrow> queue_obj \<Rightarrow> queue_obj" where
  "obj_get t (Items n xs) = Items n (tl xs)"
| "obj_get t (Count n k) = Count n (k - 1)"
| "obj_get t (Owner h) = Owner t"

fun spec_step :: "tid option \<Rightarrow> byte list deque_op \<Rightarrow> queue_obj \<Rightarrow> (bool \<times> byte list option) \<times> queue_obj" where
  "spec_step t (Put pos x) ob =
     (if obj_room t ob \<or> overwrites pos ob then ((True, None), obj_put pos x ob) else ((False, None), ob))"
| "spec_step t Get ob = (if obj_count ob = 0 then ((False, None), ob) else ((True, obj_item ob), obj_get t ob))"
| "spec_step t Peek ob = (if obj_count ob = 0 then ((False, None), ob) else ((True, obj_item ob), ob))"

text \<open>On message queues this is the double-ended queue of \<^verbatim>\<open>Queue_Storage\<close>.\<close>

lemma spec_step_items: "spec_step t opn (Items n xs) = map_prod id (Items n) (deque_step n opn xs)"
  by (cases opn; cases xs) auto

text \<open>A sequence of outcomes that the objects can produce.\<close>

primrec spec_run :: "outcome list \<Rightarrow> (nat \<Rightarrow> queue_obj) \<Rightarrow> (nat \<Rightarrow> queue_obj) option" where
  "spec_run [] A = Some A"
| "spec_run (x # xs) A = (case x of (t, q, opn, r) \<Rightarrow>
     (case spec_step t opn (A q) of (r', ob) \<Rightarrow> if r = r' then spec_run xs (A(q := ob)) else None))"

end
