(* ===== verification/Scheduler_Inv.thy ===== *)
theory Scheduler_Inv
  imports Scheduler
begin

text \<open>
  The invariant of the scheduler through its operations: no operation of the theory
  \<open>Scheduler\<close> trips an assertion, and each keeps the lists in order.
\<close>

section \<open>Choosing a task\<close>

declare highest_ready.simps [simp del]

lemma word_le_pred: "p \<noteq> 0 \<Longrightarrow> q \<le> p \<longleftrightarrow> q = p \<or> q \<le> p - 1" for p q :: word32
proof -
  assume p: "p \<noteq> 0"
  then have "unat p \<noteq> 0" by (simp add: unat_eq_zero)
  then show ?thesis using p by (auto simp: word_le_nat_alt unat_minus_one word_unat_eq_iff)
qed

lemma highest_ready_none: "highest_ready p s = None \<longleftrightarrow> (\<forall>q \<le> p. is_empty (ReadyList q) s)"
proof (induction p s rule: highest_ready.induct)
  case (1 p s)
  show ?case
  proof (cases "is_empty (ReadyList p) s \<and> p \<noteq> 0")
    case True
    then show ?thesis using 1 word_le_pred [of p] by (subst highest_ready.simps) auto
  next
    case False
    then show ?thesis by (subst highest_ready.simps) auto
  qed
qed

lemma highest_ready_some:
  "highest_ready p s = Some q \<Longrightarrow>
   q \<le> p \<and> \<not> is_empty (ReadyList q) s \<and> (\<forall>r. q < r \<and> r \<le> p \<longrightarrow> is_empty (ReadyList r) s)"
proof (induction p s rule: highest_ready.induct)
  case (1 p s)
  show ?case
  proof (cases "is_empty (ReadyList p) s")
    case True
    then have p: "p \<noteq> 0" and q: "highest_ready (p - 1) s = Some q"
      using 1(2) by (auto simp: highest_ready.simps [of p] split: if_splits)
    from 1(1) [OF True p q] show ?thesis
      using True word_le_pred [OF p] by (metis order.trans nle_le)
  next
    case False
    then show ?thesis using 1(2) by (auto simp: highest_ready.simps [of p])
  qed
qed

text \<open>
  The ready list of the highest priority with a ready task is the one \<open>highest_ready\<close> finds,
  because no task is ready above the recorded top priority.
\<close>

definition top_ready :: "kernel \<Rightarrow> word32 \<Rightarrow> bool" where
  "top_ready s p \<longleftrightarrow> \<not> is_empty (ReadyList p) s \<and> (\<forall>q > p. is_empty (ReadyList q) s)"

lemma core_ok_items:
  assumes ok: "core_ok s" and l: "state_list l" and i: "i \<in> set (kitems (klists s l))"
  shows "\<exists>t. i = StateItem t \<and> container s (StateItem t) = Some l"
proof (cases i)
  case (StateItem t)
  then show ?thesis using i lists_okD(2) [OF core_okD(1) [OF ok]] by simp
next
  case (EventItem t)
  then show ?thesis
    using i l core_okD(4) [OF ok, of t] lists_okD(2) [OF core_okD(1) [OF ok]] by (simp add: task_ok_def)
qed

lemma core_ok_event_items:
  assumes ok: "core_ok s" and l: "\<not> state_list l" and i: "i \<in> set (kitems (klists s l))"
  shows "\<exists>t. i = EventItem t \<and> container s (EventItem t) = Some l"
proof (cases i)
  case (EventItem t)
  then show ?thesis using i lists_okD(2) [OF core_okD(1) [OF ok]] by simp
next
  case (StateItem t)
  then show ?thesis
    using i l core_okD(4) [OF ok, of t] lists_okD(2) [OF core_okD(1) [OF ok]] by (simp add: task_ok_def)
qed

lemma ready_le_top:
  assumes "core_ok s" "\<not> is_empty (ReadyList p) s"
  shows "p \<le> uxTopReadyPriority s"
proof -
  obtain i where "i \<in> set (kitems (klists s (ReadyList p)))"
    using assms(2) by (meson hd_in_set is_empty_def)
  from core_ok_items [OF assms(1) _ this] obtain t where "container s (StateItem t) = Some (ReadyList p)"
    by auto
  then show ?thesis using core_okD(4) [OF assms(1), of t] by (auto simp: task_ok_def)
qed

lemma highest_ready_top:
  assumes "core_ok s" "top_ready s p"
  shows "highest_ready (uxTopReadyPriority s) s = Some p"
proof (cases "highest_ready (uxTopReadyPriority s) s")
  case None
  then show ?thesis using assms ready_le_top [of s p] by (auto simp: highest_ready_none top_ready_def)
next
  case (Some q)
  from highest_ready_some [OF this]
  have q: "q \<le> uxTopReadyPriority s" "\<not> is_empty (ReadyList q) s"
    "\<forall>r. q < r \<and> r \<le> uxTopReadyPriority s \<longrightarrow> is_empty (ReadyList r) s" by auto
  have "p = q"
    using q assms(2) ready_le_top [OF assms(1), of p] unfolding top_ready_def by (metis linorder_neqE)
  then show ?thesis using Some by simp
qed

lemma top_ready_exists:
  assumes "core_ok s" "\<not> is_empty (ReadyList p) s"
  shows "\<exists>q. top_ready s q"
proof -
  have "highest_ready (uxTopReadyPriority s) s \<noteq> None"
    using ready_le_top [OF assms] assms(2) by (auto simp: highest_ready_none)
  then obtain q where q: "highest_ready (uxTopReadyPriority s) s = Some q" by blast
  have "top_ready s q"
    using highest_ready_some [OF q] ready_le_top [OF assms(1)] unfolding top_ready_def by blast
  then show ?thesis ..
qed

lemma next_entry_frame:
  "next_entry l s = (t, s') \<Longrightarrow> s' = s\<lparr>klists := (klists s)(l := kl_next (klists s l))\<rparr>"
  by (simp add: next_entry_def Let_def)

lemma next_entry_owner:
  "lists_ok s \<Longrightarrow> \<not> is_empty l s \<Longrightarrow> fst (next_entry l s) = owner_of (hd (kl_round (klists s l)))"
  using kl_next_index [OF lists_okD(1), of s l] by (simp add: next_entry_def Let_def is_empty_def)

text \<open>A context switch runs the next task of the highest non-empty ready list, and turns that list.\<close>

definition switched :: "kernel \<Rightarrow> word32 \<Rightarrow> kernel" where
  "switched s p = s\<lparr>klists := (klists s)(ReadyList p := kl_next (klists s (ReadyList p))),
     pxCurrentTCB := Some (owner_of (hd (kl_round (klists s (ReadyList p))))),
     uxTopReadyPriority := p, xYieldPending := False\<rparr>"

lemma vTaskSwitchContext_top:
  assumes "core_ok s" "uxSchedulerSuspended s = 0" "top_ready s p"
  shows "vTaskSwitchContext s = Some (switched s p)"
proof -
  let ?s = "s\<lparr>xYieldPending := False\<rparr>"
  have "core_ok ?s" using assms(1) by simp
  moreover have tr: "top_ready ?s p" using assms(3) by (simp add: top_ready_def is_empty_def)
  ultimately have "highest_ready (uxTopReadyPriority ?s) ?s = Some p" by (rule highest_ready_top)
  moreover have "\<not> is_empty (ReadyList p) ?s" using tr by (simp add: top_ready_def)
  moreover have "lists_ok ?s" using \<open>core_ok ?s\<close> by (rule core_okD)
  ultimately show ?thesis
    using next_entry_owner [of ?s "ReadyList p"] assms(2)
    by (simp add: vTaskSwitchContext_def taskSELECT_HIGHEST_PRIORITY_TASK_def switched_def
        next_entry_def Let_def)
qed

lemma core_ok_switched:
  assumes ok: "core_ok s" and p: "top_ready s p"
  shows "core_ok (switched s p)"
proof -
  let ?s = "switched s p"
  have l: "kitems (klists ?s l) = kitems (klists s l)" for l by (simp add: switched_def)
  have f: "container ?s = container s" "tcbs ?s = tcbs s" "item_value ?s = item_value s"
    "uxTopReadyPriority ?s = p" by (simp_all add: switched_def)
  have "kl_wf (klists ?s l)" for l
    using lists_okD(1) [OF core_okD(1) [OF ok]] by (simp add: switched_def kl_wf_next)
  then have "lists_ok ?s" using core_okD(1) [OF ok] by (simp add: lists_ok_def l f)
  moreover have "task_ok ?s t" for t
  proof -
    have "q \<le> p" if "container s (StateItem t) = Some (ReadyList q)" for q
    proof -
      have "StateItem t \<in> set (kitems (klists s (ReadyList q)))"
        using that lists_okD(2) [OF core_okD(1) [OF ok]] by simp
      then have "\<not> is_empty (ReadyList q) s" by (auto simp: is_empty_def)
      then show ?thesis using p by (auto simp: top_ready_def not_less [symmetric])
    qed
    then show ?thesis using core_okD(4) [OF ok, of t] by (simp add: task_ok_def f)
  qed
  moreover have "p < configMAX_PRIORITIES"
    using ready_le_top [OF ok, of p] p core_okD(5) [OF ok] by (auto simp: top_ready_def)
  ultimately show ?thesis
    using core_okD(2,3) [OF ok] by (simp add: core_ok_def delayed_pair_def delayed_sorted_def l f switched_def)
qed

text \<open>The running task is one of the ready tasks of the highest priority.\<close>

definition runs_highest :: "kernel \<Rightarrow> bool" where
  "runs_highest s \<longleftrightarrow> (\<exists>c p. pxCurrentTCB s = Some c \<and>
     container s (StateItem c) = Some (ReadyList p) \<and> top_ready s p)"

lemma runs_highest_switched:
  assumes ok: "core_ok s" and p: "top_ready s p"
  shows "runs_highest (switched s p)"
proof -
  have ne: "kitems (klists s (ReadyList p)) \<noteq> []" using p by (simp add: top_ready_def is_empty_def)
  have wf: "kl_wf (klists s (ReadyList p))" by (rule lists_okD(1) [OF core_okD(1) [OF ok]])
  have "kl_round (klists s (ReadyList p)) \<noteq> []" using kl_round_perm(3) [OF wf] ne by auto
  then have "hd (kl_round (klists s (ReadyList p))) \<in> set (kitems (klists s (ReadyList p)))"
    using kl_round_perm(1) [OF wf] hd_in_set by blast
  from core_ok_items [OF ok _ this] obtain c where
    "hd (kl_round (klists s (ReadyList p))) = StateItem c" "container s (StateItem c) = Some (ReadyList p)"
    by auto
  moreover have "top_ready (switched s p) p" using p by (simp add: top_ready_def is_empty_def switched_def)
  ultimately show ?thesis by (auto simp: runs_highest_def switched_def)
qed

section \<open>Making a task ready\<close>

lemma prvAddTaskToReadyList_frame [frame_simps]:
  "container (prvAddTaskToReadyList t s) =
     (container s)(StateItem t := Some (ReadyList (uxPriority (tcbs s t))))"
  "item_value (prvAddTaskToReadyList t s) = item_value s" "tcbs (prvAddTaskToReadyList t s) = tcbs s"
  "pxCurrentTCB (prvAddTaskToReadyList t s) = pxCurrentTCB s"
  "pxDelayedTaskList (prvAddTaskToReadyList t s) = pxDelayedTaskList s"
  "pxOverflowDelayedTaskList (prvAddTaskToReadyList t s) = pxOverflowDelayedTaskList s"
  "xTickCount (prvAddTaskToReadyList t s) = xTickCount s"
  "xNextTaskUnblockTime (prvAddTaskToReadyList t s) = xNextTaskUnblockTime s"
  "uxSchedulerSuspended (prvAddTaskToReadyList t s) = uxSchedulerSuspended s"
  "xPendedTicks (prvAddTaskToReadyList t s) = xPendedTicks s"
  "xYieldPending (prvAddTaskToReadyList t s) = xYieldPending s"
  "xSchedulerRunning (prvAddTaskToReadyList t s) = xSchedulerRunning s"
  "uxCurrentNumberOfTasks (prvAddTaskToReadyList t s) = uxCurrentNumberOfTasks s"
  "xNumOfOverflows (prvAddTaskToReadyList t s) = xNumOfOverflows s"
  "uxDeletedTasksWaitingCleanUp (prvAddTaskToReadyList t s) = uxDeletedTasksWaitingCleanUp s"
  "uxTaskNumber (prvAddTaskToReadyList t s) = uxTaskNumber s" "freed (prvAddTaskToReadyList t s) = freed s"
  by (simp_all add: prvAddTaskToReadyList_def taskRECORD_READY_PRIORITY_def Let_def frame_simps)

lemma klists_prvAddTaskToReadyList:
  "klists (prvAddTaskToReadyList t s) = (klists s)(ReadyList (uxPriority (tcbs s t)) :=
     kl_insert_end (StateItem t) (klists s (ReadyList (uxPriority (tcbs s t)))))"
  by (simp add: prvAddTaskToReadyList_def taskRECORD_READY_PRIORITY_def Let_def insert_end_def)

lemma torn_record:
  assumes tn: "torn t s" and p: "p < configMAX_PRIORITIES"
  shows "torn t (taskRECORD_READY_PRIORITY p s)"
proof (cases "p > uxTopReadyPriority s")
  case True
  then have "task_ok s u \<Longrightarrow> task_ok (s\<lparr>uxTopReadyPriority := p\<rparr>) u" for u
    by (auto simp: task_ok_def)
  then show ?thesis
    using True p tn
    by (simp add: taskRECORD_READY_PRIORITY_def torn_def lists_ok_def delayed_pair_def delayed_sorted_def)
next
  case False
  then show ?thesis using tn by (simp add: taskRECORD_READY_PRIORITY_def)
qed

lemma torn_ready:
  assumes tn: "torn t s" and e: "container s (EventItem t) \<in> {None, Some PendingReadyList}"
  shows "core_ok (prvAddTaskToReadyList t s)"
  unfolding prvAddTaskToReadyList_def Let_def
proof (rule torn_insert_end)
  show "torn t (taskRECORD_READY_PRIORITY (uxPriority (tcbs s t)) s)"
    by (rule torn_record [OF tn tornD(4) [OF tn]])
qed (use e in \<open>auto simp: taskRECORD_READY_PRIORITY_def not_less\<close>)

lemma remove_event_item_ok:
  assumes tn: "torn t s"
  obtains s' where "remove_event_item t s = Some s'" "torn t s'" "container s' (EventItem t) = None"
    "container s' = (container s)(EventItem t := None)"
    "item_value s' = item_value s" "tcbs s' = tcbs s" "pxCurrentTCB s' = pxCurrentTCB s"
    "pxDelayedTaskList s' = pxDelayedTaskList s" "xTickCount s' = xTickCount s"
    "xNextTaskUnblockTime s' = xNextTaskUnblockTime s" "uxSchedulerSuspended s' = uxSchedulerSuspended s"
    "xPendedTicks s' = xPendedTicks s" "xYieldPending s' = xYieldPending s"
    "uxCurrentNumberOfTasks s' = uxCurrentNumberOfTasks s" "xSchedulerRunning s' = xSchedulerRunning s"
    "pxOverflowDelayedTaskList s' = pxOverflowDelayedTaskList s"
    "\<And>l. state_list l \<Longrightarrow> klists s' l = klists s l"
proof (cases "container s (EventItem t)")
  case None
  then show ?thesis using tn by (intro that [of s]) (auto simp: remove_event_item_def)
next
  case (Some l)
  then obtain s' where r: "list_remove (EventItem t) s = Some s'"
    using list_remove_some [of s "EventItem t"] by auto
  note f = list_remove_frame [OF r] list_remove_container [OF r]
  have "\<not> state_list l" using tn Some by (simp add: torn_def)
  then have "klists s' m = klists s m" if "state_list m" for m
    using r Some that by (auto elim!: list_remove_cases)
  then show ?thesis
    using Some r torn_remove_event [OF tn r]
    by (intro that [of s']) (simp_all add: remove_event_item_def f)
qed

section \<open>The tick\<close>

definition expired :: "kernel \<Rightarrow> tid \<Rightarrow> bool" where
  "expired s t \<longleftrightarrow> container s (StateItem t) = Some (pxDelayedTaskList s) \<and>
     item_value s (StateItem t) \<le> xTickCount s"

text \<open>\<open>s'\<close> is \<open>s\<close> with the tasks of \<open>W\<close> made ready; time and all other tasks are as they were.\<close>

definition woken :: "(tid \<Rightarrow> bool) \<Rightarrow> kernel \<Rightarrow> kernel \<Rightarrow> bool" where
  "woken W s s' \<longleftrightarrow>
     (\<forall>t. container s' (StateItem t) =
        (if W t then Some (ReadyList (uxPriority (tcbs s t))) else container s (StateItem t))) \<and>
     (\<forall>t. container s' (EventItem t) = (if W t then None else container s (EventItem t))) \<and>
     item_value s' = item_value s \<and> tcbs s' = tcbs s \<and> pxCurrentTCB s' = pxCurrentTCB s \<and>
     pxDelayedTaskList s' = pxDelayedTaskList s \<and>
     pxOverflowDelayedTaskList s' = pxOverflowDelayedTaskList s \<and>
     xTickCount s' = xTickCount s \<and> uxSchedulerSuspended s' = uxSchedulerSuspended s \<and>
     xPendedTicks s' = xPendedTicks s \<and> uxCurrentNumberOfTasks s' = uxCurrentNumberOfTasks s \<and>
     xSchedulerRunning s' = xSchedulerRunning s"

lemma woken_refl: "(\<And>t. \<not> W t) \<Longrightarrow> woken W s s"
  by (simp add: woken_def)

lemma woken_trans:
  assumes "woken V s s1" "woken U s1 s2" "\<And>t. W t \<longleftrightarrow> V t \<or> U t"
  shows "woken W s s2"
  using assms by (auto simp: woken_def)

text \<open>One task taken off the delayed list, as the loop does it.\<close>

lemma wake_one:
  assumes ok: "core_ok s" and t: "container s (StateItem t) \<noteq> None"
  obtains s1 s2 s3 where "list_remove (StateItem t) s = Some s1" "remove_event_item t s1 = Some s2"
    "s3 = prvAddTaskToReadyList t s2" "core_ok s3" "woken (\<lambda>u. u = t) s s3"
    "xNextTaskUnblockTime s3 = xNextTaskUnblockTime s" "xYieldPending s3 = xYieldPending s"
    "\<And>l. state_list l \<Longrightarrow> container s (StateItem t) = Some l \<Longrightarrow> (\<forall>p. l \<noteq> ReadyList p) \<Longrightarrow>
       kitems (klists s3 l) = remove1 (StateItem t) (kitems (klists s l))"
proof -
  obtain s1 where r: "list_remove (StateItem t) s = Some s1" using list_remove_some t by blast
  note f = list_remove_frame [OF r] list_remove_container [OF r]
  have tn: "torn t s1" by (rule torn_remove_state [OF ok r])
  from remove_event_item_ok [OF tn] obtain s2 where
    s2: "remove_event_item t s1 = Some s2" "torn t s2" "container s2 (EventItem t) = None" and
    g: "container s2 = (container s1)(EventItem t := None)"
    "item_value s2 = item_value s1" "tcbs s2 = tcbs s1" "pxCurrentTCB s2 = pxCurrentTCB s1"
    "pxDelayedTaskList s2 = pxDelayedTaskList s1" "xTickCount s2 = xTickCount s1"
    "xNextTaskUnblockTime s2 = xNextTaskUnblockTime s1" "uxSchedulerSuspended s2 = uxSchedulerSuspended s1"
    "xPendedTicks s2 = xPendedTicks s1" "xYieldPending s2 = xYieldPending s1"
    "uxCurrentNumberOfTasks s2 = uxCurrentNumberOfTasks s1" "xSchedulerRunning s2 = xSchedulerRunning s1"
    "pxOverflowDelayedTaskList s2 = pxOverflowDelayedTaskList s1" and
    k: "\<And>l. state_list l \<Longrightarrow> klists s2 l = klists s1 l"
    by metis
  show ?thesis
  proof (rule that [OF r s2(1) refl])
    show "core_ok (prvAddTaskToReadyList t s2)" by (rule torn_ready [OF s2(2)]) (simp add: s2(3))
    show "woken (\<lambda>u. u = t) s (prvAddTaskToReadyList t s2)"
      by (simp add: woken_def frame_simps g f)
    show "xNextTaskUnblockTime (prvAddTaskToReadyList t s2) = xNextTaskUnblockTime s"
      "xYieldPending (prvAddTaskToReadyList t s2) = xYieldPending s"
      by (simp_all add: frame_simps g f)
    show "kitems (klists (prvAddTaskToReadyList t s2) l) = remove1 (StateItem t) (kitems (klists s l))"
      if "state_list l" "container s (StateItem t) = Some l" "\<forall>p. l \<noteq> ReadyList p" for l
      using that r by (auto simp: klists_prvAddTaskToReadyList k kl_remove_def elim!: list_remove_cases)
  qed
qed

lemma delayed_head:
  assumes ok: "core_ok s" and ne: "\<not> is_empty (pxDelayedTaskList s) s"
  obtains t where "head_entry (pxDelayedTaskList s) s = t"
    "hd (kitems (klists s (pxDelayedTaskList s))) = StateItem t"
    "container s (StateItem t) = Some (pxDelayedTaskList s)"
    "\<And>u. container s (StateItem u) = Some (pxDelayedTaskList s) \<Longrightarrow>
       item_value s (StateItem t) \<le> item_value s (StateItem u)"
proof -
  let ?D = "pxDelayedTaskList s"
  have D: "state_list ?D" using delayed_pairD(1) [OF core_okD(2) [OF ok]] by auto
  obtain i xs where it: "kitems (klists s ?D) = i # xs"
    using ne by (cases "kitems (klists s ?D)") (auto simp: is_empty_def)
  obtain t where t: "i = StateItem t" "container s (StateItem t) = Some ?D"
    using core_ok_items [OF ok D, of i] it by auto
  have "sorted (map (item_value s) (kitems (klists s ?D)))"
    using core_okD(3) [OF ok] delayed_pairD(1) [OF core_okD(2) [OF ok]] by (auto simp: delayed_sorted_def)
  then have "item_value s (StateItem t) \<le> item_value s (StateItem u)"
    if "container s (StateItem u) = Some ?D" for u
    using that lists_okD(2) [OF core_okD(1) [OF ok], of "StateItem u" ?D] by (auto simp: it t(1))
  then show ?thesis using that [of t] it t by (simp add: head_entry_def)
qed

declare unblock_expired.simps [code]

lemma woken_overflow_ok: "woken W s s' \<Longrightarrow> delayed_pair s \<Longrightarrow> overflow_ok s \<Longrightarrow> overflow_ok s'"
  by (auto simp: woken_def overflow_ok_def delayed_pair_def)

lemma woken_delays_ok:
  "woken W s s' \<Longrightarrow> delayed_pair s \<Longrightarrow> xNextTaskUnblockTime s' = xNextTaskUnblockTime s \<Longrightarrow>
   delays_ok s \<Longrightarrow> delays_ok s'"
  by (auto simp: woken_def delays_ok_def delayed_pair_def)

lemma unblock_expired_ok:
  assumes "core_ok s" "pxCurrentTCB s = Some c" "overflow_ok s"
  shows "\<exists>r s'. unblock_expired sw s = Some (r, s') \<and> sched_ok s' \<and> woken (expired s) s s' \<and>
    xYieldPending s' = xYieldPending s \<and>
    (r \<longleftrightarrow> sw \<or> (\<exists>t. expired s t \<and> uxPriority (tcbs s c) < uxPriority (tcbs s t)))"
  using assms
proof (induction "length (kitems (klists s (pxDelayedTaskList s)))" arbitrary: s sw rule: less_induct)
  case less
  note ok = less.prems(1) and c = less.prems(2) and ov = less.prems(3)
  let ?D = "pxDelayedTaskList s"
  have frame: "sched_ok (s\<lparr>xNextTaskUnblockTime := v\<rparr>) \<and> woken (expired s) s (s\<lparr>xNextTaskUnblockTime := v\<rparr>)"
    if "\<And>t. container s (StateItem t) = Some ?D \<Longrightarrow>
          xTickCount s < item_value s (StateItem t) \<and> v \<le> item_value s (StateItem t)" for v
  proof -
    have "\<not> expired s t" for t using that [of t] by (auto simp: expired_def)
    then show ?thesis using that ok ov by (simp add: sched_ok_def delays_ok_def overflow_ok_def woken_def)
  qed
  show ?case
  proof (cases "is_empty ?D s")
    case True
    then have no: "container s (StateItem t) \<noteq> Some ?D" for t
      using lists_okD(2) [OF core_okD(1) [OF ok], of "StateItem t" ?D] by (auto simp: is_empty_def)
    then have "\<not> expired s t" for t by (simp add: expired_def)
    then show ?thesis
      using True frame [of portMAX_DELAY] no by (subst unblock_expired.simps) auto
  next
    case False
    from delayed_head [OF ok False] obtain t where
      t: "head_entry ?D s = t" "hd (kitems (klists s ?D)) = StateItem t"
      "container s (StateItem t) = Some ?D"
      "\<And>u. container s (StateItem u) = Some ?D \<Longrightarrow> item_value s (StateItem t) \<le> item_value s (StateItem u)"
      by blast
    show ?thesis
    proof (cases "xTickCount s < item_value s (StateItem t)")
      case True
      then have "xTickCount s < item_value s (StateItem u)" if "container s (StateItem u) = Some ?D" for u
        using t(4) [OF that] by simp
      moreover from this have "\<not> expired s u" for u by (auto simp: expired_def not_less [symmetric])
      ultimately show ?thesis
        using True False t frame [of "item_value s (StateItem t)"]
        by (subst unblock_expired.simps) (auto simp: Let_def)
    next
      case F: False
      then have et: "expired s t" using t(3) by (simp add: expired_def)
      have tn: "container s (StateItem t) \<noteq> None" using t(3) by simp
      from wake_one [OF ok tn] obtain s1 s2 s3 where
        w: "list_remove (StateItem t) s = Some s1" "remove_event_item t s1 = Some s2"
        "s3 = prvAddTaskToReadyList t s2" "core_ok s3" "woken (\<lambda>u. u = t) s s3"
        "xYieldPending s3 = xYieldPending s" and
        k: "\<And>l. state_list l \<Longrightarrow> container s (StateItem t) = Some l \<Longrightarrow> (\<forall>p. l \<noteq> ReadyList p) \<Longrightarrow>
          kitems (klists s3 l) = remove1 (StateItem t) (kitems (klists s l))"
        by metis
      have D: "?D \<in> {DelayedTaskList1, DelayedTaskList2}" by (rule delayed_pairD(1) [OF core_okD(2) [OF ok]])
      then have k3: "kitems (klists s3 ?D) = remove1 (StateItem t) (kitems (klists s ?D))"
        by (intro k t(3)) auto
      have "StateItem t \<in> set (kitems (klists s ?D))"
        using t(3) lists_okD(2) [OF core_okD(1) [OF ok]] by simp
      from this length_pos_if_in_set [OF this]
      have len: "length (kitems (klists s3 ?D)) < length (kitems (klists s ?D))"
        by (simp only: k3 length_remove1 if_True diff_less zero_less_one)
      have f: "pxDelayedTaskList s3 = ?D" "pxCurrentTCB s3 = Some c" "tcbs s3 = tcbs s"
        using w(5) c by (simp_all add: woken_def)
      have ex: "expired s u \<longleftrightarrow> u = t \<or> expired s3 u" for u
        using w(5) et by (auto simp: expired_def woken_def)
      have len': "length (kitems (klists s3 (pxDelayedTaskList s3))) < length (kitems (klists s ?D))"
        using len f by simp
      have ov3: "overflow_ok s3" by (rule woken_overflow_ok [OF w(5) core_okD(2) [OF ok] ov])
      from less.hyps [OF len' w(4) f(2) ov3, of "sw \<or> uxPriority (tcbs s c) < uxPriority (tcbs s t)"]
      obtain r s' where u: "unblock_expired (sw \<or> uxPriority (tcbs s c) < uxPriority (tcbs s t)) s3 = Some (r, s')"
        "sched_ok s'" "woken (expired s3) s3 s'" "xYieldPending s' = xYieldPending s3"
        "r \<longleftrightarrow> (sw \<or> uxPriority (tcbs s c) < uxPriority (tcbs s t)) \<or>
          (\<exists>t. expired s3 t \<and> uxPriority (tcbs s3 c) < uxPriority (tcbs s3 t))"
        by blast
      have "unblock_expired sw s = Some (r, s')"
        using False F t(1) w(1,2) u(1) f by (subst unblock_expired.simps) (simp add: Let_def w(3) [symmetric])
      moreover have "woken (expired s) s s'" by (rule woken_trans [OF w(5) u(3) ex])
      moreover have "r \<longleftrightarrow> sw \<or> (\<exists>t. expired s t \<and> uxPriority (tcbs s c) < uxPriority (tcbs s t))"
        using u(5) f(3) ex by auto
      ultimately show ?thesis using u(2,4) w(6) by auto
    qed
  qed
qed

text \<open>
  The state after the increment, before any task is woken, and the tasks that are due: those of
  the current delayed list whose wake time is the new tick, or, when the tick wraps to zero,
  those of the overflow list with wake time zero.
\<close>

definition tick_on :: "kernel \<Rightarrow> kernel" where
  "tick_on s =
     (if xTickCount s + 1 = 0
      then s\<lparr>xTickCount := 0, pxDelayedTaskList := pxOverflowDelayedTaskList s,
             pxOverflowDelayedTaskList := pxDelayedTaskList s, xNumOfOverflows := xNumOfOverflows s + 1\<rparr>
      else s\<lparr>xTickCount := xTickCount s + 1\<rparr>)"

definition due :: "kernel \<Rightarrow> tid \<Rightarrow> bool" where
  "due s t \<longleftrightarrow> item_value s (StateItem t) = xTickCount s + 1 \<and>
     container s (StateItem t) =
       Some (if xTickCount s + 1 = 0 then pxOverflowDelayedTaskList s else pxDelayedTaskList s)"

lemma word_succ_le: "(x :: word32) < y \<Longrightarrow> x + 1 \<le> y"
  by (simp add: inc_le)

lemma word_less_succ: "(x :: word32) + 1 \<noteq> 0 \<Longrightarrow> x < x + 1"
  using unatSuc [of x] by (simp add: word_less_nat_alt add.commute)

lemma word_max_succ: "(x :: word32) + 1 = 0 \<Longrightarrow> x = portMAX_DELAY"
proof -
  assume "x + 1 = 0"
  then have "x = - 1" by (simp only: eq_neg_iff_add_eq_0)
  then show ?thesis by simp
qed

lemma core_ok_tick_on: "core_ok s \<Longrightarrow> core_ok (tick_on s)"
  by (auto simp: tick_on_def core_defs)

lemma prvResetNextTaskUnblockTime_delays:
  assumes ok: "core_ok s" and c: "container s (StateItem t) = Some (pxDelayedTaskList s)"
  shows "xNextTaskUnblockTime (prvResetNextTaskUnblockTime s) \<le> item_value s (StateItem t)"
proof -
  have "\<not> is_empty (pxDelayedTaskList s) s"
    using c lists_okD(2) [OF core_okD(1) [OF ok], of "StateItem t" "pxDelayedTaskList s"]
    by (auto simp: is_empty_def)
  moreover from this obtain u where "hd (kitems (klists s (pxDelayedTaskList s))) = StateItem u"
    "item_value s (StateItem u) \<le> item_value s (StateItem t)"
    using delayed_head [OF ok] c by metis
  ultimately show ?thesis by (simp add: prvResetNextTaskUnblockTime_def)
qed

lemma sched_ok_reset: "sched_ok s \<Longrightarrow> sched_ok (prvResetNextTaskUnblockTime s)"
proof -
  assume ok: "sched_ok s"
  have "xNextTaskUnblockTime (prvResetNextTaskUnblockTime s) \<le> item_value s (StateItem t)"
    if "container s (StateItem t) = Some (pxDelayedTaskList s)" for t
    by (rule prvResetNextTaskUnblockTime_delays) (use ok that in \<open>auto simp: sched_ok_def\<close>)
  then show ?thesis
    using ok by (simp add: sched_ok_def delays_ok_def overflow_ok_def)
      (simp add: prvResetNextTaskUnblockTime_def)
qed

lemma tick_on_klists [simp]: "klists (tick_on s) = klists s" "container (tick_on s) = container s"
  "item_value (tick_on s) = item_value s" "tcbs (tick_on s) = tcbs s" "pxCurrentTCB (tick_on s) = pxCurrentTCB s"
  "xTickCount (tick_on s) = xTickCount s + 1" "xYieldPending (tick_on s) = xYieldPending s"
  "uxSchedulerSuspended (tick_on s) = uxSchedulerSuspended s" "xPendedTicks (tick_on s) = xPendedTicks s"
  "uxCurrentNumberOfTasks (tick_on s) = uxCurrentNumberOfTasks s" "xSchedulerRunning (tick_on s) = xSchedulerRunning s"
  by (simp_all add: tick_on_def)

lemma due_expired:
  assumes ok: "sched_ok s" shows "expired (tick_on s) t \<longleftrightarrow> due s t"
proof (cases "xTickCount s + 1 = 0")
  case True
  then show ?thesis by (auto simp: expired_def due_def tick_on_def)
next
  case False
  have "container s (StateItem t) = Some (pxDelayedTaskList s) \<Longrightarrow> xTickCount s < item_value s (StateItem t)"
    using ok by (simp add: sched_ok_def delays_ok_def)
  then show ?thesis
    using False by (auto simp: expired_def due_def tick_on_def intro: antisym word_succ_le)
qed

text \<open>The lists are switched with the assertion satisfied; \<open>next\<close> is a lower bound of the wake times.\<close>

lemma tick_switch:
  assumes ok: "sched_ok s"
  shows "\<exists>n. (if xTickCount s + 1 = 0 then taskSWITCH_DELAYED_LISTS (s\<lparr>xTickCount := xTickCount s + 1\<rparr>)
      else Some (s\<lparr>xTickCount := xTickCount s + 1\<rparr>)) = Some (tick_on s\<lparr>xNextTaskUnblockTime := n\<rparr>) \<and>
    (\<forall>t. container s (StateItem t) = Some (pxDelayedTaskList (tick_on s)) \<longrightarrow> n \<le> item_value s (StateItem t))"
proof (cases "xTickCount s + 1 = 0")
  case False
  then show ?thesis
    using ok by (intro exI [of _ "xNextTaskUnblockTime s"]) (simp add: tick_on_def sched_ok_def delays_ok_def)
next
  case True
  let ?s = "tick_on s"
  have c: "core_ok s" using ok by (simp add: sched_ok_def)
  have "is_empty (pxDelayedTaskList s) s"
  proof (rule ccontr)
    assume "\<not> is_empty (pxDelayedTaskList s) s"
    then obtain t where "container s (StateItem t) = Some (pxDelayedTaskList s)"
      using delayed_head [OF c] by metis
    then have "portMAX_DELAY < item_value s (StateItem t)"
      using ok word_max_succ [OF True] by (simp add: sched_ok_def delays_ok_def)
    then show False by (simp only: not_le [symmetric] word32_le_max not_True_eq_False)
  qed
  then have "taskSWITCH_DELAYED_LISTS (s\<lparr>xTickCount := 0\<rparr>) = Some (prvResetNextTaskUnblockTime ?s)"
    using True by (simp add: taskSWITCH_DELAYED_LISTS_def tick_on_def is_empty_def)
  moreover have "prvResetNextTaskUnblockTime ?s = ?s\<lparr>xNextTaskUnblockTime := xNextTaskUnblockTime (prvResetNextTaskUnblockTime ?s)\<rparr>"
    by (simp add: prvResetNextTaskUnblockTime_def)
  ultimately show ?thesis
    using True prvResetNextTaskUnblockTime_delays [OF core_ok_tick_on [OF c]]
    by (intro exI [of _ "xNextTaskUnblockTime (prvResetNextTaskUnblockTime ?s)"]) simp
qed

lemma overflow_ok_tick_on: "sched_ok s \<Longrightarrow> overflow_ok (tick_on s)"
proof -
  assume ok: "sched_ok s"
  show ?thesis
  proof (cases "xTickCount s + 1 = 0")
    case True
    have "container s (StateItem t) \<noteq> Some (pxDelayedTaskList s)" for t
      using ok word_max_succ [OF True] by (auto simp: sched_ok_def delays_ok_def word32_less_max_iff
          not_le [symmetric] simp del: not_le)
    then show ?thesis using True by (simp add: overflow_ok_def tick_on_def)
  next
    case False
    then have "xTickCount s < xTickCount s + 1" by (rule word_less_succ)
    then show ?thesis using ok False by (auto simp: overflow_ok_def tick_on_def sched_ok_def)
  qed
qed

lemma expired_next [simp]: "expired (s\<lparr>xNextTaskUnblockTime := n\<rparr>) = expired s"
  "woken W (s\<lparr>xNextTaskUnblockTime := n\<rparr>) s' = woken W s s'"
  by (auto simp: expired_def woken_def fun_eq_iff)

lemma xTaskIncrementTick_ok:
  assumes ok: "sched_ok s" and run: "uxSchedulerSuspended s = 0" and c: "pxCurrentTCB s = Some c"
  shows "\<exists>r s'. xTaskIncrementTick s = Some (r, s') \<and> sched_ok s' \<and> woken (due s) (tick_on s) s' \<and>
    xYieldPending s' = xYieldPending s \<and>
    (r \<longleftrightarrow> (\<exists>t. due s t \<and> uxPriority (tcbs s c) < uxPriority (tcbs s t)) \<or>
       1 < length (kitems (klists s' (ReadyList (uxPriority (tcbs s c))))) \<or> xYieldPending s)"
proof -
  obtain n where n: "(if xTickCount s + 1 = 0 then taskSWITCH_DELAYED_LISTS (s\<lparr>xTickCount := xTickCount s + 1\<rparr>)
      else Some (s\<lparr>xTickCount := xTickCount s + 1\<rparr>)) = Some (tick_on s\<lparr>xNextTaskUnblockTime := n\<rparr>)"
    and le: "\<And>t. container s (StateItem t) = Some (pxDelayedTaskList (tick_on s)) \<Longrightarrow> n \<le> item_value s (StateItem t)"
    using tick_switch [OF ok] by blast
  let ?s = "tick_on s\<lparr>xNextTaskUnblockTime := n\<rparr>"
  have core: "core_ok ?s" using core_ok_tick_on [of s] ok by (simp add: sched_ok_def)
  have over: "overflow_ok ?s" using overflow_ok_tick_on [OF ok] by (simp add: overflow_ok_def)
  have due: "expired ?s = due s" using due_expired [OF ok] by (simp add: fun_eq_iff)
  obtain r s' where s': "(if n \<le> xTickCount s + 1 then unblock_expired False ?s else Some (False, ?s)) = Some (r, s')"
    "sched_ok s'" "woken (due s) (tick_on s) s'" "xYieldPending s' = xYieldPending s"
    "r \<longleftrightarrow> (\<exists>t. due s t \<and> uxPriority (tcbs s c) < uxPriority (tcbs s t))"
  proof (cases "n \<le> xTickCount s + 1")
    case True
    then show ?thesis using that unblock_expired_ok [OF core, of c False] c due over by auto
  next
    case False
    have v: "xTickCount s + 1 < item_value s (StateItem t)"
      if "container s (StateItem t) = Some (pxDelayedTaskList (tick_on s))" for t
      using le [OF that] False by simp
    have "\<not> due s t" for t using v [of t] due_expired [OF ok, of t] by (auto simp: expired_def)
    moreover from this have "woken (due s) (tick_on s) ?s" by (simp add: woken_def)
    moreover have "sched_ok ?s" using core v le over by (simp add: sched_ok_def delays_ok_def)
    ultimately show ?thesis using that [of False ?s] False by auto
  qed
  have f: "pxCurrentTCB s' = Some c" "tcbs s' = tcbs s" using s'(3) c by (simp_all add: woken_def)
  have "xTaskIncrementTick s = Some (r \<or> 1 < length (kitems (klists s' (ReadyList (uxPriority (tcbs s c))))) \<or>
      xYieldPending s', s')"
    unfolding xTaskIncrementTick_def Let_def using run n s'(1) f by simp
  then show ?thesis using s' by auto
qed

lemma sched_ok_woken:
  "sched_ok s \<Longrightarrow> core_ok s' \<Longrightarrow> woken W s s' \<Longrightarrow> xNextTaskUnblockTime s' = xNextTaskUnblockTime s \<Longrightarrow>
   sched_ok s'"
  using woken_overflow_ok [of W s s'] woken_delays_ok [of W s s'] core_okD(2) [of s]
  by (simp add: sched_ok_def)

section \<open>Resuming the scheduler\<close>

lemma pending_one:
  assumes ok: "sched_ok s" and e: "container s (EventItem t) = Some l"
  obtains s1 s2 s3 where "list_remove (EventItem t) s = Some s1" "list_remove (StateItem t) s1 = Some s2"
    "s3 = prvAddTaskToReadyList t s2" "sched_ok s3" "woken (\<lambda>u. u = t) s s3"
    "xNextTaskUnblockTime s3 = xNextTaskUnblockTime s" "xYieldPending s3 = xYieldPending s"
    "kitems (klists s3 l) = remove1 (EventItem t) (kitems (klists s l))"
proof -
  have core: "core_ok s" using ok by (rule sched_okD)
  obtain b where b: "container s (StateItem t) = Some b" "state_list b" and l: "\<not> state_list l"
    using core_okD(4) [OF core, of t] e by (auto simp: task_ok_def)
  obtain s1 where r1: "list_remove (EventItem t) s = Some s1"
    using e list_remove_some [of s "EventItem t"] by auto
  note f1 = list_remove_frame [OF r1] list_remove_container [OF r1]
  obtain s2 where r2: "list_remove (StateItem t) s1 = Some s2"
    using b list_remove_some [of s1 "StateItem t"] by (auto simp: f1)
  note f2 = list_remove_frame [OF r2] list_remove_container [OF r2]
  have tn: "torn t s2" by (rule torn_remove_state [OF core_ok_remove_event [OF core r1] r2])
  let ?s = "prvAddTaskToReadyList t s2"
  have core3: "core_ok ?s" by (rule torn_ready [OF tn]) (simp add: f2 f1)
  have w: "woken (\<lambda>u. u = t) s ?s" by (simp add: woken_def frame_simps f1 f2)
  have n: "xNextTaskUnblockTime ?s = xNextTaskUnblockTime s" by (simp add: frame_simps f1 f2)
  have "klists s2 l = klists s1 l" using r2 b l by (auto simp: f1 elim!: list_remove_cases)
  moreover have "kitems (klists s1 l) = remove1 (EventItem t) (kitems (klists s l))"
    using r1 e by (auto simp: kl_remove_def elim!: list_remove_cases)
  ultimately have "kitems (klists ?s l) = remove1 (EventItem t) (kitems (klists s l))"
    using l by (auto simp: klists_prvAddTaskToReadyList)
  then show ?thesis
    using that [OF r1 r2 refl sched_ok_woken [OF ok core3 w n] w n] by (simp add: frame_simps f1 f2)
qed

lemma drain_pending_ok:
  assumes "sched_ok s" "pxCurrentTCB s = Some c"
  shows "\<exists>m s'. drain_pending moved s = Some (m, s') \<and> sched_ok s' \<and> is_empty PendingReadyList s' \<and>
    woken (\<lambda>t. container s (EventItem t) = Some PendingReadyList) s s' \<and>
    xNextTaskUnblockTime s' = xNextTaskUnblockTime s \<and>
    (xYieldPending s' \<longleftrightarrow> xYieldPending s \<or>
      (\<exists>t. container s (EventItem t) = Some PendingReadyList \<and> uxPriority (tcbs s c) < uxPriority (tcbs s t)))"
  using assms
proof (induction "length (kitems (klists s PendingReadyList))" arbitrary: s moved rule: less_induct)
  case less
  note ok = less.prems(1) and c = less.prems(2)
  have core: "core_ok s" using ok by (rule sched_okD)
  let ?P = "\<lambda>s t. container s (EventItem t) = Some PendingReadyList"
  show ?case
  proof (cases "is_empty PendingReadyList s")
    case True
    then have "\<not> ?P s t" for t
      using lists_okD(2) [OF core_okD(1) [OF core], of "EventItem t" PendingReadyList]
      by (auto simp: is_empty_def)
    then show ?thesis using True ok by (subst drain_pending.simps) (simp add: woken_def)
  next
    case False
    then have hd: "hd (kitems (klists s PendingReadyList)) \<in> set (kitems (klists s PendingReadyList))"
      by (simp add: is_empty_def)
    from core_ok_event_items [OF core _ this] obtain t where
      t: "hd (kitems (klists s PendingReadyList)) = EventItem t" "?P s t"
      by auto
    from pending_one [OF ok t(2)] obtain s1 s2 s3 where
      w: "list_remove (EventItem t) s = Some s1" "list_remove (StateItem t) s1 = Some s2"
      "s3 = prvAddTaskToReadyList t s2" "sched_ok s3" "woken (\<lambda>u. u = t) s s3"
      "xNextTaskUnblockTime s3 = xNextTaskUnblockTime s" "xYieldPending s3 = xYieldPending s"
      "kitems (klists s3 PendingReadyList) = remove1 (EventItem t) (kitems (klists s PendingReadyList))"
      by metis
    define s4 where "s4 = (if uxPriority (tcbs s c) < uxPriority (tcbs s t) then s3\<lparr>xYieldPending := True\<rparr> else s3)"
    have s4: "sched_ok s4" "woken (\<lambda>u. u = t) s s4" "xNextTaskUnblockTime s4 = xNextTaskUnblockTime s"
      "klists s4 = klists s3" "pxCurrentTCB s4 = Some c" "tcbs s4 = tcbs s"
      "xYieldPending s4 \<longleftrightarrow> xYieldPending s \<or> uxPriority (tcbs s c) < uxPriority (tcbs s t)"
      using w c by (simp_all add: s4_def woken_def)
    have len: "length (kitems (klists s4 PendingReadyList)) < length (kitems (klists s PendingReadyList))"
      using hd length_pos_if_in_set [OF hd] unfolding s4(4) w(8) t(1)
      by (simp only: length_remove1 if_True diff_less zero_less_one)
    from less.hyps [OF len s4(1,5), of True] obtain m s' where
      u: "drain_pending True s4 = Some (m, s')" "sched_ok s'" "is_empty PendingReadyList s'"
      "woken (?P s4) s4 s'" "xNextTaskUnblockTime s' = xNextTaskUnblockTime s4"
      "xYieldPending s' \<longleftrightarrow> xYieldPending s4 \<or> (\<exists>t. ?P s4 t \<and> uxPriority (tcbs s4 c) < uxPriority (tcbs s4 t))"
      by blast
    have P: "?P s u \<longleftrightarrow> u = t \<or> ?P s4 u" for u using s4(2) t(2) by (auto simp: woken_def)
    have f3: "pxCurrentTCB s3 = Some c" "tcbs s3 = tcbs s" using w(5) c by (simp_all add: woken_def)
    have "drain_pending moved s = Some (m, s')"
      using False t(1) w(1,2) u(1) f3
      by (subst drain_pending.simps)
        (auto simp: head_entry_def Let_def w(3) [symmetric] s4_def split: if_splits)
    moreover have "woken (?P s) s s'" by (rule woken_trans [OF s4(2) u(4) P])
    moreover have "xYieldPending s' \<longleftrightarrow> xYieldPending s \<or> (\<exists>t. ?P s t \<and> uxPriority (tcbs s c) < uxPriority (tcbs s t))"
      unfolding u(6) s4(6,7) by (auto simp: P)
    ultimately show ?thesis using u(2,3,5) s4(3) by auto
  qed
qed

section \<open>Delays in time\<close>

text \<open>
  A task with a timeout sleeps in one of the two delayed lists; \<open>remaining\<close> is the number of
  ticks it has left, by modular subtraction from its wake time.
\<close>

definition sleeping :: "kernel \<Rightarrow> tid \<Rightarrow> bool" where
  "sleeping s t \<longleftrightarrow> container s (StateItem t) \<in> {Some DelayedTaskList1, Some DelayedTaskList2}"

definition remaining :: "kernel \<Rightarrow> tid \<Rightarrow> nat" where
  "remaining s t = unat (item_value s (StateItem t) - xTickCount s)"

lemma sleeping_lists:
  "delayed_pair s \<Longrightarrow> sleeping s t \<longleftrightarrow>
     container s (StateItem t) \<in> {Some (pxDelayedTaskList s), Some (pxOverflowDelayedTaskList s)}"
  by (auto simp: sleeping_def delayed_pair_def)

lemma remaining_pos: "sched_ok s \<Longrightarrow> sleeping s t \<Longrightarrow> 0 < remaining s t"
  using sleeping_lists [OF core_okD(2), of s t]
  by (auto simp: sched_ok_def delays_ok_def overflow_ok_def remaining_def unat_gt_0 dest: sym)

lemma due_iff_remaining:
  assumes ok: "sched_ok s" shows "due s t \<longleftrightarrow> sleeping s t \<and> remaining s t = 1"
proof -
  have "remaining s t = 1 \<longleftrightarrow> item_value s (StateItem t) - xTickCount s = 1"
    using word_unat_eq_iff [of "item_value s (StateItem t) - xTickCount s" 1] by (simp add: remaining_def)
  also have "\<dots> \<longleftrightarrow> item_value s (StateItem t) = xTickCount s + 1"
    by (simp add: diff_eq_eq add.commute)
  finally have r: "remaining s t = 1 \<longleftrightarrow> item_value s (StateItem t) = xTickCount s + 1" .
  have pr: "delayed_pair s" using ok by (simp add: sched_ok_def core_ok_def)
  have d: "xTickCount s + 1 \<noteq> 0" if "container s (StateItem t) = Some (pxDelayedTaskList s)"
    "item_value s (StateItem t) = xTickCount s + 1"
    using ok that by (auto simp: sched_ok_def delays_ok_def)
  have o: "xTickCount s + 1 = 0" if "container s (StateItem t) = Some (pxOverflowDelayedTaskList s)"
    "item_value s (StateItem t) = xTickCount s + 1"
  proof (rule ccontr)
    assume "xTickCount s + 1 \<noteq> 0"
    from word_less_succ [OF this] have "xTickCount s < item_value s (StateItem t)" using that by simp
    moreover have "item_value s (StateItem t) < xTickCount s"
      using sched_okD(3) [OF ok] that(1) by (simp add: overflow_ok_def)
    ultimately show False by simp
  qed
  show ?thesis unfolding r sleeping_lists [OF pr] due_def using d o by auto
qed

lemma remaining_tick_on: "1 < remaining s t \<Longrightarrow> remaining (tick_on s) t = remaining s t - 1"
proof -
  assume r: "1 < remaining s t"
  let ?d = "item_value s (StateItem t) - xTickCount s"
  have "?d \<noteq> 0" using r by (auto simp: remaining_def)
  moreover have "remaining (tick_on s) t = unat (?d - 1)" by (simp add: remaining_def algebra_simps)
  ultimately show ?thesis by (simp add: remaining_def unat_minus_one)
qed

lemma woken_sleeping:
  "woken W s s' \<Longrightarrow> sleeping s' t \<longleftrightarrow> sleeping s t \<and> \<not> W t"
  "woken W s s' \<Longrightarrow> remaining s' t = remaining s t"
  by (auto simp: woken_def sleeping_def remaining_def)

lemma sleeping_pended [simp]: "sleeping (s\<lparr>xPendedTicks := v\<rparr>) = sleeping s"
  "remaining (s\<lparr>xPendedTicks := v\<rparr>) = remaining s"
  by (simp_all add: sleeping_def remaining_def fun_eq_iff)

lemma sleeping_tick_on [simp]: "sleeping (tick_on s) t = sleeping s t"
  by (simp add: sleeping_def)

lemma tick_sleeping:
  assumes ok: "sched_ok s" "uxSchedulerSuspended s = 0" "pxCurrentTCB s = Some c"
  obtains r s' where "xTaskIncrementTick s = Some (r, s')" "sched_ok s'" "uxSchedulerSuspended s' = 0"
    "pxCurrentTCB s' = Some c" "tcbs s' = tcbs s" "xTickCount s' = xTickCount s + 1"
    "xPendedTicks s' = xPendedTicks s" "uxCurrentNumberOfTasks s' = uxCurrentNumberOfTasks s"
    "xSchedulerRunning s' = xSchedulerRunning s"
    "\<And>t. sleeping s t \<Longrightarrow> remaining s t = 1 \<Longrightarrow>
       container s' (StateItem t) = Some (ReadyList (uxPriority (tcbs s t))) \<and> container s' (EventItem t) = None"
    "\<And>t. sleeping s t \<Longrightarrow> 1 < remaining s t \<Longrightarrow> sleeping s' t \<and> remaining s' t = remaining s t - 1 \<and>
       container s' (EventItem t) = container s (EventItem t)"
    "\<And>t. \<not> sleeping s t \<Longrightarrow> container s' (StateItem t) = container s (StateItem t) \<and>
       container s' (EventItem t) = container s (EventItem t)"
proof -
  obtain r s' where t: "xTaskIncrementTick s = Some (r, s')" "sched_ok s'" "woken (due s) (tick_on s) s'"
    using xTaskIncrementTick_ok [OF ok] by blast
  note d = due_iff_remaining [OF ok(1)] and w = t(3)
  have f: "uxSchedulerSuspended s' = 0" "pxCurrentTCB s' = Some c" "tcbs s' = tcbs s"
    "xTickCount s' = xTickCount s + 1" "xPendedTicks s' = xPendedTicks s"
    "uxCurrentNumberOfTasks s' = uxCurrentNumberOfTasks s" "xSchedulerRunning s' = xSchedulerRunning s"
    using w ok by (simp_all add: woken_def)
  have cs: "container s' (StateItem u) = (if due s u then Some (ReadyList (uxPriority (tcbs s u)))
      else container s (StateItem u))"
    "container s' (EventItem u) = (if due s u then None else container s (EventItem u))" for u
    using w by (simp_all add: woken_def)
  have sl: "sleeping s' u \<longleftrightarrow> sleeping s u \<and> \<not> due s u" "remaining s' u = remaining (tick_on s) u" for u
    using woken_sleeping [OF w] by simp_all
  show ?thesis
    by (rule that [OF t(1,2) f]) (use d cs sl remaining_tick_on in auto)
qed

definition some_ready :: "kernel \<Rightarrow> bool" where
  "some_ready s \<longleftrightarrow> (\<exists>t p. container s (StateItem t) = Some (ReadyList p))"

lemma some_ready_nonempty: "core_ok s \<Longrightarrow> some_ready s \<Longrightarrow> \<exists>p. \<not> is_empty (ReadyList p) s"
proof -
  assume ok: "core_ok s" and "some_ready s"
  then obtain t p where "container s (StateItem t) = Some (ReadyList p)" by (auto simp: some_ready_def)
  then have "StateItem t \<in> set (kitems (klists s (ReadyList p)))"
    using lists_okD(2) [OF core_okD(1) [OF ok]] by simp
  then show ?thesis by (auto simp: is_empty_def intro: exI [of _ p])
qed

text \<open>
  Ticks in a row, each followed by what its caller does with the result: the timer interrupt
  switches context, and \<^verbatim>\<open>xTaskResumeAll\<close> notes a pending yield. Neither moves a task between
  lists; that is all the passing of time depends on.
\<close>

primrec run_ticks :: "(bool \<Rightarrow> kernel \<Rightarrow> kernel option) \<Rightarrow> nat \<Rightarrow> kernel \<Rightarrow> kernel option" where
  "run_ticks after 0 s = Some s"
| "run_ticks after (Suc n) s = do { (r, s) \<leftarrow> xTaskIncrementTick s; s \<leftarrow> after r s; run_ticks after n s }"

definition same_tasks :: "kernel \<Rightarrow> kernel \<Rightarrow> bool" where
  "same_tasks s s' \<longleftrightarrow> container s' = container s \<and> item_value s' = item_value s \<and> tcbs s' = tcbs s \<and>
     xTickCount s' = xTickCount s \<and> uxSchedulerSuspended s' = uxSchedulerSuspended s \<and>
     xPendedTicks s' = xPendedTicks s \<and> uxCurrentNumberOfTasks s' = uxCurrentNumberOfTasks s \<and>
     xSchedulerRunning s' = xSchedulerRunning s \<and>
     (pxCurrentTCB s \<noteq> None \<longrightarrow> pxCurrentTCB s' \<noteq> None)"

lemma same_tasks_sleeping: "same_tasks s s' \<Longrightarrow> sleeping s' t = sleeping s t \<and> remaining s' t = remaining s t"
  by (simp add: same_tasks_def sleeping_def remaining_def)

locale tick_caller =
  fixes after :: "bool \<Rightarrow> kernel \<Rightarrow> kernel option"
  assumes after_ok: "sched_ok s \<Longrightarrow> uxSchedulerSuspended s = 0 \<Longrightarrow> some_ready s \<Longrightarrow>
    \<exists>s'. after r s = Some s' \<and> sched_ok s' \<and> same_tasks s s'"

text \<open>What has become of every task after \<open>n\<close> ticks.\<close>

definition fate :: "nat \<Rightarrow> kernel \<Rightarrow> kernel \<Rightarrow> tid \<Rightarrow> bool" where
  "fate n s s' t \<longleftrightarrow>
     (if sleeping s t
      then if n < remaining s t then sleeping s' t \<and> remaining s' t = remaining s t - n
           else container s' (StateItem t) = Some (ReadyList (uxPriority (tcbs s t)))
      else container s' (StateItem t) = container s (StateItem t))"

definition time_passed :: "nat \<Rightarrow> kernel \<Rightarrow> kernel \<Rightarrow> bool" where
  "time_passed n s s' \<longleftrightarrow> tcbs s' = tcbs s \<and> xTickCount s' = xTickCount s + of_nat n \<and>
     uxSchedulerSuspended s' = uxSchedulerSuspended s \<and> xPendedTicks s' = xPendedTicks s \<and>
     uxCurrentNumberOfTasks s' = uxCurrentNumberOfTasks s \<and>
     xSchedulerRunning s' = xSchedulerRunning s \<and> (\<forall>t. fate n s s' t)"

lemma time_passed_some_ready: "time_passed n s s' \<Longrightarrow> some_ready s \<Longrightarrow> some_ready s'"
proof -
  assume tp: "time_passed n s s'" and "some_ready s"
  then obtain t p where t: "container s (StateItem t) = Some (ReadyList p)" by (auto simp: some_ready_def)
  then have "\<not> sleeping s t" by (simp add: sleeping_def)
  then have "container s' (StateItem t) = Some (ReadyList p)" using tp t by (simp add: time_passed_def fate_def)
  then show ?thesis by (auto simp: some_ready_def)
qed

lemma time_passed_one:
  assumes "sched_ok s" "uxSchedulerSuspended s = 0" "pxCurrentTCB s = Some c"
  obtains r s' where "xTaskIncrementTick s = Some (r, s')" "sched_ok s'" "time_passed 1 s s'"
    "pxCurrentTCB s' = Some c"
proof -
  from tick_sleeping [OF assms] obtain r s' where
    t: "xTaskIncrementTick s = Some (r, s')" "sched_ok s'" "uxSchedulerSuspended s' = 0"
    "pxCurrentTCB s' = Some c" "tcbs s' = tcbs s" "xTickCount s' = xTickCount s + 1"
    "xPendedTicks s' = xPendedTicks s" "uxCurrentNumberOfTasks s' = uxCurrentNumberOfTasks s"
    "xSchedulerRunning s' = xSchedulerRunning s" and
    one: "\<And>t. sleeping s t \<Longrightarrow> remaining s t = 1 \<Longrightarrow>
       container s' (StateItem t) = Some (ReadyList (uxPriority (tcbs s t))) \<and> container s' (EventItem t) = None" and
    more: "\<And>t. sleeping s t \<Longrightarrow> 1 < remaining s t \<Longrightarrow> sleeping s' t \<and> remaining s' t = remaining s t - 1" and
    other: "\<And>t. \<not> sleeping s t \<Longrightarrow> container s' (StateItem t) = container s (StateItem t)"
    by metis
  have "fate 1 s s' t" for t
    using one [of t] more [of t] other [of t] remaining_pos [OF assms(1), of t] by (auto simp: fate_def)
  then show ?thesis using that [OF t(1,2) _ t(4)] t assms(2) by (simp add: time_passed_def)
qed

lemma time_passed_trans:
  assumes ok: "sched_ok s'" "sched_ok s''" and a: "time_passed m s s'" and b: "time_passed n s' s''"
  shows "time_passed (m + n) s s''"
proof -
  have f: "fate m s s' t" "fate n s' s'' t" for t using a b by (simp_all add: time_passed_def)
  have "fate (m + n) s s'' t" for t
  proof (cases "sleeping s t \<and> m < remaining s t")
    case True
    then show ?thesis using f [of t] a by (auto simp: fate_def time_passed_def)
  next
    case False
    then have "\<not> sleeping s' t" using f(1) [of t] by (auto simp: fate_def sleeping_def split: if_splits)
    then have c: "container s'' (StateItem t) = container s' (StateItem t)" using f(2) [of t] by (simp add: fate_def)
    then show ?thesis using False f(1) [of t] by (auto simp: fate_def)
  qed
  then show ?thesis using a b by (simp add: time_passed_def add.assoc)
qed

lemma time_passed_same:
  assumes a: "time_passed n s s'" and b: "same_tasks s' s''"
  shows "time_passed n s s''"
proof -
  have "fate n s s'' t" for t
  proof -
    have "fate n s s' t" using a by (simp add: time_passed_def)
    moreover have "container s'' = container s'" using b by (simp add: same_tasks_def)
    ultimately show ?thesis using same_tasks_sleeping [OF b, of t] by (simp add: fate_def)
  qed
  then show ?thesis using a b by (simp add: time_passed_def same_tasks_def)
qed

context tick_caller
begin

lemma run_ticks_ok:
  "sched_ok s \<Longrightarrow> uxSchedulerSuspended s = 0 \<Longrightarrow> pxCurrentTCB s \<noteq> None \<Longrightarrow> some_ready s \<Longrightarrow>
   \<exists>s'. run_ticks after n s = Some s' \<and> sched_ok s' \<and> pxCurrentTCB s' \<noteq> None \<and> time_passed n s s'"
proof (induction n arbitrary: s)
  case 0
  then show ?case using remaining_pos [of s] by (simp add: time_passed_def fate_def)
next
  case (Suc n)
  obtain c where c: "pxCurrentTCB s = Some c" using Suc.prems(3) by blast
  obtain r s1 where t: "xTaskIncrementTick s = Some (r, s1)" "sched_ok s1" "time_passed 1 s s1"
    "pxCurrentTCB s1 = Some c"
    using time_passed_one [OF Suc.prems(1,2) c] by metis
  have sus: "uxSchedulerSuspended s1 = 0" using t(3) Suc.prems(2) by (simp add: time_passed_def)
  obtain s2 where a: "after r s1 = Some s2" "sched_ok s2" "same_tasks s1 s2"
    using after_ok [OF t(2) sus time_passed_some_ready [OF t(3) Suc.prems(4)]] by blast
  have tp: "time_passed 1 s s2" by (rule time_passed_same [OF t(3) a(3)])
  have s2: "uxSchedulerSuspended s2 = 0" "pxCurrentTCB s2 \<noteq> None"
    using a(3) sus t(4) by (simp_all add: same_tasks_def)
  obtain s' where u: "run_ticks after n s2 = Some s'" "sched_ok s'" "pxCurrentTCB s' \<noteq> None" "time_passed n s2 s'"
    using Suc.IH [OF a(2) s2 time_passed_some_ready [OF tp Suc.prems(4)]] by blast
  have "time_passed (Suc n) s s'" using time_passed_trans [OF a(2) u(2) tp u(4)] by simp
  then show ?case using t(1) a(1) u by auto
qed

end

lemma replay_ticks_run:
  "replay_ticks n s = run_ticks (\<lambda>r s. Some (if r then s\<lparr>xYieldPending := True\<rparr> else s)) n s"
  by (induction n arbitrary: s) (simp_all add: split_beta)

interpretation replay: tick_caller "\<lambda>r s. Some (if r then s\<lparr>xYieldPending := True\<rparr> else s)"
  by unfold_locales (simp add: same_tasks_def)

text \<open>The timer interrupt of \<^verbatim>\<open>portASM.S\<close>: a context switch when the tick asks for one.\<close>

definition switch_if :: "bool \<Rightarrow> kernel \<Rightarrow> kernel option" where
  "switch_if r s = (if r then vTaskSwitchContext s else Some s)"

lemma switch_same_tasks:
  assumes ok: "sched_ok s" "some_ready s"
  shows "\<exists>s'. vTaskSwitchContext s = Some s' \<and> sched_ok s' \<and> same_tasks s s' \<and>
    (uxSchedulerSuspended s = 0 \<longrightarrow> runs_highest s')"
proof (cases "uxSchedulerSuspended s = 0")
  case True
  have c: "core_ok s" using ok(1) by (rule sched_okD)
  obtain p where "\<not> is_empty (ReadyList p) s" using some_ready_nonempty [OF c ok(2)] ..
  then obtain q where q: "top_ready s q" using top_ready_exists [OF c] by blast
  have "sched_ok (switched s q)" "same_tasks s (switched s q)"
    using ok(1) core_ok_switched [OF c q]
    by (simp_all add: sched_ok_def delays_ok_def overflow_ok_def switched_def same_tasks_def)
  then show ?thesis
    using vTaskSwitchContext_top [OF c True q] runs_highest_switched [OF c q] by simp
next
  case False
  then show ?thesis using ok(1) by (simp add: vTaskSwitchContext_def same_tasks_def)
qed

interpretation timer_isr: tick_caller switch_if
proof
  show "\<exists>s'. switch_if r s = Some s' \<and> sched_ok s' \<and> same_tasks s s'"
    if "sched_ok s" "uxSchedulerSuspended s = 0" "some_ready s" for r s
    using switch_same_tasks [OF that(1,3)] that(1) by (auto simp: switch_if_def same_tasks_def)
qed

section \<open>Going to sleep\<close>

lemma core_ok_list_remove_current:
  "core_ok s \<Longrightarrow> list_remove (StateItem t) (upd_tcb t (ucDelayAborted_update (\<lambda>_. False)) s) = Some s1 \<Longrightarrow> torn t s1"
  by (rule torn_remove_state) (simp_all add: core_ok_upd_tcb)

lemma word_add_wrap: "n \<noteq> 0 \<Longrightarrow> \<not> x + n < x \<Longrightarrow> x < x + n" for x n :: word32
  by (metis add.right_neutral add_left_cancel linorder_neqE)

lemma set_value_frame [frame_simps]:
  "container (set_value i v s) = container s" "klists (set_value i v s) = klists s"
  "item_value (set_value i v s) = (item_value s)(i := v)" "tcbs (set_value i v s) = tcbs s"
  "pxCurrentTCB (set_value i v s) = pxCurrentTCB s"
  "pxDelayedTaskList (set_value i v s) = pxDelayedTaskList s"
  "pxOverflowDelayedTaskList (set_value i v s) = pxOverflowDelayedTaskList s"
  "xTickCount (set_value i v s) = xTickCount s" "xNextTaskUnblockTime (set_value i v s) = xNextTaskUnblockTime s"
  "uxSchedulerSuspended (set_value i v s) = uxSchedulerSuspended s"
  "xPendedTicks (set_value i v s) = xPendedTicks s" "xYieldPending (set_value i v s) = xYieldPending s"
  "uxCurrentNumberOfTasks (set_value i v s) = uxCurrentNumberOfTasks s"
  "xSchedulerRunning (set_value i v s) = xSchedulerRunning s"
  by (simp_all add: set_value_def)

lemma upd_tcb_frame [frame_simps]:
  "container (upd_tcb t f s) = container s" "klists (upd_tcb t f s) = klists s"
  "item_value (upd_tcb t f s) = item_value s" "tcbs (upd_tcb t f s) = (tcbs s)(t := f (tcbs s t))"
  "pxCurrentTCB (upd_tcb t f s) = pxCurrentTCB s"
  "pxDelayedTaskList (upd_tcb t f s) = pxDelayedTaskList s"
  "pxOverflowDelayedTaskList (upd_tcb t f s) = pxOverflowDelayedTaskList s"
  "xTickCount (upd_tcb t f s) = xTickCount s" "xNextTaskUnblockTime (upd_tcb t f s) = xNextTaskUnblockTime s"
  "uxSchedulerSuspended (upd_tcb t f s) = uxSchedulerSuspended s"
  "xPendedTicks (upd_tcb t f s) = xPendedTicks s" "xYieldPending (upd_tcb t f s) = xYieldPending s"
  "uxCurrentNumberOfTasks (upd_tcb t f s) = uxCurrentNumberOfTasks s"
  "xSchedulerRunning (upd_tcb t f s) = xSchedulerRunning s"
  by (simp_all add: upd_tcb_def)

text \<open>\<open>s'\<close> is \<open>s\<close> with the running task \<open>t\<close> put to sleep for \<open>n\<close> ticks, or for ever.\<close>

definition parked :: "tid \<Rightarrow> word32 \<Rightarrow> bool \<Rightarrow> kernel \<Rightarrow> kernel \<Rightarrow> bool" where
  "parked t n indef s s' \<longleftrightarrow> pxCurrentTCB s' = Some t \<and> xTickCount s' = xTickCount s \<and>
     uxSchedulerSuspended s' = uxSchedulerSuspended s \<and> xPendedTicks s' = xPendedTicks s \<and>
     xYieldPending s' = xYieldPending s \<and> uxCurrentNumberOfTasks s' = uxCurrentNumberOfTasks s \<and>
     xSchedulerRunning s' = xSchedulerRunning s \<and>
     (\<forall>u. uxPriority (tcbs s' u) = uxPriority (tcbs s u)) \<and>
     (\<forall>i. i \<noteq> StateItem t \<longrightarrow> container s' i = container s i) \<and>
     (if n = portMAX_DELAY \<and> indef then container s' (StateItem t) = Some SuspendedTaskList
      else sleeping s' t \<and> remaining s' t = unat n)"

lemma park_torn:
  assumes c: "pxCurrentTCB s = Some t" and n: "n \<noteq> 0"
    and r: "list_remove (StateItem t) (upd_tcb t (ucDelayAborted_update (\<lambda>_. False)) s) = Some s1"
    and tn: "torn t s1" and pair: "delayed_pair s" and dl: "delays_ok s" "overflow_ok s"
  shows "\<exists>s'. prvAddCurrentTaskToDelayedList n indef s = Some s' \<and> sched_ok s' \<and> parked t n indef s s'"
proof -
  note f = list_remove_frame [OF r] list_remove_container [OF r] upd_tcb_frame
  let ?w = "xTickCount s1 + n"
  let ?s = "set_value (StateItem t) ?w s1"
  have tn2: "torn t ?s" by (rule torn_set_value [OF tn])
  have old: "\<And>u. container s (StateItem u) = Some (pxDelayedTaskList s) \<Longrightarrow>
      xTickCount s < item_value s (StateItem u) \<and> xNextTaskUnblockTime s \<le> item_value s (StateItem u)"
    "\<And>u. container s (StateItem u) = Some (pxOverflowDelayedTaskList s) \<Longrightarrow>
      item_value s (StateItem u) < xTickCount s"
    using dl by (simp_all add: delays_ok_def overflow_ok_def)
  note defs = prvAddCurrentTaskToDelayedList_def c r Let_def
  show ?thesis
  proof (cases "n = portMAX_DELAY \<and> indef")
    case True
    let ?s' = "insert_end SuspendedTaskList (StateItem t) s1"
    have "core_ok ?s'" by (rule torn_insert_end [OF tn]) simp_all
    then have "sched_ok ?s'"
      using pair old by (auto simp: sched_ok_def delays_ok_def overflow_ok_def frame_simps f delayed_pair_def)
    then show ?thesis
      using True c by (intro exI [of _ ?s']) (auto simp: defs parked_def frame_simps f)
  next
    case fin: False
    have rem: "unat (?w - xTickCount s) = unat n" by (simp add: f)
    show ?thesis
    proof (cases "?w < xTickCount s1")
      case True
      let ?s' = "insert_value (pxOverflowDelayedTaskList s1) (StateItem t) ?s"
      have "core_ok ?s'" using delayed_pairD(2) [OF pair] by (intro torn_insert_value [OF tn2]) (auto simp: f)
      then have "sched_ok ?s'"
        using pair old True by (auto simp: sched_ok_def delays_ok_def overflow_ok_def frame_simps f delayed_pair_def)
      moreover have "sleeping ?s' t" "remaining ?s' t = unat n"
        using delayed_pairD(2) [OF pair] rem by (auto simp: sleeping_def remaining_def frame_simps f)
      ultimately show ?thesis
        using True fin c by (intro exI [of _ ?s']) (auto simp: defs parked_def frame_simps f)
    next
      case False
      let ?i = "insert_value (pxDelayedTaskList s1) (StateItem t) ?s"
      let ?s' = "if ?w < xNextTaskUnblockTime ?i then ?i\<lparr>xNextTaskUnblockTime := ?w\<rparr> else ?i"
      have lt: "xTickCount s < ?w" using word_add_wrap [OF n, of "xTickCount s"] False by (simp add: f)
      have early: "?w \<le> item_value s (StateItem u)"
        if "container s (StateItem u) = Some (pxDelayedTaskList s)" "?w < xNextTaskUnblockTime s" for u
        using old(1) [OF that(1)] that(2) by (meson less_imp_le less_le_trans)
      have "core_ok ?i" using delayed_pairD(1) [OF pair] by (intro torn_insert_value [OF tn2]) (auto simp: f)
      then have "sched_ok ?s'"
        using pair old lt early
        by (auto simp: sched_ok_def delays_ok_def overflow_ok_def frame_simps f delayed_pair_def)
      moreover have "sleeping ?s' t" "remaining ?s' t = unat n"
        using delayed_pairD(1) [OF pair] rem by (auto simp: sleeping_def remaining_def frame_simps f)
      ultimately show ?thesis
        using False fin c by (intro exI [of _ ?s']) (auto simp: defs parked_def frame_simps f)
    qed
  qed
qed

lemma prvAddCurrentTaskToDelayedList_ok:
  assumes ok: "sched_ok s" and c: "pxCurrentTCB s = Some t" and l: "container s (StateItem t) \<noteq> None"
    and n: "n \<noteq> 0"
  shows "\<exists>s'. prvAddCurrentTaskToDelayedList n indef s = Some s' \<and> sched_ok s' \<and> parked t n indef s s'"
proof -
  let ?u = "upd_tcb t (ucDelayAborted_update (\<lambda>_. False)) s"
  obtain s1 where r: "list_remove (StateItem t) ?u = Some s1"
    using l list_remove_some [of ?u "StateItem t"] by (auto simp: frame_simps)
  have "torn t s1" by (rule core_ok_list_remove_current [OF sched_okD(1) [OF ok] r])
  then show ?thesis
    by (rule park_torn [OF c n r]) (use ok in \<open>simp_all add: sched_ok_def core_ok_def\<close>)
qed

section \<open>Leaving the suspended scheduler\<close>

lemma replay_ticks_current:
  "replay_ticks n s = Some s' \<Longrightarrow> sched_ok s \<Longrightarrow> uxSchedulerSuspended s = 0 \<Longrightarrow> pxCurrentTCB s = Some c \<Longrightarrow>
   pxCurrentTCB s' = Some c"
proof (induction n arbitrary: s)
  case (Suc n)
  obtain r s1 where t: "xTaskIncrementTick s = Some (r, s1)" "sched_ok s1" "time_passed 1 s s1"
    "pxCurrentTCB s1 = Some c"
    using time_passed_one [OF Suc.prems(2-4)] by metis
  have "uxSchedulerSuspended s1 = 0" using t(3) Suc.prems(3) by (simp add: time_passed_def)
  then show ?case
    using Suc.IH [of "if r then s1\<lparr>xYieldPending := True\<rparr> else s1"] Suc.prems(1) t by auto
qed simp

lemma time_passed_refl: "sched_ok s \<Longrightarrow> time_passed 0 s s"
  using remaining_pos [of s] by (simp add: time_passed_def fate_def)

lemma woken_some_ready:
  assumes ok: "core_ok s" and w: "woken W s s'" and r: "some_ready s"
  shows "some_ready s'"
proof -
  obtain t p where "container s (StateItem t) = Some (ReadyList p)" using r by (auto simp: some_ready_def)
  then have "container s' (StateItem t) = Some (ReadyList (if W t then uxPriority (tcbs s t) else p))"
    using w by (simp add: woken_def)
  then show ?thesis by (auto simp: some_ready_def)
qed

lemma same_tasks_reset: "same_tasks s (prvResetNextTaskUnblockTime s)"
  by (simp add: same_tasks_def prvResetNextTaskUnblockTime_def)

text \<open>
  \<^verbatim>\<open>xTaskResumeAll\<close> makes the pending tasks ready, and then lets the time pass that was held back.
\<close>

lemma xTaskResumeAll_ok:
  assumes ok: "sched_ok s" and sus: "uxSchedulerSuspended s = 1" and n: "uxCurrentNumberOfTasks s \<noteq> 0"
    and c: "pxCurrentTCB s = Some c" and rd: "some_ready s"
  obtains y s1 s' where "xTaskResumeAll s = Some (y, s')" "sched_ok s'"
    "uxSchedulerSuspended s' = 0" "xPendedTicks s' = 0" "pxCurrentTCB s' \<noteq> None"
    "sched_ok s1" "woken (\<lambda>t. container s (EventItem t) = Some PendingReadyList)
       (s\<lparr>uxSchedulerSuspended := 0, xPendedTicks := 0\<rparr>) s1"
    "time_passed (unat (xPendedTicks s)) s1 s'"
    "\<not> y \<Longrightarrow> pxCurrentTCB s' = Some c \<and> \<not> xYieldPending s'"
    "y \<Longrightarrow> runs_highest s'"
proof -
  let ?P = "\<lambda>t. container s (EventItem t) = Some PendingReadyList"
  let ?s = "s\<lparr>uxSchedulerSuspended := 0\<rparr>"
  have ok0: "sched_ok ?s" and c0: "pxCurrentTCB ?s = Some c" using ok c by simp_all
  from drain_pending_ok [OF ok0 c0, of False] obtain m s1 where
    d: "drain_pending False ?s = Some (m, s1)" "sched_ok s1" "woken ?P ?s s1" by auto
  define s2 where "s2 = (if m then prvResetNextTaskUnblockTime s1 else s1)"
  have same2: "same_tasks s1 s2" using same_tasks_reset [of s1] by (simp add: s2_def same_tasks_def)
  have ok2: "sched_ok s2" using d(2) sched_ok_reset by (simp add: s2_def)
  have w2: "woken ?P ?s s2" using d(3) by (simp add: s2_def prvResetNextTaskUnblockTime_def woken_def)
  have f2: "uxSchedulerSuspended s2 = 0" "pxCurrentTCB s2 = Some c" "xPendedTicks s2 = xPendedTicks s"
    using w2 c by (simp_all add: woken_def)
  have rd2: "some_ready s2"
    using woken_some_ready [OF _ w2] ok0 rd by (simp add: sched_ok_def some_ready_def)
  obtain s3 where t: "(if xPendedTicks s2 > 0
       then map_option (\<lambda>s. s\<lparr>xPendedTicks := 0\<rparr>) (replay_ticks (unat (xPendedTicks s2)) s2) else Some s2) = Some s3"
    "sched_ok s3" "xPendedTicks s3 = 0" "pxCurrentTCB s3 = Some c"
    "time_passed (unat (xPendedTicks s)) (s2\<lparr>xPendedTicks := 0\<rparr>) s3"
  proof (cases "xPendedTicks s2 > 0")
    case True
    obtain s3 where r: "replay_ticks (unat (xPendedTicks s2)) s2 = Some s3" "sched_ok s3"
      "time_passed (unat (xPendedTicks s2)) s2 s3"
      using replay.run_ticks_ok [OF ok2 f2(1) _ rd2] f2(2) unfolding replay_ticks_run by blast
    have "pxCurrentTCB s3 = Some c"
      using replay_ticks_current [OF r(1) ok2 f2(1,2)] .
    then show ?thesis using that [of "s3\<lparr>xPendedTicks := 0\<rparr>"] True r f2(3)
      by (simp add: time_passed_def fate_def)
  next
    case False
    then have z: "xPendedTicks s2 = 0" "unat (xPendedTicks s) = 0" using f2(3) by (simp_all add: word_gt_0)
    then have "time_passed 0 (s2\<lparr>xPendedTicks := 0\<rparr>) s2"
      using time_passed_refl [OF ok2] by (simp add: time_passed_def fate_def)
    then show ?thesis using that [of s2] ok2 f2(2) z by simp
  qed
  have sus3: "uxSchedulerSuspended s3 = 0" using t(5) f2 by (simp add: time_passed_def)
  have rd3: "some_ready s3"
    by (rule time_passed_some_ready [OF t(5)]) (use rd2 in \<open>simp add: some_ready_def\<close>)
  have w: "woken ?P (s\<lparr>uxSchedulerSuspended := 0, xPendedTicks := 0\<rparr>) (s2\<lparr>xPendedTicks := 0\<rparr>)"
    using w2 by (simp add: woken_def)
  have ok2': "sched_ok (s2\<lparr>xPendedTicks := 0\<rparr>)" using ok2 by simp
  have unf: "xTaskResumeAll s = (if xYieldPending s3 then map_option (Pair True) (vTaskSwitchContext s3) else Some (False, s3))"
    using sus n d(1) t(1)
    by (cases "xPendedTicks s2 = 0") (auto simp: xTaskResumeAll_def Let_def word_gt_0 s2_def [symmetric])
  show ?thesis
  proof (cases "xYieldPending s3")
    case True
    obtain s' where s': "vTaskSwitchContext s3 = Some s'" "sched_ok s'" "same_tasks s3 s'" "runs_highest s'"
      using switch_same_tasks [OF t(2) rd3] sus3 by blast
    have "uxSchedulerSuspended s' = 0" "xPendedTicks s' = 0" "pxCurrentTCB s' \<noteq> None"
      using s'(3) t(3,4) sus3 by (simp_all add: same_tasks_def)
    moreover have "time_passed (unat (xPendedTicks s)) (s2\<lparr>xPendedTicks := 0\<rparr>) s'"
      by (rule time_passed_same [OF t(5) s'(3)])
    ultimately show ?thesis
      using that [of True s' "s2\<lparr>xPendedTicks := 0\<rparr>"] unf True s' ok2' w by auto
  next
    case False
    then show ?thesis
      using that [of False s3 "s2\<lparr>xPendedTicks := 0\<rparr>"] unf ok2' w t sus3 by auto
  qed
qed

text \<open>
  A call of \<^verbatim>\<open>vTaskDelay\<close> by the running task, with no interrupt in between: the caller sleeps
  for exactly the given number of ticks, and the next task has been chosen.
\<close>

lemma woken_none: "woken (\<lambda>t. False) s s' \<Longrightarrow> container s' = container s"
proof -
  assume "woken (\<lambda>t. False) s s'"
  then have "container s' i = container s i" for i by (cases i) (simp_all add: woken_def)
  then show ?thesis by (rule ext)
qed

lemma vTaskDelay_ok:
  assumes ok: "sched_ok s" and sus: "uxSchedulerSuspended s = 0" and n: "uxCurrentNumberOfTasks s \<noteq> 0"
    and c: "pxCurrentTCB s = Some t" and l: "container s (StateItem t) \<noteq> None"
    and rd: "container s (StateItem u) = Some (ReadyList p)" "u \<noteq> t"
    and idle: "is_empty PendingReadyList s" "xPendedTicks s = 0" and d: "k \<noteq> 0"
  shows "\<exists>s'. vTaskDelay k s = Some s' \<and> sched_ok s' \<and> uxSchedulerSuspended s' = 0 \<and>
    pxCurrentTCB s' \<noteq> None \<and> sleeping s' t \<and> remaining s' t = unat k \<and> xTickCount s' = xTickCount s \<and>
    uxPriority (tcbs s' t) = uxPriority (tcbs s t) \<and> runs_highest s'"
proof -
  let ?s = "vTaskSuspendAll s"
  have s0: "sched_ok ?s" "pxCurrentTCB ?s = Some t" "container ?s (StateItem t) \<noteq> None"
    "uxSchedulerSuspended ?s = 1" "uxCurrentNumberOfTasks ?s \<noteq> 0" "xPendedTicks ?s = 0"
    "container ?s = container s" "tcbs ?s = tcbs s" "xTickCount ?s = xTickCount s"
    using ok c l sus n idle(2) by (simp_all add: vTaskSuspendAll_def)
  obtain s1 where a: "prvAddCurrentTaskToDelayedList k False ?s = Some s1" "sched_ok s1" "parked t k False ?s s1"
    using prvAddCurrentTaskToDelayedList_ok [OF s0(1,2,3) d] by blast
  note pk = a(3) [unfolded parked_def]
  have "container s1 (StateItem u) = Some (ReadyList p)" using pk rd s0(7) by simp
  then have rd1: "some_ready s1" by (auto simp: some_ready_def)
  have "container s (EventItem u) \<noteq> Some PendingReadyList" for u
    using idle(1) lists_okD(2) [OF core_okD(1) [OF sched_okD(1) [OF ok]], of "EventItem u" PendingReadyList]
    by (auto simp: is_empty_def)
  then have noP: "(\<lambda>t. container s1 (EventItem t) = Some PendingReadyList) = (\<lambda>t. False)"
    using pk s0(7) by simp
  have s1: "uxSchedulerSuspended s1 = 1" "uxCurrentNumberOfTasks s1 \<noteq> 0" "pxCurrentTCB s1 = Some t"
    "unat (xPendedTicks s1) = 0" using pk s0 by simp_all
  obtain y s2 s' where
    r: "xTaskResumeAll s1 = Some (y, s')" "sched_ok s'" "uxSchedulerSuspended s' = 0" "pxCurrentTCB s' \<noteq> None"
    "sched_ok s2" "woken (\<lambda>t. False) (s1\<lparr>uxSchedulerSuspended := 0, xPendedTicks := 0\<rparr>) s2" "time_passed 0 s2 s'"
    "y \<Longrightarrow> runs_highest s'"
    using xTaskResumeAll_ok [OF a(2) s1(1-3) rd1] unfolding s1(4) noP by metis
  note c2 = woken_none [OF r(6)]
  have sl2: "sleeping s2 t" "remaining s2 t = unat k"
    using pk r(6) c2 by (auto simp: sleeping_def remaining_def woken_def)
  have "fate 0 s2 s' t" using r(7) by (simp add: time_passed_def)
  then have sl: "sleeping s' t" "remaining s' t = unat k"
    using sl2 remaining_pos [OF r(5) sl2(1)] by (auto simp: fate_def)
  have tk: "xTickCount s' = xTickCount s" "uxPriority (tcbs s' t) = uxPriority (tcbs s t)"
    using r(6,7) pk s0 by (simp_all add: woken_def time_passed_def)
  have "container s2 (StateItem u) = Some (ReadyList p)"
    using c2 \<open>container s1 (StateItem u) = Some (ReadyList p)\<close> by simp
  then have "some_ready s2" by (auto simp: some_ready_def)
  then have rd': "some_ready s'" by (rule time_passed_some_ready [OF r(7)])
  have unf: "vTaskDelay k s = (if y then Some s' else vTaskSwitchContext s')"
    using d a(1) r(1) s0(4) by (simp add: vTaskDelay_def Let_def word_gt_0)
  show ?thesis
  proof (cases y)
    case True
    then show ?thesis using unf r sl tk by auto
  next
    case False
    obtain s'' where w: "vTaskSwitchContext s' = Some s''" "sched_ok s''" "same_tasks s' s''" "runs_highest s''"
      using switch_same_tasks [OF r(2) rd'] r(3) by blast
    have "uxSchedulerSuspended s'' = 0" "pxCurrentTCB s'' \<noteq> None" "sleeping s'' t" "remaining s'' t = unat k"
      "xTickCount s'' = xTickCount s" "uxPriority (tcbs s'' t) = uxPriority (tcbs s t)"
      using w(3) r(3,4) sl tk same_tasks_sleeping [OF w(3), of t] by (simp_all add: same_tasks_def)
    then show ?thesis using unf False w by auto
  qed
qed

end
