(* ===== verification/Task_Control_Inv.thy ===== *)
theory Task_Control_Inv
  imports Scheduler_Inv Task_Control
begin

text \<open>
  Every call of the task API, made as its documentation allows, returns and keeps the kernel in
  order: no assertion fails, the lists stay consistent, the running task and the idle task stay
  alive.
\<close>

section \<open>What no operation takes away\<close>

definition alive :: "kernel \<Rightarrow> tid \<Rightarrow> bool" where
  "alive s t \<longleftrightarrow> container s (StateItem t) \<notin> {None, Some TasksWaitingTermination}"

definition is_ready :: "kernel \<Rightarrow> tid \<Rightarrow> bool" where
  "is_ready s t \<longleftrightarrow> (\<exists>p. container s (StateItem t) = Some (ReadyList p))"

text \<open>From \<open>s\<close> to \<open>s'\<close> no task but those of \<open>X\<close> stops being alive or being ready.\<close>

definition keeps :: "tid set \<Rightarrow> kernel \<Rightarrow> kernel \<Rightarrow> bool" where
  "keeps X s s' \<longleftrightarrow> (\<forall>t. alive s t \<longrightarrow> alive s' t) \<and>
     (\<forall>t. t \<notin> X \<and> is_ready s t \<longrightarrow> is_ready s' t) \<and>
     uxCurrentNumberOfTasks s' = uxCurrentNumberOfTasks s \<and>
     xSchedulerRunning s' = xSchedulerRunning s"

lemma keeps_refl [simp]: "keeps X s s"
  by (simp add: keeps_def)

lemma keeps_trans: "keeps X s s1 \<Longrightarrow> keeps X s1 s2 \<Longrightarrow> keeps X s s2"
  by (simp add: keeps_def)

lemma keeps_mono: "keeps {} s s' \<Longrightarrow> keeps X s s'"
  by (simp add: keeps_def)

lemma ready_alive: "is_ready s t \<Longrightarrow> alive s t"
  by (auto simp: is_ready_def alive_def)

lemma some_ready_is_ready: "is_ready s t \<Longrightarrow> some_ready s"
  by (auto simp: is_ready_def some_ready_def)

lemma keeps_same_tasks: "same_tasks s s' \<Longrightarrow> keeps X s s'"
  by (simp add: same_tasks_def keeps_def alive_def is_ready_def)

lemma keeps_woken: "woken W s s' \<Longrightarrow> keeps X s s'"
  by (simp add: woken_def keeps_def alive_def is_ready_def)

lemma keeps_time_passed: "time_passed n s s' \<Longrightarrow> keeps X s s'"
proof -
  assume tp: "time_passed n s s'"
  have f: "fate n s s' t" for t using tp by (simp add: time_passed_def)
  have "alive s' t" if "alive s t" for t
    using f [of t] that by (auto simp: fate_def alive_def sleeping_def split: if_splits)
  moreover have "is_ready s' t" if "is_ready s t" for t
    using f [of t] that by (auto simp: fate_def is_ready_def sleeping_def split: if_splits)
  ultimately show ?thesis using tp by (simp add: keeps_def time_passed_def)
qed

text \<open>The state between calls, with the idle task \<open>i\<close>.\<close>

definition kernel_wf :: "tid \<Rightarrow> kernel \<Rightarrow> bool" where
  "kernel_wf i s \<longleftrightarrow> sched_ok s \<and> (\<exists>c. pxCurrentTCB s = Some c \<and> alive s c) \<and> is_ready s i \<and>
     uxCurrentNumberOfTasks s \<noteq> 0 \<and> xSchedulerRunning s"

lemma wf_keeps:
  "kernel_wf i s \<Longrightarrow> keeps {t} s s' \<Longrightarrow> i \<noteq> t \<Longrightarrow> sched_ok s' \<Longrightarrow> pxCurrentTCB s' = pxCurrentTCB s \<Longrightarrow> kernel_wf i s'"
  by (auto simp: kernel_wf_def keeps_def)

lemma runs_highest_alive: "runs_highest s \<Longrightarrow> \<exists>c. pxCurrentTCB s = Some c \<and> alive s c"
  by (auto simp: runs_highest_def alive_def)

lemma wf_switch: "kernel_wf i s \<Longrightarrow> \<exists>s'. vTaskSwitchContext s = Some s' \<and> kernel_wf i s' \<and>
    keeps X s s' \<and> same_tasks s s' \<and> (uxSchedulerSuspended s = 0 \<longrightarrow> runs_highest s')"
proof -
  assume wf: "kernel_wf i s"
  then have "sched_ok s" "some_ready s" by (auto simp: kernel_wf_def some_ready_is_ready)
  from switch_same_tasks [OF this] obtain s' where s': "vTaskSwitchContext s = Some s'" "sched_ok s'"
    "same_tasks s s'" "uxSchedulerSuspended s = 0 \<longrightarrow> runs_highest s'" by blast
  have k: "keeps {} s s'" by (rule keeps_same_tasks [OF s'(3)])
  have "\<exists>c. pxCurrentTCB s' = Some c \<and> alive s' c"
  proof (cases "uxSchedulerSuspended s = 0")
    case True
    then show ?thesis using s'(4) runs_highest_alive by blast
  next
    case False
    then have "s' = s\<lparr>xYieldPending := True\<rparr>" using s'(1) by (simp add: vTaskSwitchContext_def)
    then show ?thesis using wf by (simp add: kernel_wf_def alive_def)
  qed
  then show ?thesis using s' k wf by (auto simp: kernel_wf_def keeps_def intro: keeps_mono)
qed

lemma wf_resume_all:
  assumes wf: "kernel_wf i s" and sus: "uxSchedulerSuspended s \<noteq> 0"
  shows "\<exists>y s'. xTaskResumeAll s = Some (y, s') \<and> kernel_wf i s' \<and> keeps {} s s' \<and>
    uxSchedulerSuspended s' = uxSchedulerSuspended s - 1 \<and> (y \<longrightarrow> runs_highest s') \<and>
    (\<not> y \<longrightarrow> pxCurrentTCB s' = pxCurrentTCB s)"
proof (cases "uxSchedulerSuspended s = 1")
  case False
  have "s\<lparr>uxSchedulerSuspended := uxSchedulerSuspended s - 1\<rparr> = s\<lparr>uxSchedulerSuspended := uxSchedulerSuspended s - 1\<rparr>" ..
  moreover have "uxSchedulerSuspended s - 1 \<noteq> 0" using False by simp
  ultimately show ?thesis
    using sus wf by (auto simp: xTaskResumeAll_def Let_def kernel_wf_def keeps_def alive_def is_ready_def)
next
  case True
  obtain c where c: "pxCurrentTCB s = Some c" "alive s c" using wf by (auto simp: kernel_wf_def)
  have p: "sched_ok s" "uxCurrentNumberOfTasks s \<noteq> 0" "some_ready s"
    using wf by (auto simp: kernel_wf_def some_ready_is_ready)
  obtain y s1 s' where r: "xTaskResumeAll s = Some (y, s')" "sched_ok s'" "uxSchedulerSuspended s' = 0"
    "woken (\<lambda>t. container s (EventItem t) = Some PendingReadyList)
       (s\<lparr>uxSchedulerSuspended := 0, xPendedTicks := 0\<rparr>) s1"
    "time_passed (unat (xPendedTicks s)) s1 s'" "\<not> y \<Longrightarrow> pxCurrentTCB s' = Some c" "y \<Longrightarrow> runs_highest s'"
    using xTaskResumeAll_ok [OF p(1) True p(2) c(1) p(3)] by metis
  have "keeps {} (s\<lparr>uxSchedulerSuspended := 0, xPendedTicks := 0\<rparr>) s'"
    by (rule keeps_trans [OF keeps_woken [OF r(4)] keeps_time_passed [OF r(5)]])
  then have k: "keeps {} s s'" by (simp add: keeps_def alive_def is_ready_def)
  have "\<exists>c. pxCurrentTCB s' = Some c \<and> alive s' c"
    using r(6,7) runs_highest_alive c(2) k by (cases y) (auto simp: keeps_def)
  then have "kernel_wf i s'" using r(2) k wf by (auto simp: kernel_wf_def keeps_def)
  then show ?thesis using r(1,3,6,7) k True c(1) by auto
qed

lemma wf_tick:
  assumes wf: "kernel_wf i s" and sus: "uxSchedulerSuspended s = 0"
  shows "\<exists>r s'. xTaskIncrementTick s = Some (r, s') \<and> kernel_wf i s' \<and> keeps {} s s' \<and> uxSchedulerSuspended s' = 0 \<and>
    pxCurrentTCB s' = pxCurrentTCB s"
proof -
  obtain c where c: "pxCurrentTCB s = Some c" "alive s c" using wf by (auto simp: kernel_wf_def)
  have ok: "sched_ok s" using wf by (simp add: kernel_wf_def)
  from time_passed_one [OF ok sus c(1)] obtain r s' where
    t: "xTaskIncrementTick s = Some (r, s')" "sched_ok s'" "time_passed 1 s s'" "pxCurrentTCB s' = Some c"
    by metis
  have k: "keeps {} s s'" by (rule keeps_time_passed [OF t(3)])
  have "kernel_wf i s'" using t c k wf by (auto simp: kernel_wf_def keeps_def)
  then show ?thesis using t k sus c(1) by (auto simp: time_passed_def)
qed

section \<open>Moving a task\<close>

text \<open>A state in order stays so when tasks only leave the delayed lists.\<close>

lemma sched_ok_shrink:
  assumes ok: "sched_ok s" and c: "core_ok s'"
    and f: "pxDelayedTaskList s' = pxDelayedTaskList s" "pxOverflowDelayedTaskList s' = pxOverflowDelayedTaskList s"
      "xTickCount s' = xTickCount s" "xNextTaskUnblockTime s' = xNextTaskUnblockTime s"
    and u: "\<And>u. sleeping s' u \<Longrightarrow> container s' (StateItem u) = container s (StateItem u) \<and>
      item_value s' (StateItem u) = item_value s (StateItem u)"
  shows "sched_ok s'"
proof -
  have pr: "delayed_pair s" using ok by (simp add: sched_ok_def core_ok_def)
  have sl: "sleeping s' u" if "container s' (StateItem u) \<in> {Some (pxDelayedTaskList s), Some (pxOverflowDelayedTaskList s)}" for u
    using that pr by (auto simp: sleeping_def delayed_pair_def)
  have "delays_ok s'"
    unfolding delays_ok_def f
  proof (intro allI impI)
    fix t assume c: "container s' (StateItem t) = Some (pxDelayedTaskList s)"
    then have "sleeping s' t" by (intro sl) simp
    from u [OF this] c show "xTickCount s < item_value s' (StateItem t) \<and>
        xNextTaskUnblockTime s \<le> item_value s' (StateItem t)"
      using sched_okD(2) [OF ok] by (simp add: delays_ok_def)
  qed
  moreover have "overflow_ok s'"
    unfolding overflow_ok_def f
  proof (intro allI impI)
    fix t assume c: "container s' (StateItem t) = Some (pxOverflowDelayedTaskList s)"
    then have "sleeping s' t" by (intro sl) simp
    from u [OF this] c show "item_value s' (StateItem t) < xTickCount s"
      using sched_okD(3) [OF ok] by (simp add: overflow_ok_def)
  qed
  ultimately show ?thesis using c by (simp add: sched_ok_def)
qed

lemma reset_frame [frame_simps]:
  "container (prvResetNextTaskUnblockTime s) = container s" "tcbs (prvResetNextTaskUnblockTime s) = tcbs s"
  "pxCurrentTCB (prvResetNextTaskUnblockTime s) = pxCurrentTCB s"
  "uxSchedulerSuspended (prvResetNextTaskUnblockTime s) = uxSchedulerSuspended s"
  "uxCurrentNumberOfTasks (prvResetNextTaskUnblockTime s) = uxCurrentNumberOfTasks s"
  "xSchedulerRunning (prvResetNextTaskUnblockTime s) = xSchedulerRunning s"
  "klists (prvResetNextTaskUnblockTime s) = klists s"
  "uxTaskNumber (prvResetNextTaskUnblockTime s) = uxTaskNumber s"
  "freed (prvResetNextTaskUnblockTime s) = freed s"
  by (simp_all add: prvResetNextTaskUnblockTime_def)

text \<open>Taking a live task out of all lists, the first steps of suspension and deletion.\<close>

definition taken_out :: "tid \<Rightarrow> kernel \<Rightarrow> kernel \<Rightarrow> bool" where
  "taken_out t s s' \<longleftrightarrow> torn t s' \<and> container s' = (container s)(StateItem t := None, EventItem t := None) \<and>
     item_value s' = item_value s \<and> tcbs s' = tcbs s \<and> pxCurrentTCB s' = pxCurrentTCB s \<and>
     pxDelayedTaskList s' = pxDelayedTaskList s \<and> pxOverflowDelayedTaskList s' = pxOverflowDelayedTaskList s \<and>
     xTickCount s' = xTickCount s \<and> xNextTaskUnblockTime s' = xNextTaskUnblockTime s \<and>
     uxSchedulerSuspended s' = uxSchedulerSuspended s \<and> xSchedulerRunning s' = xSchedulerRunning s \<and>
     uxCurrentNumberOfTasks s' = uxCurrentNumberOfTasks s"

lemma take_out:
  assumes ok: "core_ok s" and t: "container s (StateItem t) \<noteq> None"
  shows "\<exists>s1 s2. list_remove (StateItem t) s = Some s1 \<and> remove_event_item t s1 = Some s2 \<and> taken_out t s s2"
proof -
  obtain s1 where r: "list_remove (StateItem t) s = Some s1" using list_remove_some t by blast
  note f = list_remove_frame [OF r] list_remove_container [OF r]
  from remove_event_item_ok [OF torn_remove_state [OF ok r]] obtain s2 where
    "remove_event_item t s1 = Some s2" "torn t s2" "container s2 = (container s1)(EventItem t := None)"
    "item_value s2 = item_value s1" "tcbs s2 = tcbs s1" "pxCurrentTCB s2 = pxCurrentTCB s1"
    "pxDelayedTaskList s2 = pxDelayedTaskList s1" "xTickCount s2 = xTickCount s1"
    "xNextTaskUnblockTime s2 = xNextTaskUnblockTime s1" "uxSchedulerSuspended s2 = uxSchedulerSuspended s1"
    "uxCurrentNumberOfTasks s2 = uxCurrentNumberOfTasks s1" "xSchedulerRunning s2 = xSchedulerRunning s1"
    "pxOverflowDelayedTaskList s2 = pxOverflowDelayedTaskList s1"
    by metis
  then show ?thesis using r by (auto simp: taken_out_def f)
qed

lemma taken_out_end:
  assumes ok: "sched_ok s" and tk: "taken_out t s s'" and l: "l \<in> {SuspendedTaskList, TasksWaitingTermination}"
  shows "sched_ok (insert_end l (StateItem t) s')"
proof (rule sched_ok_shrink [OF ok])
  note tko = tk [unfolded taken_out_def]
  show "core_ok (insert_end l (StateItem t) s')"
    by (rule torn_insert_end) (use tko l in auto)
  show "container (insert_end l (StateItem t) s') (StateItem u) = container s (StateItem u) \<and>
      item_value (insert_end l (StateItem t) s') (StateItem u) = item_value s (StateItem u)"
    if "sleeping (insert_end l (StateItem t) s') u" for u
    using that tko l by (auto simp: sleeping_def frame_simps split: if_splits)
qed (use tk in \<open>simp_all add: taken_out_def frame_simps\<close>)

lemma sched_ok_set_notify [simp]: "sched_ok (set_notify t n s) = sched_ok s"
  by (simp add: set_notify_def core_ok_upd_tcb)

lemma set_notify_frame [frame_simps]:
  "container (set_notify t n s) = container s" "pxCurrentTCB (set_notify t n s) = pxCurrentTCB s"
  "uxSchedulerSuspended (set_notify t n s) = uxSchedulerSuspended s"
  "uxCurrentNumberOfTasks (set_notify t n s) = uxCurrentNumberOfTasks s"
  "xSchedulerRunning (set_notify t n s) = xSchedulerRunning s"
  by (simp_all add: set_notify_def frame_simps)

lemma keeps_containers:
  assumes "\<And>u. u \<noteq> t \<Longrightarrow> container s' (StateItem u) = container s (StateItem u)" "alive s' t"
    "uxCurrentNumberOfTasks s' = uxCurrentNumberOfTasks s" "xSchedulerRunning s' = xSchedulerRunning s"
  shows "keeps {t} s s'"
proof -
  have "alive s u \<longrightarrow> alive s' u" for u using assms(1) [of u] assms(2) by (cases "u = t") (auto simp: alive_def)
  then show ?thesis using assms by (simp add: keeps_def is_ready_def)
qed

lemma vTaskSuspend_wf:
  assumes wf: "kernel_wf i s" and t: "tcb_of_handle h s = Some t" "alive s t" "t \<noteq> i"
    and sus: "pxCurrentTCB s = Some t \<Longrightarrow> uxSchedulerSuspended s = 0"
  shows "\<exists>s'. vTaskSuspend h s = Some s' \<and> kernel_wf i s' \<and> container s' (StateItem t) = Some SuspendedTaskList \<and>
    container s' (EventItem t) = None \<and> pxCurrentTCB s' \<noteq> Some t"
proof -
  have ok: "sched_ok s" "xSchedulerRunning s" using wf by (simp_all add: kernel_wf_def)
  have "container s (StateItem t) \<noteq> None" using t(2) by (simp add: alive_def)
  from take_out [OF sched_okD(1) [OF ok(1)] this] obtain s1 s2 where
    s2: "list_remove (StateItem t) s = Some s1" "remove_event_item t s1 = Some s2" "taken_out t s s2" by blast
  note tk = s2(3) [unfolded taken_out_def]
  define s3 where "s3 = insert_end SuspendedTaskList (StateItem t) s2"
  define s4 where "s4 = stop_waiting t s3"
  define s5 where "s5 = prvResetNextTaskUnblockTime s4"
  have ok3: "sched_ok s3" using taken_out_end [OF ok(1) s2(3)] by (simp add: s3_def)
  then have ok5: "sched_ok s5" by (simp add: s5_def s4_def stop_waiting_def sched_ok_reset)
  have f5: "container s5 = (container s)(StateItem t := Some SuspendedTaskList, EventItem t := None)"
    "pxCurrentTCB s5 = pxCurrentTCB s" "uxSchedulerSuspended s5 = uxSchedulerSuspended s"
    "xSchedulerRunning s5 = xSchedulerRunning s" "uxCurrentNumberOfTasks s5 = uxCurrentNumberOfTasks s"
    using tk by (auto simp: s5_def s4_def s3_def stop_waiting_def frame_simps fun_eq_iff)
  have k: "keeps {t} s s5" by (rule keeps_containers) (simp_all add: f5 alive_def)
  have wf5: "kernel_wf i s5" by (rule wf_keeps [OF wf k _ ok5]) (use t(3) f5 in auto)
  have run: "xSchedulerRunning s4" using ok(2) f5(4) by (simp add: s5_def frame_simps)
  have unf: "vTaskSuspend h s = (if pxCurrentTCB s = Some t
      then if uxSchedulerSuspended s \<noteq> 0 then None else vTaskSwitchContext s5 else Some s5)"
    using t(1) s2(1,2) run ok(2) f5
    by (simp add: vTaskSuspend_def Let_def s3_def [symmetric] s4_def [symmetric] s5_def [symmetric])
  show ?thesis
  proof (cases "pxCurrentTCB s = Some t")
    case True
    obtain s' where s': "vTaskSwitchContext s5 = Some s'" "kernel_wf i s'" "same_tasks s5 s'" "runs_highest s'"
      using wf_switch [OF wf5] sus [OF True] f5(3) by auto
    have c: "container s' = container s5" using s'(3) by (simp add: same_tasks_def)
    then have "pxCurrentTCB s' \<noteq> Some t" using s'(4) f5(1) by (auto simp: runs_highest_def)
    then show ?thesis using True unf sus s' c f5(1) by simp
  next
    case False
    then show ?thesis using unf wf5 f5 by simp
  qed
qed

section \<open>Making a task ready\<close>

definition readied :: "tid \<Rightarrow> kernel \<Rightarrow> kernel \<Rightarrow> bool" where
  "readied t s s' \<longleftrightarrow> sched_ok s' \<and>
     container s' = (container s)(StateItem t := Some (ReadyList (uxPriority (tcbs s' t)))) \<and>
     (\<forall>u. u \<noteq> t \<longrightarrow> tcbs s' u = tcbs s u) \<and> pxCurrentTCB s' = pxCurrentTCB s \<and>
     xTickCount s' = xTickCount s \<and> uxSchedulerSuspended s' = uxSchedulerSuspended s \<and>
     xSchedulerRunning s' = xSchedulerRunning s \<and> uxCurrentNumberOfTasks s' = uxCurrentNumberOfTasks s \<and>
     xYieldPending s' = xYieldPending s \<and> xPendedTicks s' = xPendedTicks s"

lemma torn_ready_sched:
  assumes ok: "sched_ok s" and tn: "torn t s'" and e: "container s' (EventItem t) \<in> {None, Some PendingReadyList}"
    and f: "pxDelayedTaskList s' = pxDelayedTaskList s" "pxOverflowDelayedTaskList s' = pxOverflowDelayedTaskList s"
      "xTickCount s' = xTickCount s" "xNextTaskUnblockTime s' = xNextTaskUnblockTime s"
    and u: "\<And>u. u \<noteq> t \<Longrightarrow> container s' (StateItem u) = container s (StateItem u) \<and>
      item_value s' (StateItem u) = item_value s (StateItem u)"
  shows "sched_ok (prvAddTaskToReadyList t s')"
proof (rule sched_ok_shrink [OF ok torn_ready [OF tn e]])
  show "container (prvAddTaskToReadyList t s') (StateItem v) = container s (StateItem v) \<and>
      item_value (prvAddTaskToReadyList t s') (StateItem v) = item_value s (StateItem v)"
    if "sleeping (prvAddTaskToReadyList t s') v" for v
    using that u [of v] by (cases "v = t") (auto simp: sleeping_def frame_simps)
qed (simp_all add: frame_simps f)

lemma make_ready:
  assumes ok: "sched_ok s" and t: "container s (StateItem t) \<noteq> None"
    and e: "container s (EventItem t) \<in> {None, Some PendingReadyList}"
  shows "\<exists>s1. list_remove (StateItem t) s = Some s1 \<and> readied t s (prvAddTaskToReadyList t s1)"
proof -
  obtain s1 where r: "list_remove (StateItem t) s = Some s1" using list_remove_some t by blast
  note f = list_remove_frame [OF r] list_remove_container [OF r]
  have "torn t s1" by (rule torn_remove_state [OF sched_okD(1) [OF ok] r])
  then have "sched_ok (prvAddTaskToReadyList t s1)"
    by (rule torn_ready_sched [OF ok]) (use e in \<open>simp_all add: f\<close>)
  then show ?thesis using r by (simp add: readied_def frame_simps f)
qed

lemma readied_keeps: "readied t s s' \<Longrightarrow> keeps {} s s'"
  by (auto simp: readied_def keeps_def alive_def is_ready_def)

lemma wf_readied: "kernel_wf i s \<Longrightarrow> readied t s s' \<Longrightarrow> kernel_wf i s'"
  using readied_keeps [of t s s'] by (auto simp: kernel_wf_def keeps_def readied_def)

lemma wf_yield_any:
  assumes wf: "kernel_wf i s"
  shows "\<exists>s'. taskYIELD_ANY_CORE_IF_USING_PREEMPTION t s = Some s' \<and> kernel_wf i s' \<and> same_tasks s s'"
proof -
  obtain c where c: "pxCurrentTCB s = Some c" using wf by (auto simp: kernel_wf_def)
  then show ?thesis
    using wf_switch [OF wf] wf
    by (auto simp: taskYIELD_ANY_CORE_IF_USING_PREEMPTION_def same_tasks_def)
qed

lemma wf_pend_yield:
  assumes wf: "kernel_wf i s"
  shows "\<exists>r s'. pend_yield_for t s = Some (r, s') \<and> kernel_wf i s' \<and> same_tasks s s' \<and>
    pxCurrentTCB s' = pxCurrentTCB s \<and> klists s' = klists s"
proof -
  obtain c where c: "pxCurrentTCB s = Some c" using wf by (auto simp: kernel_wf_def)
  have "kernel_wf i (s\<lparr>xYieldPending := True\<rparr>)" using wf by (simp add: kernel_wf_def alive_def is_ready_def)
  then show ?thesis using wf c by (auto simp: pend_yield_for_def same_tasks_def)
qed

lemma vTaskResume_wf:
  assumes wf: "kernel_wf i s"
  shows "\<exists>s'. vTaskResume t s = Some s' \<and> kernel_wf i s' \<and> (pxCurrentTCB s \<noteq> Some t \<and> prvTaskIsTaskSuspended t s \<longrightarrow> is_ready s' t)"
proof (cases "pxCurrentTCB s \<noteq> Some t \<and> prvTaskIsTaskSuspended t s")
  case True
  then have "container s (StateItem t) \<noteq> None" "container s (EventItem t) \<in> {None, Some PendingReadyList}"
    by (auto simp: prvTaskIsTaskSuspended_def)
  moreover have "sched_ok s" using wf by (simp add: kernel_wf_def)
  ultimately obtain s1 where r: "list_remove (StateItem t) s = Some s1" "readied t s (prvAddTaskToReadyList t s1)"
    using make_ready by blast
  obtain s' where s': "taskYIELD_ANY_CORE_IF_USING_PREEMPTION t (prvAddTaskToReadyList t s1) = Some s'" "kernel_wf i s'"
    "same_tasks (prvAddTaskToReadyList t s1) s'"
    using wf_yield_any [OF wf_readied [OF wf r(2)]] by blast
  have "is_ready s' t" using s'(3) r(2) by (simp add: same_tasks_def readied_def is_ready_def)
  then show ?thesis using True r(1) s' by (simp add: vTaskResume_def Let_def)
next
  case False
  then show ?thesis using wf by (auto simp: vTaskResume_def)
qed

text \<open>An event item that is in no list may go to the pending ready list.\<close>

lemma sched_ok_insert_event:
  assumes ok: "sched_ok s" and e: "container s (EventItem t) = None" and l: "\<not> state_list l"
    and t: "container s (StateItem t) \<in> Some ` blocked_lists \<or>
      l = PendingReadyList \<and> (\<exists>p. container s (StateItem t) = Some (ReadyList p))"
  shows "sched_ok (insert_end l (EventItem t) s)" "sched_ok (insert_value l (EventItem t) s)"
proof -
  have c: "core_ok s" using ok by (rule sched_okD)
  have tk: "task_ok (insert_end l (EventItem t) s) u" "task_ok (insert_value l (EventItem t) s) u" for u
    using core_okD(4) [OF c, of u] l t by (auto simp: task_ok_def frame_simps)
  have "l \<notin> {DelayedTaskList1, DelayedTaskList2}" using l by auto
  then show "sched_ok (insert_end l (EventItem t) s)" "sched_ok (insert_value l (EventItem t) s)"
    using ok c tk e lists_ok_insert_end [of s "EventItem t" l] lists_ok_insert_value [of s "EventItem t" l]
      delayed_sorted_insert_end [of s l] delayed_sorted_insert_value [of s l]
    by (simp_all add: sched_ok_def core_ok_def delays_ok_def overflow_ok_def frame_simps delayed_pair_def)
qed

lemma wf_insert_event:
  assumes "kernel_wf i s" "container s (EventItem t) = None" "\<not> state_list l"
    "container s (StateItem t) \<in> Some ` blocked_lists \<or>
      l = PendingReadyList \<and> (\<exists>p. container s (StateItem t) = Some (ReadyList p))"
  shows "kernel_wf i (insert_end l (EventItem t) s)"
  using sched_ok_insert_event [OF _ assms(2-4)] assms(1)
  by (auto simp: kernel_wf_def alive_def is_ready_def frame_simps)

lemma xTaskResumeFromISR_wf:
  assumes wf: "kernel_wf i s"
  shows "\<exists>r s'. xTaskResumeFromISR t s = Some (r, s') \<and> kernel_wf i s'"
proof (cases "prvTaskIsTaskSuspended t s")
  case True
  note sp = True [unfolded prvTaskIsTaskSuspended_def]
  show ?thesis
  proof (cases "uxSchedulerSuspended s = 0")
    case True
    obtain r s0 where y: "pend_yield_for t s = Some (r, s0)" "kernel_wf i s0" "same_tasks s s0"
      using wf_pend_yield [OF wf] by blast
    have ok: "sched_ok s0" using y(2) by (simp add: kernel_wf_def)
    have c: "container s0 = container s" using y(3) by (simp add: same_tasks_def)
    obtain s1 where r1: "list_remove (StateItem t) s0 = Some s1" "readied t s0 (prvAddTaskToReadyList t s1)"
      using make_ready [OF ok, of t] sp c by auto
    then show ?thesis
      using True y \<open>prvTaskIsTaskSuspended t s\<close> wf_readied [OF y(2) r1(2)]
      by (simp add: xTaskResumeFromISR_def)
  next
    case False
    then show ?thesis
      using \<open>prvTaskIsTaskSuspended t s\<close> sp wf_insert_event [OF wf, of t PendingReadyList]
      by (auto simp: xTaskResumeFromISR_def)
  qed
next
  case False
  then show ?thesis using wf by (auto simp: xTaskResumeFromISR_def)
qed

section \<open>Priorities\<close>

lemma list_remove_upd_tcb: "list_remove i (upd_tcb t f s) = map_option (upd_tcb t f) (list_remove i s)"
  by (simp add: list_remove_def upd_tcb_def split: option.split)

lemma list_remove_set_value: "list_remove i (set_value j v s) = map_option (set_value j v) (list_remove i s)"
  by (simp add: list_remove_def set_value_def split: option.split)

lemma torn_set_priority:
  "torn t s \<Longrightarrow> p < configMAX_PRIORITIES \<Longrightarrow> torn t (set_priority t p s)"
proof -
  assume tn: "torn t s" and p: "p < configMAX_PRIORITIES"
  have "task_ok (set_priority t p s) u" if "u \<noteq> t" for u
    using tn that by (simp add: torn_def task_ok_def set_priority_def upd_tcb_def)
  then show ?thesis
    using tn p by (simp add: torn_def set_priority_def upd_tcb_def lists_ok_def delayed_pair_def delayed_sorted_def)
qed

lemma core_ok_set_priority:
  assumes ok: "core_ok s" and p: "p < configMAX_PRIORITIES" and c: "\<not> is_ready s t"
  shows "core_ok (set_priority t p s)"
proof -
  have "task_ok (set_priority t p s) u" for u
    using core_okD(4) [OF ok, of u] c p by (auto simp: task_ok_def set_priority_def upd_tcb_def is_ready_def)
  then show ?thesis
    using ok by (simp add: core_ok_def set_priority_def upd_tcb_def lists_ok_def delayed_pair_def delayed_sorted_def)
qed

lemma delayed_no_events:
  assumes "core_ok s" shows "container s (EventItem t) \<notin> {Some DelayedTaskList1, Some DelayedTaskList2}"
  using core_okD(4) [OF assms, of t] by (auto simp: task_ok_def)

lemma event_value_ok:
  "core_ok s \<Longrightarrow> core_ok (set_value (EventItem t) v s)"
  "sched_ok s \<Longrightarrow> sched_ok (set_value (EventItem t) v s)"
proof -
  have tk: "task_ok (set_value (EventItem t) v s) u = task_ok s u" for s u
    by (simp add: task_ok_def set_value_def)
  show c: "core_ok (set_value (EventItem t) v s)" if "core_ok s" for s
    using that delayed_sorted_set_value [OF core_okD(3,1) [OF that] delayed_no_events [OF that], of t v]
    by (simp add: core_ok_def tk) (simp add: set_value_def lists_ok_def delayed_pair_def)
  show "sched_ok (set_value (EventItem t) v s)" if "sched_ok s"
    using that c [of s] by (simp add: sched_ok_def delays_ok_def overflow_ok_def set_value_frame)
qed

lemma torn_event_value: "torn t s \<Longrightarrow> torn t (set_value (EventItem u) v s)"
proof -
  assume tn: "torn t s"
  have "container s (EventItem u) \<notin> {Some DelayedTaskList1, Some DelayedTaskList2}"
    using tn by (cases "u = t") (auto simp: torn_def task_ok_def)
  moreover have "task_ok (set_value (EventItem u) v s) w = task_ok s w" for w
    by (simp add: task_ok_def set_value_def)
  ultimately show ?thesis
    using tn delayed_sorted_set_value [of s "EventItem u" v]
    by (simp add: torn_def) (simp add: set_value_def lists_ok_def delayed_pair_def)
qed

lemma set_priority_frame [frame_simps]:
  "container (set_priority t p s) = container s" "pxCurrentTCB (set_priority t p s) = pxCurrentTCB s"
  "klists (set_priority t p s) = klists s" "item_value (set_priority t p s) = item_value s"
  "pxDelayedTaskList (set_priority t p s) = pxDelayedTaskList s"
  "pxOverflowDelayedTaskList (set_priority t p s) = pxOverflowDelayedTaskList s"
  "xTickCount (set_priority t p s) = xTickCount s" "xNextTaskUnblockTime (set_priority t p s) = xNextTaskUnblockTime s"
  "uxSchedulerSuspended (set_priority t p s) = uxSchedulerSuspended s"
  "xPendedTicks (set_priority t p s) = xPendedTicks s" "xYieldPending (set_priority t p s) = xYieldPending s"
  "uxCurrentNumberOfTasks (set_priority t p s) = uxCurrentNumberOfTasks s"
  "xSchedulerRunning (set_priority t p s) = xSchedulerRunning s"
  by (simp_all add: set_priority_def frame_simps)

text \<open>
  The TCB and the event item's key are changed by \<open>g\<close>, and then the task is moved from the
  ready list of its old priority to that of its new one. It covers the four operations that
  change a priority.
\<close>

definition retune :: "tid \<Rightarrow> (TCB \<Rightarrow> TCB) \<Rightarrow> word32 option \<Rightarrow> kernel \<Rightarrow> kernel" where
  "retune t f v s = (case v of None \<Rightarrow> upd_tcb t f s | Some k \<Rightarrow> set_value (EventItem t) k (upd_tcb t f s))"

lemma retune_frame [frame_simps]:
  "container (retune t f v s) = container s" "pxCurrentTCB (retune t f v s) = pxCurrentTCB s"
  "item_value (retune t f v s) (StateItem u) = item_value s (StateItem u)"
  "tcbs (retune t f v s) = (tcbs s)(t := f (tcbs s t))"
  "pxDelayedTaskList (retune t f v s) = pxDelayedTaskList s"
  "pxOverflowDelayedTaskList (retune t f v s) = pxOverflowDelayedTaskList s"
  "xTickCount (retune t f v s) = xTickCount s" "xNextTaskUnblockTime (retune t f v s) = xNextTaskUnblockTime s"
  "uxSchedulerSuspended (retune t f v s) = uxSchedulerSuspended s"
  "xPendedTicks (retune t f v s) = xPendedTicks s" "xYieldPending (retune t f v s) = xYieldPending s"
  "uxCurrentNumberOfTasks (retune t f v s) = uxCurrentNumberOfTasks s"
  "xSchedulerRunning (retune t f v s) = xSchedulerRunning s"
  by (simp_all add: retune_def frame_simps split: option.split)

lemma list_remove_retune: "list_remove i (retune t f v s) = map_option (retune t f v) (list_remove i s)"
  by (cases v; cases "list_remove i s")
    (simp_all add: retune_def list_remove_upd_tcb list_remove_set_value)

lemma torn_retune:
  assumes "torn t s" "uxPriority (f (tcbs s t)) < configMAX_PRIORITIES"
  shows "torn t (retune t f v s)"
proof -
  have "torn t (upd_tcb t f s)"
  proof -
    have "task_ok (upd_tcb t f s) u" if "u \<noteq> t" for u
      using assms that by (simp add: torn_def task_ok_def upd_tcb_def)
    then show ?thesis
      using assms by (simp add: torn_def upd_tcb_def lists_ok_def delayed_pair_def delayed_sorted_def)
  qed
  then show ?thesis by (simp add: retune_def torn_event_value split: option.split)
qed

lemma sched_ok_retune:
  assumes ok: "sched_ok s" and p: "uxPriority (f (tcbs s t)) < configMAX_PRIORITIES"
    and r: "\<not> is_ready s t \<or> uxPriority (f (tcbs s t)) = uxPriority (tcbs s t)"
  shows "sched_ok (retune t f v s)"
proof -
  have "task_ok (upd_tcb t f s) u" for u
    using core_okD(4) [OF sched_okD(1) [OF ok], of u] p r by (auto simp: task_ok_def upd_tcb_def is_ready_def)
  then have "sched_ok (upd_tcb t f s)"
    using ok by (simp add: sched_ok_def delays_ok_def overflow_ok_def core_ok_def upd_tcb_def lists_ok_def
        delayed_pair_def delayed_sorted_def)
  then show ?thesis by (simp add: retune_def event_value_ok(2) split: option.split)
qed

lemma requeue_retune:
  assumes ok: "sched_ok s" and p: "uxPriority (f (tcbs s t)) < configMAX_PRIORITIES"
  shows "\<exists>s'. requeue_ready t (uxPriority (tcbs s t)) (retune t f v s) = Some s' \<and> sched_ok s' \<and>
    tcbs s' = (tcbs s)(t := f (tcbs s t)) \<and> pxCurrentTCB s' = pxCurrentTCB s \<and> keeps {} s s' \<and>
    uxSchedulerSuspended s' = uxSchedulerSuspended s \<and>
    container s' = (if is_ready s t then (container s)(StateItem t := Some (ReadyList (uxPriority (f (tcbs s t)))))
      else container s)"
proof (cases "is_ready s t")
  case True
  then have c: "container s (StateItem t) = Some (ReadyList (uxPriority (tcbs s t)))"
    using core_okD(4) [OF sched_okD(1) [OF ok], of t] by (auto simp: is_ready_def task_ok_def)
  have e: "container s (EventItem t) \<in> {None, Some PendingReadyList}"
    using core_okD(4) [OF sched_okD(1) [OF ok], of t] c
    by (cases "container s (EventItem t)") (auto simp: task_ok_def)
  obtain s1 where r: "list_remove (StateItem t) s = Some s1"
    using c list_remove_some [of s "StateItem t"] by auto
  note g = list_remove_frame [OF r] list_remove_container [OF r]
  let ?s = "retune t f v s1"
  have tn: "torn t ?s"
    by (rule torn_retune [OF torn_remove_state [OF sched_okD(1) [OF ok] r]]) (simp add: p g)
  have ok': "sched_ok (prvAddTaskToReadyList t ?s)"
    by (rule torn_ready_sched [OF ok tn]) (use e in \<open>auto simp: frame_simps g\<close>)
  have cn: "container (prvAddTaskToReadyList t ?s) =
      (container s)(StateItem t := Some (ReadyList (uxPriority (f (tcbs s t)))))"
    by (simp add: frame_simps g)
  have "keeps {} s (prvAddTaskToReadyList t ?s)"
    by (auto simp: keeps_def cn alive_def is_ready_def frame_simps g)
  then show ?thesis
    using c r ok' cn True by (simp add: requeue_ready_def list_remove_retune frame_simps g)
next
  case False
  have "sched_ok (retune t f v s)" using ok p False by (intro sched_ok_retune) simp_all
  moreover have "keeps {} s (retune t f v s)" by (simp add: keeps_def alive_def is_ready_def frame_simps)
  ultimately show ?thesis
    using False by (simp add: requeue_ready_def frame_simps is_ready_def)
qed

lemma upd_tcb_twice: "upd_tcb t g (upd_tcb t f s) = upd_tcb t (\<lambda>x. g (f x)) s"
  by (simp add: upd_tcb_def)

lemma reset_event_value_retune:
  "reset_event_value t p (upd_tcb t f s) =
   retune t f (if item_value s (EventItem t) AND taskEVENT_LIST_ITEM_VALUE_IN_USE = 0
               then Some (configMAX_PRIORITIES - p) else None) s"
  by (simp add: reset_event_value_def retune_def frame_simps)

definition new_priority :: "word32 \<Rightarrow> TCB \<Rightarrow> TCB" where
  "new_priority p x = (if uxBasePriority x = uxPriority x \<or> p > uxPriority x then x\<lparr>uxPriority := p\<rparr> else x)
     \<lparr>uxBasePriority := p\<rparr>"

lemma set_priority_new:
  "reset_event_value t p (upd_tcb t (uxBasePriority_update (\<lambda>_. p))
     (if uxBasePriority (tcbs s t) = uxPriority (tcbs s t) \<or> uxPriority (tcbs s t) < p
      then set_priority t p s else s)) =
   retune t (new_priority p) (if item_value s (EventItem t) AND taskEVENT_LIST_ITEM_VALUE_IN_USE = 0
      then Some (configMAX_PRIORITIES - p) else None) s"
proof -
  have "upd_tcb t (uxBasePriority_update (\<lambda>_. p))
     (if uxBasePriority (tcbs s t) = uxPriority (tcbs s t) \<or> uxPriority (tcbs s t) < p
      then set_priority t p s else s) = upd_tcb t (new_priority p) s"
    by (simp add: set_priority_def upd_tcb_def new_priority_def)
  then show ?thesis by (simp only: reset_event_value_retune)
qed

lemma vTaskPrioritySet_wf:
  assumes wf: "kernel_wf i s" and h: "tcb_of_handle h s = Some t" and a: "alive s t" and p: "p < configMAX_PRIORITIES"
  shows "\<exists>s'. vTaskPrioritySet h p s = Some s' \<and> kernel_wf i s' \<and> uxBasePriority (tcbs s' t) = p \<and>
    (uxBasePriority (tcbs s t) = uxPriority (tcbs s t) \<longrightarrow> uxPriority (tcbs s' t) = p) \<and>
    (is_ready s t \<longrightarrow> container s' (StateItem t) = Some (ReadyList (uxPriority (tcbs s' t))))"
proof -
  obtain c where c: "pxCurrentTCB s = Some c" using wf by (auto simp: kernel_wf_def)
  have ok: "sched_ok s" using wf by (simp add: kernel_wf_def)
  have tk: "task_ok s t" by (rule core_okD(4) [OF sched_okD(1) [OF ok]])
  show ?thesis
  proof (cases "uxBasePriority (tcbs s t) = p")
    case True
    then show ?thesis using wf h c p tk by (auto simp: vTaskPrioritySet_def is_ready_def task_ok_def)
  next
    case False
    let ?f = "new_priority p"
    let ?v = "if item_value s (EventItem t) AND taskEVENT_LIST_ITEM_VALUE_IN_USE = 0
      then Some (configMAX_PRIORITIES - p) else None"
    let ?y = "if p > uxBasePriority (tcbs s t) then t \<noteq> c \<and> p > uxPriority (tcbs s c) else t = c"
    have "uxPriority (tcbs s t) < configMAX_PRIORITIES" using tk a by (auto simp: task_ok_def alive_def)
    then have "uxPriority (?f (tcbs s t)) < configMAX_PRIORITIES" using p by (simp add: new_priority_def)
    from requeue_retune [OF ok, of ?f t ?v, OF this] obtain s1 where
      r: "requeue_ready t (uxPriority (tcbs s t)) (retune t ?f ?v s) = Some s1" "sched_ok s1"
      "tcbs s1 = (tcbs s)(t := ?f (tcbs s t))" "pxCurrentTCB s1 = pxCurrentTCB s" "keeps {} s s1"
      "container s1 = (if is_ready s t then (container s)(StateItem t := Some (ReadyList (uxPriority (?f (tcbs s t)))))
        else container s)"
      by blast
    have wf1: "kernel_wf i s1" using wf r(2,4,5) by (auto simp: kernel_wf_def keeps_def)
    have post: "uxBasePriority (tcbs s1 t) = p"
      "uxBasePriority (tcbs s t) = uxPriority (tcbs s t) \<longrightarrow> uxPriority (tcbs s1 t) = p"
      "is_ready s t \<longrightarrow> container s1 (StateItem t) = Some (ReadyList (uxPriority (tcbs s1 t)))"
      by (simp_all add: r(3,6) new_priority_def)
    have np: "\<not> configMAX_PRIORITIES \<le> p" using p by simp
    have unf: "vTaskPrioritySet h p s = (if ?y then vTaskSwitchContext s1 else Some s1)"
      using False np h c r(1)
      by (simp add: vTaskPrioritySet_def Let_def set_priority_new split del: if_split)
    obtain s2 where s2: "vTaskSwitchContext s1 = Some s2" "kernel_wf i s2" "same_tasks s1 s2"
      using wf_switch [OF wf1] by blast
    then show ?thesis using unf wf1 post by (auto simp: same_tasks_def)
  qed
qed

section \<open>Deleting, aborting, and waiting on events\<close>

lemma vTaskDelete_wf:
  assumes wf: "kernel_wf i s" and h: "tcb_of_handle h s = Some t" and t: "alive s t" "t \<noteq> i"
    and sus: "uxSchedulerSuspended s = 0" and n: "uxCurrentNumberOfTasks s \<noteq> 1"
  shows "\<exists>s'. vTaskDelete h s = Some s' \<and> kernel_wf i s' \<and> pxCurrentTCB s' \<noteq> Some t \<and>
    container s' (StateItem t) = (if pxCurrentTCB s = Some t then Some TasksWaitingTermination else None) \<and>
    container s' (EventItem t) = None"
proof -
  have ok: "sched_ok s" "xSchedulerRunning s" using wf by (simp_all add: kernel_wf_def)
  have "container s (StateItem t) \<noteq> None" using t(1) by (simp add: alive_def)
  from take_out [OF sched_okD(1) [OF ok(1)] this] obtain s1 s2 where
    s2: "list_remove (StateItem t) s = Some s1" "remove_event_item t s1 = Some s2" "taken_out t s s2" by blast
  note tk = s2(3) [unfolded taken_out_def]
  show ?thesis
  proof (cases "pxCurrentTCB s = Some t")
    case True
    let ?s = "insert_end TasksWaitingTermination (StateItem t) (s2\<lparr>uxTaskNumber := uxTaskNumber s2 + 1\<rparr>)"
    let ?s' = "?s\<lparr>uxDeletedTasksWaitingCleanUp := uxDeletedTasksWaitingCleanUp ?s + 1\<rparr>"
    have "taken_out t s (s2\<lparr>uxTaskNumber := uxTaskNumber s2 + 1\<rparr>)" using s2(3) by (simp add: taken_out_def)
    then have ok': "sched_ok ?s'" using taken_out_end [OF ok(1)] by simp
    have cn: "container ?s' = (container s)(StateItem t := Some TasksWaitingTermination, EventItem t := None)"
      using tk by (auto simp: frame_simps fun_eq_iff)
    have "is_ready ?s' i" using wf t(2) by (simp add: cn is_ready_def kernel_wf_def)
    then have rd: "some_ready ?s'" by (rule some_ready_is_ready)
    have z: "uxSchedulerSuspended ?s' = 0" using tk sus by (simp add: frame_simps)
    obtain s' where s': "vTaskSwitchContext ?s' = Some s'" "sched_ok s'" "same_tasks ?s' s'" "runs_highest s'"
      using switch_same_tasks [OF ok' rd] z by blast
    have c': "container s' = container ?s'" using s'(3) by (simp add: same_tasks_def)
    obtain c where c: "pxCurrentTCB s' = Some c" "is_ready s' c" "alive s' c"
      using s'(4) by (auto simp: runs_highest_def is_ready_def alive_def)
    then have "c \<noteq> t" by (auto simp: c' cn is_ready_def)
    moreover have "kernel_wf i s'"
      using s' c wf tk \<open>is_ready ?s' i\<close>
      by (auto simp: kernel_wf_def same_tasks_def is_ready_def frame_simps c')
    ultimately show ?thesis
      using True h s2(1,2) s'(1) z ok(2) tk c(1) by (simp add: vTaskDelete_def Let_def c' cn)
  next
    case False
    let ?s = "s2\<lparr>uxTaskNumber := uxTaskNumber s2 + 1, uxCurrentNumberOfTasks := uxCurrentNumberOfTasks s2 - 1\<rparr>"
    let ?r = "prvResetNextTaskUnblockTime ?s"
    let ?s' = "?r\<lparr>freed := t # freed ?r\<rparr>"
    have "core_ok ?s" using tk by (auto simp: torn_def core_ok_def task_ok_def lists_ok_def delayed_pair_def delayed_sorted_def)
    have "sched_ok ?s"
    proof (rule sched_ok_shrink [OF ok(1) \<open>core_ok ?s\<close>])
      show "container ?s (StateItem u) = container s (StateItem u) \<and> item_value ?s (StateItem u) = item_value s (StateItem u)"
        if "sleeping ?s u" for u
        using that tk by (auto simp: sleeping_def split: if_splits)
    qed (use tk in simp_all)
    then have ok': "sched_ok ?s'" by (simp add: sched_ok_reset)
    have cn: "container ?s' = (container s)(StateItem t := None, EventItem t := None)"
      using tk by (simp add: frame_simps)
    have "kernel_wf i ?s'"
      using wf ok' False t(2) n tk by (auto simp: kernel_wf_def alive_def is_ready_def cn frame_simps)
    then show ?thesis
      using False h s2(1,2) ok(2) tk by (simp add: vTaskDelete_def Let_def cn frame_simps)
  qed
qed

lemma wf_park:
  assumes wf: "kernel_wf i s" and c: "pxCurrentTCB s = Some t" "t \<noteq> i" and n: "n \<noteq> 0"
  shows "\<exists>s'. prvAddCurrentTaskToDelayedList n indef s = Some s' \<and> kernel_wf i s' \<and> parked t n indef s s'"
proof -
  have ok: "sched_ok s" and l: "container s (StateItem t) \<noteq> None" using wf c by (auto simp: kernel_wf_def alive_def)
  obtain s' where s': "prvAddCurrentTaskToDelayedList n indef s = Some s'" "sched_ok s'" "parked t n indef s s'"
    using prvAddCurrentTaskToDelayedList_ok [OF ok c(1) l n] by blast
  have "keeps {t} s s'"
    by (rule keeps_containers) (use s'(3) in \<open>auto simp: parked_def alive_def sleeping_def split: if_splits\<close>)
  then have "kernel_wf i s'" by (rule wf_keeps [OF wf]) (use s' c in \<open>auto simp: parked_def\<close>)
  then show ?thesis using s' by blast
qed

lemma wf_resume_yield:
  assumes wf: "kernel_wf i s" and sus: "uxSchedulerSuspended s \<noteq> 0"
  shows "\<exists>s'. do { (y, s) \<leftarrow> xTaskResumeAll s; if y then Some s else vTaskSwitchContext s } = Some s' \<and> kernel_wf i s'"
proof -
  obtain y s1 where r: "xTaskResumeAll s = Some (y, s1)" "kernel_wf i s1" using wf_resume_all [OF wf sus] by blast
  then show ?thesis using wf_switch [OF r(2)] by auto
qed

lemma wf_suspend_all: "kernel_wf i s \<Longrightarrow> kernel_wf i (vTaskSuspendAll s)"
  by (simp add: kernel_wf_def vTaskSuspendAll_def alive_def is_ready_def)

lemma vTaskDelay_wf:
  assumes wf: "kernel_wf i s" and sus: "uxSchedulerSuspended s = 0" and c: "pxCurrentTCB s \<noteq> Some i"
  shows "\<exists>s'. vTaskDelay n s = Some s' \<and> kernel_wf i s'"
proof (cases "n = 0")
  case True
  then show ?thesis using wf_switch [OF wf] by (auto simp: vTaskDelay_def)
next
  case False
  let ?s = "vTaskSuspendAll s"
  obtain t where t: "pxCurrentTCB s = Some t" "t \<noteq> i" using wf c by (auto simp: kernel_wf_def)
  have "pxCurrentTCB ?s = Some t" and one: "uxSchedulerSuspended ?s = 1"
    using t sus by (simp_all add: vTaskSuspendAll_def)
  from wf_park [OF wf_suspend_all [OF wf] this(1) t(2) False] obtain s1 where
    s1: "prvAddCurrentTaskToDelayedList n False ?s = Some s1" "kernel_wf i s1" "parked t n False ?s s1" by blast
  have "uxSchedulerSuspended s1 \<noteq> 0" using s1(3) one by (simp add: parked_def)
  from wf_resume_yield [OF s1(2) this] show ?thesis
    using False s1(1) one by (simp add: vTaskDelay_def Let_def word_gt_0)
qed

lemma should_delay_nonzero: "should_delay now previous wake \<Longrightarrow> wake - now \<noteq> 0"
  by (auto simp: should_delay_def split: if_splits)

lemma xTaskDelayUntil_wf:
  assumes wf: "kernel_wf i s" and sus: "uxSchedulerSuspended s = 0" and c: "pxCurrentTCB s \<noteq> Some i"
    and inc: "inc \<noteq> 0"
  shows "\<exists>r w s'. xTaskDelayUntil previous inc s = Some (r, w, s') \<and> kernel_wf i s'"
proof -
  let ?s = "vTaskSuspendAll s"
  obtain t where t: "pxCurrentTCB s = Some t" "t \<noteq> i" using wf c by (auto simp: kernel_wf_def)
  have cs: "pxCurrentTCB ?s = Some t" and one: "uxSchedulerSuspended ?s = 1"
    using t sus by (simp_all add: vTaskSuspendAll_def)
  let ?w = "previous + inc" let ?d = "should_delay (xTickCount ?s) previous ?w"
  obtain s1 where s1: "(if ?d then prvAddCurrentTaskToDelayedList (?w - xTickCount ?s) False ?s else Some ?s) = Some s1"
    "kernel_wf i s1" "uxSchedulerSuspended s1 \<noteq> 0"
  proof (cases ?d)
    case True
    from wf_park [OF wf_suspend_all [OF wf] cs t(2) should_delay_nonzero [OF True]] obtain s1 where
      "prvAddCurrentTaskToDelayedList (?w - xTickCount ?s) False ?s = Some s1" "kernel_wf i s1"
      "parked t (?w - xTickCount ?s) False ?s s1" by blast
    then show ?thesis using that [of s1] True one by (simp add: parked_def)
  next
    case False
    then show ?thesis using that [of ?s] wf_suspend_all [OF wf] one by simp
  qed
  from wf_resume_yield [OF s1(2,3)] obtain s2 where
    "do { (y, s) \<leftarrow> xTaskResumeAll s1; if y then Some s else vTaskSwitchContext s } = Some s2" "kernel_wf i s2" by blast
  then show ?thesis
    using inc s1(1) one by (auto simp: xTaskDelayUntil_def Let_def bind_eq_Some_conv split del: if_split)
qed

lemma sched_ok_remove_event:
  assumes ok: "sched_ok s" and r: "list_remove (EventItem t) s = Some s'"
  shows "sched_ok s'"
  using core_ok_remove_event [OF sched_okD(1) [OF ok] r] ok
  by (simp add: sched_ok_def delays_ok_def overflow_ok_def list_remove_frame [OF r] list_remove_container [OF r])

lemma wf_remove_event:
  assumes wf: "kernel_wf i s" and r: "list_remove (EventItem t) s = Some s'"
  shows "kernel_wf i s'"
  using sched_ok_remove_event [OF _ r] wf
  by (simp add: kernel_wf_def alive_def is_ready_def list_remove_frame [OF r] list_remove_container [OF r])

text \<open>
  Handing a woken task to the scheduler: to its ready list, or to the pending ready list while
  the scheduler is suspended.
\<close>

lemma wf_wake_or_pend:
  assumes wf: "kernel_wf i s" and e: "container s (EventItem t) = None"
    and b: "container s (StateItem t) \<in> Some ` blocked_lists \<or> is_ready s t"
  shows "\<exists>s'. (if uxSchedulerSuspended s = 0
      then map_option (prvAddTaskToReadyList t) (list_remove (StateItem t) s)
      else Some (insert_end PendingReadyList (EventItem t) s)) = Some s' \<and> kernel_wf i s' \<and>
    (if uxSchedulerSuspended s = 0 then is_ready s' t else container s' (EventItem t) = Some PendingReadyList)"
proof (cases "uxSchedulerSuspended s = 0")
  case True
  have "sched_ok s" "container s (StateItem t) \<noteq> None" using wf b by (auto simp: kernel_wf_def is_ready_def)
  then obtain s1 where r: "list_remove (StateItem t) s = Some s1" "readied t s (prvAddTaskToReadyList t s1)"
    using make_ready e by blast
  then show ?thesis
    using True wf_readied [OF wf r(2)] by (auto simp: is_ready_def frame_simps)
next
  case False
  have "kernel_wf i (insert_end PendingReadyList (EventItem t) s)"
    by (rule wf_insert_event [OF wf e]) (use b in \<open>auto simp: is_ready_def\<close>)
  then show ?thesis using False by (simp add: frame_simps)
qed

lemma xTaskRemoveFromEventList_wf:
  assumes wf: "kernel_wf i s" and ne: "\<not> is_empty (EventList e) s"
  shows "\<exists>r s' t. xTaskRemoveFromEventList e s = Some (r, s') \<and> kernel_wf i s' \<and>
    hd (kitems (klists s (EventList e))) = EventItem t \<and>
    (if uxSchedulerSuspended s = 0 then is_ready s' t else container s' (EventItem t) = Some PendingReadyList)"
proof -
  have core: "core_ok s" using wf by (simp add: kernel_wf_def sched_ok_def)
  have "hd (kitems (klists s (EventList e))) \<in> set (kitems (klists s (EventList e)))"
    using ne by (simp add: is_empty_def)
  from core_ok_event_items [OF core _ this] obtain t where
    t: "hd (kitems (klists s (EventList e))) = EventItem t" "container s (EventItem t) = Some (EventList e)" by auto
  obtain s1 where r: "list_remove (EventItem t) s = Some s1"
    using t(2) list_remove_some [of s "EventItem t"] by auto
  note f = list_remove_frame [OF r] list_remove_container [OF r]
  have wf1: "kernel_wf i s1" by (rule wf_remove_event [OF wf r])
  have b: "container s1 (StateItem t) \<in> Some ` blocked_lists \<or> is_ready s1 t" "container s1 (EventItem t) = None"
    using core_okD(4) [OF core, of t] t(2) by (auto simp: task_ok_def f is_ready_def)
  obtain s2 where s2: "(if uxSchedulerSuspended s1 = 0
      then map_option (prvAddTaskToReadyList t) (list_remove (StateItem t) s1)
      else Some (insert_end PendingReadyList (EventItem t) s1)) = Some s2" "kernel_wf i s2"
    "if uxSchedulerSuspended s1 = 0 then is_ready s2 t else container s2 (EventItem t) = Some PendingReadyList"
    using wf_wake_or_pend [OF wf1 b(2,1)] by blast
  obtain y s3 where s3: "pend_yield_for t s2 = Some (y, s3)" "kernel_wf i s3" "same_tasks s2 s3"
    using wf_pend_yield [OF s2(2)] by blast
  have "if uxSchedulerSuspended s = 0 then is_ready s3 t else container s3 (EventItem t) = Some PendingReadyList"
    using s2(3) s3(3) f by (auto simp: same_tasks_def is_ready_def split: if_splits)
  moreover have "xTaskRemoveFromEventList e s = Some (y, s3)"
    using ne t(1) r s2(1) s3(1) f by (auto simp: xTaskRemoveFromEventList_def head_entry_def split: if_splits)
  ultimately show ?thesis using s3(2) t(1) by blast
qed

lemma torn_insert_event:
  assumes tn: "torn t s" and e: "container s (EventItem t) = None" and l: "\<not> state_list l"
  shows "torn t (insert_value l (EventItem t) s)" "torn t (insert_end l (EventItem t) s)"
proof -
  have "task_ok (insert_value l (EventItem t) s) u" "task_ok (insert_end l (EventItem t) s) u" if "u \<noteq> t" for u
    using tn that by (simp_all add: torn_def task_ok_def frame_simps)
  moreover have "l \<notin> {DelayedTaskList1, DelayedTaskList2}" using l by auto
  ultimately show "torn t (insert_value l (EventItem t) s)" "torn t (insert_end l (EventItem t) s)"
    using tn e l lists_ok_insert_end [of s "EventItem t" l] lists_ok_insert_value [of s "EventItem t" l]
      delayed_sorted_insert_end [of s l] delayed_sorted_insert_value [of s l]
    by (simp_all add: torn_def frame_simps delayed_pair_def)
qed

lemma list_remove_insert_event:
  assumes "container s (StateItem t) = Some m" "m \<noteq> l"
  shows "list_remove (StateItem t) (insert_value l (EventItem t) s) =
      map_option (insert_value l (EventItem t)) (list_remove (StateItem t) s)"
    "list_remove (StateItem t) (insert_end l (EventItem t) s) =
      map_option (insert_end l (EventItem t)) (list_remove (StateItem t) s)"
  using assms by (simp_all add: list_remove_def insert_value_def insert_end_def fun_upd_twist)

text \<open>The running task goes to sleep with its event item in an event list.\<close>

lemma park_on_event:
  assumes wf: "kernel_wf i s" and c: "pxCurrentTCB s = Some t" "t \<noteq> i" and n: "n \<noteq> 0"
    and e: "container s (EventItem t) = None" and l: "\<not> state_list l"
    and s0: "s0 \<in> {insert_value l (EventItem t) s, insert_end l (EventItem t) s}"
  shows "\<exists>s'. prvAddCurrentTaskToDelayedList n indef s0 = Some s' \<and> kernel_wf i s' \<and>
    parked t n indef s0 s' \<and> container s' (EventItem t) = Some l"
proof -
  have ok: "sched_ok s" using wf by (simp add: kernel_wf_def)
  obtain m where m: "container s (StateItem t) = Some m" "state_list m"
    using wf c core_okD(4) [OF sched_okD(1) [OF ok], of t] by (auto simp: kernel_wf_def alive_def task_ok_def)
  let ?f = "ucDelayAborted_update (\<lambda>_. False)"
  obtain s1 where r: "list_remove (StateItem t) s = Some s1" using m(1) list_remove_some [of s "StateItem t"] by auto
  note f = list_remove_frame [OF r] list_remove_container [OF r]
  have "m \<noteq> l" using m l by auto
  obtain s2 where s2: "list_remove (StateItem t) s0 = Some s2" "torn t s2"
    using s0 list_remove_insert_event [OF m(1) \<open>m \<noteq> l\<close>] r e
      torn_insert_event [OF torn_remove_state [OF sched_okD(1) [OF ok] r] _ l] by (auto simp: f)
  have fr: "pxCurrentTCB s0 = Some t" "delayed_pair s0" "delays_ok s0" "overflow_ok s0"
    using s0 c(1) core_okD(2) [OF sched_okD(1) [OF ok]] sched_okD(2,3) [OF ok]
    by (auto simp: frame_simps delayed_pair_def delays_ok_def overflow_ok_def)
  have "list_remove (StateItem t) (upd_tcb t ?f s0) = Some (upd_tcb t ?f s2)" "torn t (upd_tcb t ?f s2)"
    using s2 by (simp_all add: list_remove_upd_tcb core_ok_upd_tcb)
  from park_torn [OF fr(1) n this fr(2-4), of indef] obtain s' where
    s': "prvAddCurrentTaskToDelayedList n indef s0 = Some s'" "sched_ok s'" "parked t n indef s0 s'" by blast
  have ev: "container s' (EventItem t) = Some l" using s'(3) s0 by (auto simp: parked_def frame_simps)
  have c0: "container s0 (StateItem u) = container s (StateItem u)" for u using s0 by (auto simp: frame_simps)
  have fr0: "uxCurrentNumberOfTasks s0 = uxCurrentNumberOfTasks s" "xSchedulerRunning s0 = xSchedulerRunning s"
    using s0 by (auto simp: frame_simps)
  have "keeps {t} s s'"
    by (rule keeps_containers)
      (use s'(3) c0 fr0 in \<open>auto simp: parked_def alive_def sleeping_def split: if_splits\<close>)
  then have "kernel_wf i s'" by (rule wf_keeps [OF wf]) (use s' c in \<open>auto simp: parked_def\<close>)
  then show ?thesis using s' ev by blast
qed

lemma vTaskPlaceOnEventList_wf:
  assumes "kernel_wf i s" "pxCurrentTCB s = Some t" "t \<noteq> i" "n \<noteq> 0" "container s (EventItem t) = None"
  shows "\<exists>s'. vTaskPlaceOnEventList e n s = Some s' \<and> kernel_wf i s' \<and>
    container s' (EventItem t) = Some (EventList e) \<and> uxSchedulerSuspended s' = uxSchedulerSuspended s \<and>
    parked t n True (insert_value (EventList e) (EventItem t) s) s'"
  using park_on_event [OF assms, of "EventList e" "insert_value (EventList e) (EventItem t) s" True] assms(2)
  by (auto simp: vTaskPlaceOnEventList_def parked_def frame_simps)

lemma xTaskAbortDelay_wf:
  assumes wf: "kernel_wf i s" and sus: "uxSchedulerSuspended s \<noteq> portMAX_DELAY"
  shows "\<exists>r s'. xTaskAbortDelay t s = Some (r, s') \<and> kernel_wf i s' \<and>
    (r \<longleftrightarrow> eTaskGetState t s = eBlocked) \<and> (r \<longrightarrow> is_ready s' t)"
proof -
  let ?s = "vTaskSuspendAll s"
  have wfs: "kernel_wf i ?s" by (rule wf_suspend_all [OF wf])
  have sus1: "uxSchedulerSuspended ?s \<noteq> 0" using sus word_max_succ by (auto simp: vTaskSuspendAll_def)
  have st: "eTaskGetState t ?s = eTaskGetState t s" by (simp add: eTaskGetState_def vTaskSuspendAll_def)
  show ?thesis
  proof (cases "eTaskGetState t s = eBlocked")
    case False
    obtain y s' where "xTaskResumeAll ?s = Some (y, s')" "kernel_wf i s'" using wf_resume_all [OF wfs sus1] by blast
    then show ?thesis using False st by (auto simp: xTaskAbortDelay_def Let_def)
  next
    case True
    have ok: "sched_ok ?s" using wfs by (simp add: kernel_wf_def)
    have "container ?s (StateItem t) \<noteq> None"
      using True by (auto simp: eTaskGetState_def vTaskSuspendAll_def split: if_splits)
    then obtain s1 where r: "list_remove (StateItem t) ?s = Some s1" using list_remove_some by blast
    note f = list_remove_frame [OF r] list_remove_container [OF r]
    have tn: "torn t s1" by (rule torn_remove_state [OF sched_okD(1) [OF ok] r])
    define g where "g = upd_tcb t (ucDelayAborted_update (\<lambda>_. True))"
    obtain s2 where s2: "(if container s1 (EventItem t) \<noteq> None then map_option g (list_remove (EventItem t) s1)
        else Some s1) = Some s2" "torn t s2" "container s2 = (container s1)(EventItem t := None)"
      "item_value s2 = item_value s1" "pxCurrentTCB s2 = pxCurrentTCB s1"
      "pxDelayedTaskList s2 = pxDelayedTaskList s1" "pxOverflowDelayedTaskList s2 = pxOverflowDelayedTaskList s1"
      "xTickCount s2 = xTickCount s1" "xNextTaskUnblockTime s2 = xNextTaskUnblockTime s1"
      "uxSchedulerSuspended s2 = uxSchedulerSuspended s1" "xSchedulerRunning s2 = xSchedulerRunning s1"
      "uxCurrentNumberOfTasks s2 = uxCurrentNumberOfTasks s1"
    proof (cases "container s1 (EventItem t)")
      case None
      then show ?thesis using that [of s1] tn by (simp add: fun_upd_idem)
    next
      case (Some l)
      then obtain s' where e: "list_remove (EventItem t) s1 = Some s'"
        using list_remove_some [of s1 "EventItem t"] by auto
      show ?thesis
        using that [of "g s'"] Some e torn_remove_event [OF tn e]
        by (simp add: g_def core_ok_upd_tcb frame_simps list_remove_frame [OF e] list_remove_container [OF e])
    qed
    let ?r = "prvAddTaskToReadyList t s2"
    have "sched_ok ?r" by (rule torn_ready_sched [OF ok s2(2)]) (simp_all add: s2 f)
    moreover have k: "keeps {} ?s ?r" by (auto simp: keeps_def alive_def is_ready_def frame_simps s2 f)
    ultimately have wfr: "kernel_wf i ?r"
      using wfs by (auto simp: kernel_wf_def keeps_def frame_simps s2 f)
    obtain y s3 where s3: "pend_yield_for t ?r = Some (y, s3)" "kernel_wf i s3" "same_tasks ?r s3"
      using wf_pend_yield [OF wfr] by blast
    have "uxSchedulerSuspended s3 \<noteq> 0" using s3(3) sus1 by (simp add: same_tasks_def frame_simps s2 f)
    from wf_resume_all [OF s3(2) this] obtain z s4 where
      s4: "xTaskResumeAll s3 = Some (z, s4)" "kernel_wf i s4" "keeps {} s3 s4" by blast
    have "is_ready s3 t" using s3(3) by (simp add: same_tasks_def is_ready_def frame_simps)
    then have "is_ready s4 t" using s4(3) by (simp add: keeps_def)
    moreover have "xTaskAbortDelay t s = Some (True, s4)"
      using True st r s2(1) [unfolded g_def] s3(1) s4(1)
      by (simp add: xTaskAbortDelay_def Let_def split del: if_split)
    ultimately show ?thesis using True s4(2) by blast
  qed
qed

section \<open>Notifications\<close>

lemma wf_upd_tcb: "(\<And>x. uxPriority (f x) = uxPriority x) \<Longrightarrow> kernel_wf i (upd_tcb t f s) = kernel_wf i s"
  by (simp add: kernel_wf_def core_ok_upd_tcb alive_def is_ready_def frame_simps)

lemma xTaskGenericNotify_wf:
  assumes wf: "kernel_wf i s" and t: "alive s t"
    and w: "ucNotifyState (tcbs s t) = WaitingNotification \<Longrightarrow> container s (EventItem t) = None"
  shows "\<exists>r v s'. xTaskGenericNotify t x a s = Some (r, v, s') \<and> kernel_wf i s' \<and>
    ucNotifyState (tcbs s' t) = NotificationReceived \<and>
    ulNotifiedValue (tcbs s' t) = fst (notify_value a (ucNotifyState (tcbs s t)) (ulNotifiedValue (tcbs s t)) x) \<and>
    (ucNotifyState (tcbs s t) = WaitingNotification \<longrightarrow> is_ready s' t)"
proof -
  define n where "n = notify_value a (ucNotifyState (tcbs s t)) (ulNotifiedValue (tcbs s t)) x"
  define s1 where "s1 = note_received t (fst n) s"
  have wf1: "kernel_wf i s1" using wf by (simp add: s1_def note_received_def wf_upd_tcb)
  have f1: "container s1 = container s"
    "tcbs s1 = (tcbs s)(t := (tcbs s t)\<lparr>ulNotifiedValue := fst n, ucNotifyState := NotificationReceived\<rparr>)"
    by (simp_all add: s1_def note_received_def frame_simps)
  show ?thesis
  proof (cases "ucNotifyState (tcbs s t) = WaitingNotification")
    case False
    then have "xTaskGenericNotify t x a s = Some (snd n, ulNotifiedValue (tcbs s t), s1)"
      by (simp add: xTaskGenericNotify_def Let_def split_beta s1_def n_def)
    then show ?thesis using wf1 f1 False by (simp add: n_def)
  next
    case True
    have "sched_ok s1" "container s1 (StateItem t) \<noteq> None" "container s1 (EventItem t) = None"
      using wf1 t w [OF True] by (auto simp: kernel_wf_def alive_def f1)
    then obtain s2 where r: "list_remove (StateItem t) s1 = Some s2" "readied t s1 (prvAddTaskToReadyList t s2)"
      using make_ready by blast
    have fr: "tcbs (prvAddTaskToReadyList t s2) = tcbs s1" "container (prvAddTaskToReadyList t s2) (EventItem t) = None"
      using list_remove_frame(2) [OF r(1)] list_remove_container [OF r(1)] \<open>container s1 (EventItem t) = None\<close>
      by (simp_all add: frame_simps)
    obtain s' where s': "taskYIELD_ANY_CORE_IF_USING_PREEMPTION t (prvAddTaskToReadyList t s2) = Some s'"
      "kernel_wf i s'" "same_tasks (prvAddTaskToReadyList t s2) s'"
      using wf_yield_any [OF wf_readied [OF wf1 r(2)]] by blast
    have "is_ready s' t" "tcbs s' = tcbs s1"
      using s'(3) fr by (auto simp: same_tasks_def is_ready_def frame_simps)
    moreover have "xTaskGenericNotify t x a s = Some (snd n, ulNotifiedValue (tcbs s t), s')"
      using True r(1) fr(2) s'(1)
      by (simp add: xTaskGenericNotify_def Let_def split_beta n_def [unfolded True, symmetric] s1_def [symmetric])
    ultimately show ?thesis using s'(2) f1 by (simp add: n_def)
  qed
qed

lemma notify_wake_from_isr_wf:
  assumes wf: "kernel_wf i s" and e: "container s (EventItem t) = None"
    and b: "container s (StateItem t) \<in> Some ` blocked_lists \<or> is_ready s t"
  shows "\<exists>r s'. notify_wake_from_isr t s = Some (r, s') \<and> kernel_wf i s' \<and> tcbs s' = tcbs s \<and>
    (if uxSchedulerSuspended s = 0 then is_ready s' t else container s' (EventItem t) = Some PendingReadyList)"
proof -
  obtain s1 where s1: "(if uxSchedulerSuspended s = 0
      then map_option (prvAddTaskToReadyList t) (list_remove (StateItem t) s)
      else Some (insert_end PendingReadyList (EventItem t) s)) = Some s1" "kernel_wf i s1"
    "if uxSchedulerSuspended s = 0 then is_ready s1 t else container s1 (EventItem t) = Some PendingReadyList"
    using wf_wake_or_pend [OF wf e b] by blast
  have "tcbs s1 = tcbs s"
    using s1(1) by (auto simp: frame_simps list_remove_frame(2) split: if_splits)
  moreover obtain y s2 where s2: "pend_yield_for t s1 = Some (y, s2)" "kernel_wf i s2" "same_tasks s1 s2"
    using wf_pend_yield [OF s1(2)] by blast
  moreover have "if uxSchedulerSuspended s = 0 then is_ready s2 t else container s2 (EventItem t) = Some PendingReadyList"
    using s1(3) s2(3) by (auto simp: same_tasks_def is_ready_def split: if_splits)
  ultimately show ?thesis
    using s1(1) e by (auto simp: notify_wake_from_isr_def same_tasks_def split: if_splits)
qed

lemma xTaskGenericNotifyFromISR_wf:
  assumes wf: "kernel_wf i s" and t: "alive s t"
    and w: "ucNotifyState (tcbs s t) = WaitingNotification \<Longrightarrow> container s (EventItem t) = None"
  shows "\<exists>r y v s'. xTaskGenericNotifyFromISR t x a s = Some (r, y, v, s') \<and> kernel_wf i s' \<and>
    ucNotifyState (tcbs s' t) = NotificationReceived"
proof -
  define n where "n = notify_value a (ucNotifyState (tcbs s t)) (ulNotifiedValue (tcbs s t)) x"
  define s1 where "s1 = note_received t (fst n) s"
  have wf1: "kernel_wf i s1" using wf by (simp add: s1_def note_received_def wf_upd_tcb)
  have f1: "container s1 = container s" "ucNotifyState (tcbs s1 t) = NotificationReceived"
    by (simp_all add: s1_def note_received_def frame_simps)
  show ?thesis
  proof (cases "ucNotifyState (tcbs s t) = WaitingNotification")
    case False
    then have "xTaskGenericNotifyFromISR t x a s = Some (snd n, False, ulNotifiedValue (tcbs s t), s1)"
      by (simp add: xTaskGenericNotifyFromISR_def Let_def split_beta s1_def n_def)
    then show ?thesis using wf1 f1 by blast
  next
    case True
    have "state_list (the (container s1 (StateItem t)))"
      using wf1 t core_okD(4) [of s1 t] by (auto simp: kernel_wf_def sched_ok_def alive_def f1 task_ok_def)
    then have b: "container s1 (StateItem t) \<in> Some ` blocked_lists \<or> is_ready s1 t"
      using t by (cases "the (container s1 (StateItem t))") (auto simp: alive_def f1 is_ready_def)
    obtain y s2 where "notify_wake_from_isr t s1 = Some (y, s2)" "kernel_wf i s2" "tcbs s2 = tcbs s1"
      using notify_wake_from_isr_wf [OF wf1 _ b] w [OF True] f1 by auto
    then show ?thesis
      using True f1
      by (simp add: xTaskGenericNotifyFromISR_def Let_def split_beta n_def [unfolded True, symmetric] s1_def [symmetric])
  qed
qed

lemma notify_block_wf:
  assumes wf: "kernel_wf i s" and sus: "uxSchedulerSuspended s = 0" and c: "pxCurrentTCB s = Some t" "t \<noteq> i"
    and n: "n \<noteq> 0" and f: "\<And>x. uxPriority (f x) = uxPriority x"
  shows "\<exists>s'. notify_block f n s = Some s' \<and> kernel_wf i s'"
proof -
  let ?s = "upd_tcb t (\<lambda>x. (f x)\<lparr>ucNotifyState := WaitingNotification\<rparr>) (vTaskSuspendAll s)"
  have wfs: "kernel_wf i ?s" using wf_suspend_all [OF wf] by (simp add: wf_upd_tcb f)
  have cs: "pxCurrentTCB ?s = Some t" "uxSchedulerSuspended ?s = 1"
    using c sus by (simp_all add: vTaskSuspendAll_def frame_simps)
  from wf_park [OF wfs cs(1) c(2) n, of True] obtain s1 where
    s1: "prvAddCurrentTaskToDelayedList n True ?s = Some s1" "kernel_wf i s1" "parked t n True ?s s1" by blast
  have "uxSchedulerSuspended s1 \<noteq> 0" using s1(3) cs(2) by (simp add: parked_def)
  from wf_resume_yield [OF s1(2) this] show ?thesis
    using c(1) s1(1) by (simp add: notify_block_def Let_def)
qed

end
