(* ===== verification/Kernel_Steady.thy ===== *)
theory Kernel_Steady
  imports Task_Control_Inv
begin

text \<open>
  What the kernel operations that queues use leave alone. \<open>steady\<close> follows from the code of an
  operation without its invariant: tasks do not come or go, ready tasks stay ready, an event
  item that is in no list stays out, and, unless the scheduler is suspended, none is put on
  the pending list. \<open>good\<close> adds to well-formedness what holds between the steps of a system
  whose tasks wait for queues only.
\<close>

definition event_key :: "word32 \<Rightarrow> bool" where
  "event_key v \<longleftrightarrow> 0 < v \<and> v \<le> configMAX_PRIORITIES"

lemma event_key_priority: "p < configMAX_PRIORITIES \<Longrightarrow> event_key (configMAX_PRIORITIES - p)"
  using unat_minus_le [of p configMAX_PRIORITIES]
  by (simp add: event_key_def word_less_nat_alt word_le_nat_alt)

definition held :: "kernel \<Rightarrow> tid \<Rightarrow> word32" where
  "held k t = uxMutexesHeld (tcbs k t)"

definition base_priority :: "kernel \<Rightarrow> tid \<Rightarrow> word32" where
  "base_priority k t = uxBasePriority (tcbs k t)"

text \<open>\<open>K\<close> says what may be written to an event item.\<close>

definition written :: "(word32 \<Rightarrow> bool) \<Rightarrow> kernel \<Rightarrow> kernel \<Rightarrow> bool" where
  "written K k k' \<longleftrightarrow> (\<forall>t. item_value k' (EventItem t) = item_value k (EventItem t) \<or> K (item_value k' (EventItem t)))"

text \<open>No event item has joined an event list.\<close>

definition unjoined :: "kernel \<Rightarrow> kernel \<Rightarrow> bool" where
  "unjoined k k' \<longleftrightarrow>
     (\<forall>t e. container k' (EventItem t) = Some (EventList e) \<longrightarrow> container k (EventItem t) = Some (EventList e))"

definition steadily :: "(word32 \<Rightarrow> bool) \<Rightarrow> bool \<Rightarrow> kernel \<Rightarrow> kernel \<Rightarrow> bool" where
  "steadily K b k k' \<longleftrightarrow>
     written K k k' \<and> unjoined k k' \<and>
     held k' = held k \<and> base_priority k' = base_priority k \<and> uxCurrentNumberOfTasks k' = uxCurrentNumberOfTasks k \<and>
     (\<forall>t. container k' (StateItem t) = None \<longleftrightarrow> container k (StateItem t) = None) \<and>
     (\<forall>t. container k' (StateItem t) = Some TasksWaitingTermination \<longrightarrow>
        container k (StateItem t) = Some TasksWaitingTermination) \<and>
     (\<forall>t. is_ready k t \<longrightarrow> is_ready k' t) \<and>
     (\<forall>t. container k (EventItem t) = None \<longrightarrow> container k' (EventItem t) = None) \<and>
     (b \<longrightarrow> (\<forall>t. container k' (EventItem t) = Some PendingReadyList \<longrightarrow>
        container k (EventItem t) = Some PendingReadyList))"
abbreviation steady :: "bool \<Rightarrow> kernel \<Rightarrow> kernel \<Rightarrow> bool" where
  "steady \<equiv> steadily event_key"

lemma steady_refl [simp]: "steadily K b k k"
  by (simp add: steadily_def written_def unjoined_def)

lemma steady_weaken: "steadily K True k k' \<Longrightarrow> steadily K b k k'"
  by (simp add: steadily_def)

lemma steadyD:
  assumes "steadily K b k k'"
  shows "held k' = held k" "base_priority k' = base_priority k" "uxCurrentNumberOfTasks k' = uxCurrentNumberOfTasks k"
    "container k' (StateItem t) = None \<longleftrightarrow> container k (StateItem t) = None"
    "is_ready k t \<Longrightarrow> is_ready k' t" "container k (EventItem t) = None \<Longrightarrow> container k' (EventItem t) = None"
    "alive k t \<Longrightarrow> alive k' t"
    "container k' (StateItem t) = Some TasksWaitingTermination \<Longrightarrow> container k (StateItem t) = Some TasksWaitingTermination"
    "item_value k' (EventItem t) = item_value k (EventItem t) \<or> K (item_value k' (EventItem t))"
    "container k' (EventItem t) = Some (EventList e) \<Longrightarrow> container k (EventItem t) = Some (EventList e)"
    "b \<Longrightarrow> container k' (EventItem t) = Some PendingReadyList \<Longrightarrow> container k (EventItem t) = Some PendingReadyList"
proof -
  have s: "container k' (StateItem t) = None \<longleftrightarrow> container k (StateItem t) = None"
    "container k' (StateItem t) = Some TasksWaitingTermination \<longrightarrow> container k (StateItem t) = Some TasksWaitingTermination"
    using assms by (simp_all add: steadily_def)
  then show "alive k t \<Longrightarrow> alive k' t" by (auto simp: alive_def)
  have w: "written K k k'" "unjoined k k'" using assms by (simp_all add: steadily_def)
  then show "item_value k' (EventItem t) = item_value k (EventItem t) \<or> K (item_value k' (EventItem t))"
    "container k' (EventItem t) = Some (EventList e) \<Longrightarrow> container k (EventItem t) = Some (EventList e)"
    unfolding written_def unjoined_def by blast+
qed (use assms in \<open>simp_all add: steadily_def\<close>)

lemma steadilyI:
  assumes "held k' = held k" "base_priority k' = base_priority k" "uxCurrentNumberOfTasks k' = uxCurrentNumberOfTasks k"
    "\<And>t. container k' (StateItem t) = None \<longleftrightarrow> container k (StateItem t) = None"
    "\<And>t. is_ready k t \<Longrightarrow> is_ready k' t" "\<And>t. container k (EventItem t) = None \<Longrightarrow> container k' (EventItem t) = None"
    "\<And>t. container k' (StateItem t) = Some TasksWaitingTermination \<Longrightarrow> container k (StateItem t) = Some TasksWaitingTermination"
    "\<And>t. item_value k' (EventItem t) = item_value k (EventItem t) \<or> K (item_value k' (EventItem t))"
    "\<And>t e. container k' (EventItem t) = Some (EventList e) \<Longrightarrow> container k (EventItem t) = Some (EventList e)"
    "\<And>t. b \<Longrightarrow> container k' (EventItem t) = Some PendingReadyList \<Longrightarrow> container k (EventItem t) = Some PendingReadyList"
  shows "steadily K b k k'"
proof -
  have "written K k k'" "unjoined k k'" using assms(8,9) unfolding written_def unjoined_def by blast+
  then show ?thesis using assms(1-7,10) by (simp add: steadily_def)
qed

lemma steady_trans:
  assumes a: "steadily K b k k1" and c: "steadily K b k1 k2" shows "steadily K b k k2"
proof (rule steadilyI)
  note d = steadyD [OF a] and e = steadyD [OF c]
  show "held k2 = held k" "base_priority k2 = base_priority k" "uxCurrentNumberOfTasks k2 = uxCurrentNumberOfTasks k"
    by (simp_all only: d(1-3) e(1-3))
  fix t
  show "item_value k2 (EventItem t) = item_value k (EventItem t) \<or> K (item_value k2 (EventItem t))"
    using d(9) [of t] e(9) [of t] by auto
  show "container k2 (StateItem t) = None \<longleftrightarrow> container k (StateItem t) = None" by (simp only: d(4) e(4))
  show "is_ready k2 t" if "is_ready k t" by (rule e(5) [OF d(5) [OF that]])
  show "container k2 (EventItem t) = None" if "container k (EventItem t) = None" by (rule e(6) [OF d(6) [OF that]])
  show "container k (StateItem t) = Some TasksWaitingTermination" if "container k2 (StateItem t) = Some TasksWaitingTermination"
    by (rule d(8) [OF e(8) [OF that]])
  show "container k (EventItem t) = Some (EventList l)" if "container k2 (EventItem t) = Some (EventList l)" for l
    by (rule d(10) [OF e(10) [OF that]])
  show "container k (EventItem t) = Some PendingReadyList" if b "container k2 (EventItem t) = Some PendingReadyList"
    by (rule d(11) [OF that(1) e(11) [OF that]])
qed

text \<open>States that agree on the fields that count.\<close>

lemma steady_same:
  "container k' = container k \<Longrightarrow> (\<And>t. item_value k' (EventItem t) = item_value k (EventItem t)) \<Longrightarrow>
   held k' = held k \<Longrightarrow> base_priority k' = base_priority k \<Longrightarrow> uxCurrentNumberOfTasks k' = uxCurrentNumberOfTasks k \<Longrightarrow> steadily K b k k'"
  by (simp add: steadily_def written_def unjoined_def is_ready_def)

lemma steady_upd_tcb:
  "(\<And>x. uxMutexesHeld (f x) = uxMutexesHeld x) \<Longrightarrow> (\<And>x. uxBasePriority (f x) = uxBasePriority x) \<Longrightarrow> steadily K b k (upd_tcb t f k)"
  by (rule steady_same) (auto simp: held_def base_priority_def upd_tcb_def fun_eq_iff)

lemma steady_event_key: "K v \<Longrightarrow> steadily K b k (set_value (EventItem t) v k)"
  by (auto simp: steadily_def written_def unjoined_def set_value_def held_def base_priority_def is_ready_def fun_eq_iff)

lemma steady_remove_event:
  "list_remove (EventItem t) k = Some k' \<Longrightarrow> steadily K b k k'"
  by (auto simp: steadily_def written_def unjoined_def held_def base_priority_def is_ready_def fun_eq_iff elim!: list_remove_cases split: if_splits)

lemma steady_remove_event_item: "remove_event_item t k = Some k' \<Longrightarrow> steadily K b k k'"
  by (auto simp: remove_event_item_def steady_remove_event split: if_splits)

text \<open>A task that is taken out of its state list and put into its ready list.\<close>

lemma steady_move:
  assumes r: "list_remove (StateItem t) k = Some k1" and s: "steadily K b k1 k2"
  shows "steadily K b k (prvAddTaskToReadyList t k2)"
proof (rule steadilyI)
  note f = list_remove_frame [OF r] list_remove_container [OF r] and d = steadyD [OF s] and a = prvAddTaskToReadyList_frame
  have t: "container k (StateItem t) \<noteq> None" using r by (auto elim!: list_remove_cases)
  show "held (prvAddTaskToReadyList t k2) = held k" "base_priority (prvAddTaskToReadyList t k2) = base_priority k"
    using d(1,2) by (simp_all add: held_def base_priority_def a f fun_eq_iff)
  show "uxCurrentNumberOfTasks (prvAddTaskToReadyList t k2) = uxCurrentNumberOfTasks k" by (simp add: a d(3) f)
  fix u
  show "container (prvAddTaskToReadyList t k2) (StateItem u) = None \<longleftrightarrow> container k (StateItem u) = None"
    using t by (simp add: a d(4) f)
  show "is_ready (prvAddTaskToReadyList t k2) u" if "is_ready k u"
    using that d(5) [of u] by (cases "u = t") (simp_all add: is_ready_def a f)
  show "item_value (prvAddTaskToReadyList t k2) (EventItem u) = item_value k (EventItem u) \<or>
      K (item_value (prvAddTaskToReadyList t k2) (EventItem u))"
    using d(9) [of u] by (simp add: a f)
  show "container (prvAddTaskToReadyList t k2) (EventItem u) = None" if "container k (EventItem u) = None"
    using that d(6) [of u] by (simp add: a f)
  show "container k (StateItem u) = Some TasksWaitingTermination"
    if "container (prvAddTaskToReadyList t k2) (StateItem u) = Some TasksWaitingTermination"
    using that d(8) [of u] by (simp add: a f split: if_splits)
  show "container k (EventItem u) = Some (EventList e)" if "container (prvAddTaskToReadyList t k2) (EventItem u) = Some (EventList e)" for e
    using that d(10) [of u] by (simp add: a f)
  show "container k (EventItem u) = Some PendingReadyList"
    if "b" "container (prvAddTaskToReadyList t k2) (EventItem u) = Some PendingReadyList"
    using that d(11) [of u] by (simp add: a f)
qed
lemmas steady_move_now = steady_move [OF _ steady_refl]

lemma steady_reset: "steadily K b k (prvResetNextTaskUnblockTime k)"
  by (rule steady_same) (simp_all add: prvResetNextTaskUnblockTime_def held_def base_priority_def fun_eq_iff)

lemma steady_select: "taskSELECT_HIGHEST_PRIORITY_TASK k = Some k' \<Longrightarrow> steadily K b k k'"
  by (rule steady_same)
    (auto simp: taskSELECT_HIGHEST_PRIORITY_TASK_def next_entry_def Let_def held_def base_priority_def fun_eq_iff split: option.splits)

lemma steady_switch: "vTaskSwitchContext k = Some k' \<Longrightarrow> steadily K b k k'"
proof -
  assume s: "vTaskSwitchContext k = Some k'"
  show ?thesis
  proof (cases "uxSchedulerSuspended k = 0")
    case True
    have "steadily K b k (k\<lparr>xYieldPending := False\<rparr>)" by (rule steady_same) (simp_all add: held_def base_priority_def fun_eq_iff)
    moreover have "steadily K b (k\<lparr>xYieldPending := False\<rparr>) k'"
      using s True by (simp add: vTaskSwitchContext_def steady_select)
    ultimately show ?thesis by (rule steady_trans)
  next
    case False
    then have "k' = k\<lparr>xYieldPending := True\<rparr>" using s by (simp add: vTaskSwitchContext_def)
    then show ?thesis by (intro steady_same) (simp_all add: held_def base_priority_def fun_eq_iff)
  qed
qed

lemma steady_pend_yield: "pend_yield_for t k = Some (r, k') \<Longrightarrow> steadily K b k k'"
  by (rule steady_same) (auto simp: pend_yield_for_def held_def base_priority_def fun_eq_iff split: bind_splits if_splits)

lemma steady_switch_lists: "taskSWITCH_DELAYED_LISTS k = Some k' \<Longrightarrow> steadily K b k k'"
  by (rule steady_same)
    (auto simp: taskSWITCH_DELAYED_LISTS_def prvResetNextTaskUnblockTime_def held_def base_priority_def fun_eq_iff split: if_splits)

lemma steady_unblock: "unblock_expired x k = Some (r, k') \<Longrightarrow> steadily K b k k'"
proof -
  have step: "steadily K b k (snd z)" if IH: "\<And>x k z. f x k = Some z \<Longrightarrow> steadily K b k (snd z)"
    and z: "(if is_empty (pxDelayedTaskList k) k then Some (x, k\<lparr>xNextTaskUnblockTime := portMAX_DELAY\<rparr>)
      else let t = head_entry (pxDelayedTaskList k) k; v = item_value k (StateItem t)
           in if xTickCount k < v then Some (x, k\<lparr>xNextTaskUnblockTime := v\<rparr>)
              else do { s \<leftarrow> list_remove (StateItem t) k; s \<leftarrow> remove_event_item t s;
                let s = prvAddTaskToReadyList t s; c \<leftarrow> pxCurrentTCB s;
                f (x \<or> uxPriority (tcbs s c) < uxPriority (tcbs s t)) s }) = Some z" for f x k z
  proof (cases "is_empty (pxDelayedTaskList k) k \<or>
      xTickCount k < item_value k (StateItem (head_entry (pxDelayedTaskList k) k))")
    case True
    then have "\<exists>v. snd z = k\<lparr>xNextTaskUnblockTime := v\<rparr>" using z by (auto simp: Let_def split: if_splits)
    then show ?thesis by (auto intro!: steady_same simp: held_def base_priority_def fun_eq_iff)
  next
    case False
    let ?t = "head_entry (pxDelayedTaskList k) k"
    obtain k1 k2 c y where k: "list_remove (StateItem ?t) k = Some k1" "remove_event_item ?t k1 = Some k2"
      "f y (prvAddTaskToReadyList ?t k2) = Some z"
      using z False by (auto simp: Let_def split: bind_splits)
    have "steadily K b k (prvAddTaskToReadyList ?t k2)"
      by (rule steady_move [OF k(1) steady_remove_event_item [OF k(2)]])
    then show ?thesis by (rule steady_trans) (rule IH [OF k(3)])
  qed
  assume "unblock_expired x k = Some (r, k')"
  then have "steadily K b k (snd (r, k'))"
    by (rule unblock_expired.raw_induct [of "\<lambda>x k z. steadily K b k (snd z)", rotated]) (rule step, assumption+)
  then show ?thesis by simp
qed

lemma steady_tick: "xTaskIncrementTick k = Some (r, k') \<Longrightarrow> steadily K b k k'"
proof -
  assume s: "xTaskIncrementTick k = Some (r, k')"
  show ?thesis
  proof (cases "uxSchedulerSuspended k = 0")
    case True
    let ?k = "k\<lparr>xTickCount := xTickCount k + 1\<rparr>"
    obtain k1 x k2 where k: "(if xTickCount k + 1 = 0 then taskSWITCH_DELAYED_LISTS ?k else Some ?k) = Some k1"
      "(if xNextTaskUnblockTime k1 \<le> xTickCount k + 1 then unblock_expired False k1 else Some (False, k1)) = Some (x, k2)"
      "k' = k2"
      using s True by (auto simp: xTaskIncrementTick_def Let_def split: bind_splits)
    have "steadily K b k ?k" by (rule steady_same) (simp_all add: held_def base_priority_def fun_eq_iff)
    moreover have "steadily K b ?k k1" using k(1) by (auto simp: steady_switch_lists split: if_splits)
    moreover have "steadily K b k1 k2" using k(2) by (auto simp: steady_unblock split: if_splits)
    ultimately show ?thesis unfolding k(3) by (metis steady_trans)
  next
    case False
    then have "k' = k\<lparr>xPendedTicks := xPendedTicks k + 1\<rparr>" using s by (simp add: xTaskIncrementTick_def)
    then show ?thesis by (intro steady_same) (simp_all add: held_def base_priority_def fun_eq_iff)
  qed
qed

lemma steady_drain: "drain_pending x k = Some (m, k') \<Longrightarrow> steadily K b k k'"
proof -
  have step: "steadily K b k (snd z)" if IH: "\<And>x k z. f x k = Some z \<Longrightarrow> steadily K b k (snd z)"
    and z: "(if is_empty PendingReadyList k then Some (x, k)
      else do { let t = head_entry PendingReadyList k; s \<leftarrow> list_remove (EventItem t) k;
        s \<leftarrow> list_remove (StateItem t) s; let s = prvAddTaskToReadyList t s; c \<leftarrow> pxCurrentTCB s;
        f True (if uxPriority (tcbs s c) < uxPriority (tcbs s t) then s\<lparr>xYieldPending := True\<rparr> else s) }) = Some z" for f x k z
  proof (cases "is_empty PendingReadyList k")
    case True then show ?thesis using z by auto
  next
    case False
    let ?t = "head_entry PendingReadyList k"
    obtain k1 k2 c where k: "list_remove (EventItem ?t) k = Some k1" "list_remove (StateItem ?t) k1 = Some k2"
      "f True (if uxPriority (tcbs k2 c) < uxPriority (tcbs k2 ?t) then (prvAddTaskToReadyList ?t k2)\<lparr>xYieldPending := True\<rparr>
         else prvAddTaskToReadyList ?t k2) = Some z"
      using z False by (auto simp: Let_def prvAddTaskToReadyList_frame split: bind_splits)
    let ?k = "if uxPriority (tcbs k2 c) < uxPriority (tcbs k2 ?t) then (prvAddTaskToReadyList ?t k2)\<lparr>xYieldPending := True\<rparr>
         else prvAddTaskToReadyList ?t k2"
    have "steadily K b k (prvAddTaskToReadyList ?t k2)"
      by (rule steady_trans [OF steady_remove_event [OF k(1)] steady_move_now [OF k(2)]])
    moreover have "steadily K b (prvAddTaskToReadyList ?t k2) ?k" by (rule steady_same) (simp_all add: held_def base_priority_def fun_eq_iff)
    ultimately have "steadily K b k ?k" by (rule steady_trans)
    then show ?thesis by (rule steady_trans) (rule IH [OF k(3)])
  qed
  assume "drain_pending x k = Some (m, k')"
  then have "steadily K b k (snd (m, k'))"
    by (rule drain_pending.raw_induct [of "\<lambda>x k z. steadily K b k (snd z)", rotated]) (rule step, assumption+)
  then show ?thesis by simp
qed

lemma steady_replay: "replay_ticks n k = Some k' \<Longrightarrow> steadily K b k k'"
proof (induction n arbitrary: k)
  case (Suc n)
  obtain r k1 where k: "xTaskIncrementTick k = Some (r, k1)"
    "replay_ticks n (if r then k1\<lparr>xYieldPending := True\<rparr> else k1) = Some k'"
    using Suc.prems by (auto split: bind_splits)
  have "steadily K b k1 (if r then k1\<lparr>xYieldPending := True\<rparr> else k1)"
    by (rule steady_same) (simp_all add: held_def base_priority_def fun_eq_iff)
  then show ?case using steady_tick [OF k(1)] Suc.IH [OF k(2)] by (metis steady_trans)
qed simp

text \<open>Resuming: the pending list is drained first, and nothing is pended afterwards.\<close>

lemma resume_split:
  assumes s: "xTaskResumeAll k = Some (y, k')"
    and last: "uxSchedulerSuspended k = 1" "uxCurrentNumberOfTasks k \<noteq> 0"
  obtains m k1 where "drain_pending False (k\<lparr>uxSchedulerSuspended := 0\<rparr>) = Some (m, k1)" "steadily K b k1 k'"
proof -
  let ?k = "k\<lparr>uxSchedulerSuspended := 0\<rparr>"
  obtain m k1 k2 where k: "drain_pending False ?k = Some (m, k1)"
    "(if xPendedTicks (if m then prvResetNextTaskUnblockTime k1 else k1) > 0
      then map_option (\<lambda>s. s\<lparr>xPendedTicks := 0\<rparr>) (replay_ticks (unat (xPendedTicks (if m then prvResetNextTaskUnblockTime k1 else k1)))
        (if m then prvResetNextTaskUnblockTime k1 else k1))
      else Some (if m then prvResetNextTaskUnblockTime k1 else k1)) = Some k2"
    "(if xYieldPending k2 then map_option (Pair True) (portYIELD_WITHIN_API k2) else Some (False, k2)) = Some (y, k')"
    using s last by (auto simp: xTaskResumeAll_def Let_def word_gt_0 split: bind_splits)
  let ?k1 = "if m then prvResetNextTaskUnblockTime k1 else k1"
  have "steadily K b k1 ?k1" by (simp add: steady_reset)
  moreover have "steadily K b ?k1 k2"
  proof (cases "xPendedTicks ?k1 > 0")
    case True
    then obtain k3 where k3: "replay_ticks (unat (xPendedTicks ?k1)) ?k1 = Some k3" "k2 = k3\<lparr>xPendedTicks := 0\<rparr>"
      using k(2) by auto
    have "steadily K b k3 k2" unfolding k3(2) by (rule steady_same) (simp_all add: held_def base_priority_def fun_eq_iff)
    then show ?thesis using steady_replay [OF k3(1)] by (metis steady_trans)
  next
    case False then show ?thesis using k(2) by simp
  qed
  moreover have "steadily K b k2 k'" using k(3) by (auto simp: steady_switch split: if_splits)
  ultimately have "steadily K b k1 k'" by (metis steady_trans)
  then show thesis using that k(1) by blast
qed

lemma steady_resume:
  assumes "xTaskResumeAll k = Some (y, k')" "uxSchedulerSuspended k = 1" "uxCurrentNumberOfTasks k \<noteq> 0"
  shows "steadily K b k k'"
proof -
  obtain m k1 where r: "drain_pending False (k\<lparr>uxSchedulerSuspended := 0\<rparr>) = Some (m, k1)" "steadily K b k1 k'"
    by (rule resume_split [OF assms])
  have "steadily K b k (k\<lparr>uxSchedulerSuspended := 0\<rparr>)" by (rule steady_same) (simp_all add: held_def base_priority_def fun_eq_iff)
  then show ?thesis using steady_drain [OF r(1)] r(2) by (metis steady_trans)
qed

definition no_pending :: "kernel \<Rightarrow> bool" where
  "no_pending k \<longleftrightarrow> (\<forall>t. container k (EventItem t) \<noteq> Some PendingReadyList)"

lemma no_pending_steady: "no_pending k \<Longrightarrow> steadily K True k k' \<Longrightarrow> no_pending k'"
  by (auto simp: no_pending_def dest: steadyD(11))

lemma resume_no_pending:
  assumes s: "xTaskResumeAll k = Some (y, k')" and last: "uxSchedulerSuspended k = 1" and wf: "kernel_wf i k"
  shows "no_pending k'"
proof -
  have n: "uxCurrentNumberOfTasks k \<noteq> 0" using wf by (simp add: kernel_wf_def)
  obtain m k1 where r: "drain_pending False (k\<lparr>uxSchedulerSuspended := 0\<rparr>) = Some (m, k1)" "steadily K True k1 k'"
    by (rule resume_split [OF s last n])
  obtain c where "sched_ok (k\<lparr>uxSchedulerSuspended := 0\<rparr>)" "pxCurrentTCB (k\<lparr>uxSchedulerSuspended := 0\<rparr>) = Some c"
    using wf by (auto simp: kernel_wf_def)
  from drain_pending_ok [OF this, of False] r(1) have "sched_ok k1" "is_empty PendingReadyList k1" by auto
  then have "no_pending k1"
    using lists_okD(2) [OF core_okD(1) [OF sched_okD(1)], of k1 _ PendingReadyList] by (auto simp: no_pending_def is_empty_def)
  then show ?thesis using r(2) by (rule no_pending_steady)
qed

lemma steady_release:
  assumes s: "xTaskRemoveFromEventList e k = Some (r, k')"
  shows "steadily K (uxSchedulerSuspended k = 0) k k'" "pxCurrentTCB k' = pxCurrentTCB k"
    "uxSchedulerSuspended k' = uxSchedulerSuspended k"
proof -
  let ?t = "head_entry (EventList e) k"
  obtain k1 k2 where k: "list_remove (EventItem ?t) k = Some k1"
    "(if uxSchedulerSuspended k1 = 0 then map_option (prvAddTaskToReadyList ?t) (list_remove (StateItem ?t) k1)
      else Some (insert_end PendingReadyList (EventItem ?t) k1)) = Some k2" "pend_yield_for ?t k2 = Some (r, k')"
    using s by (auto simp: xTaskRemoveFromEventList_def Let_def split: bind_splits if_splits)
  note f = list_remove_frame [OF k(1)] list_remove_container [OF k(1)]
  have c: "container k (EventItem ?t) \<noteq> None" using k(1) by (auto elim!: list_remove_cases)
  have p: "pxCurrentTCB k' = pxCurrentTCB k2 \<and> uxSchedulerSuspended k' = uxSchedulerSuspended k2"
    using k(3) by (auto simp: pend_yield_for_def split: bind_splits if_splits)
  show "pxCurrentTCB k' = pxCurrentTCB k" "uxSchedulerSuspended k' = uxSchedulerSuspended k"
    using k(2) f p by (auto simp: frame_simps prvAddTaskToReadyList_frame elim!: list_remove_cases split: if_splits)
  show "steadily K (uxSchedulerSuspended k = 0) k k'"
  proof (cases "uxSchedulerSuspended k = 0")
    case True
    then obtain k3 where k3: "list_remove (StateItem ?t) k1 = Some k3" "k2 = prvAddTaskToReadyList ?t k3"
      using k(2) f by auto
    have "steadily K True k1 k2" unfolding k3(2) by (rule steady_move_now [OF k3(1)])
    then have "steadily K True k k'" using steady_remove_event [OF k(1)] steady_pend_yield [OF k(3)] by (metis steady_trans)
    then show ?thesis by (rule steady_weaken)
  next
    case False
    then have k2: "k2 = insert_end PendingReadyList (EventItem ?t) k1" using k(2) f by simp
    have "steadily K False k k2" using c by (auto simp: steadily_def written_def unjoined_def k2 frame_simps f held_def base_priority_def is_ready_def fun_eq_iff)
    then show ?thesis using steady_pend_yield [OF k(3)] False by (simp only:) (metis steady_trans)
  qed
qed

lemma steady_check_time:
  assumes "xTaskCheckForTimeOut timeout n k = Some (late, timeout', n', k')"
  shows "steadily K b k k'" "pxCurrentTCB k' = pxCurrentTCB k" "uxSchedulerSuspended k' = uxSchedulerSuspended k"
    "container k' = container k" "n \<noteq> 0 \<Longrightarrow> \<not> late \<Longrightarrow> n' \<noteq> 0"
proof -
  have k': "k' = k \<or> (\<exists>c. k' = upd_tcb c (ucDelayAborted_update (\<lambda>_. False)) k)"
    using assms by (auto simp: xTaskCheckForTimeOut_def Let_def split: bind_splits if_splits)
  then show "steadily K b k k'" "pxCurrentTCB k' = pxCurrentTCB k" "uxSchedulerSuspended k' = uxSchedulerSuspended k"
    "container k' = container k" by (auto simp: steady_upd_tcb frame_simps)
  show "n' \<noteq> 0" if "n \<noteq> 0" "\<not> late"
    using assms that by (auto simp: xTaskCheckForTimeOut_def Let_def split: bind_splits if_splits)
qed

lemma check_time_wf:
  assumes wf: "kernel_wf i k"
  shows "\<exists>ex t n' k'. xTaskCheckForTimeOut timeout n k = Some (ex, t, n', k') \<and> kernel_wf i k'"
proof -
  obtain c where c: "pxCurrentTCB k = Some c" using wf by (auto simp: kernel_wf_def)
  have "kernel_wf i (upd_tcb c (ucDelayAborted_update (\<lambda>_. False)) k)" using wf by (simp add: wf_upd_tcb)
  then show ?thesis using wf c by (auto simp: xTaskCheckForTimeOut_def Let_def)
qed

section \<open>The kernel between the steps\<close>

text \<open>The part of \<open>steady\<close> that also holds when the running task parks itself.\<close>

definition settled :: "kernel \<Rightarrow> kernel \<Rightarrow> bool" where
  "settled k k' \<longleftrightarrow>
     (\<forall>t. item_value k' (EventItem t) = item_value k (EventItem t) \<or> event_key (item_value k' (EventItem t))) \<and>
     base_priority k' = base_priority k \<and> uxCurrentNumberOfTasks k' = uxCurrentNumberOfTasks k \<and>
     (\<forall>t. container k' (StateItem t) = None \<longleftrightarrow> container k (StateItem t) = None) \<and>
     (\<forall>t. container k' (StateItem t) = Some TasksWaitingTermination \<longrightarrow>
        container k (StateItem t) = Some TasksWaitingTermination)"

lemma settled_steady: "steady b k k' \<Longrightarrow> settled k k'"
  by (simp add: settled_def steadily_def written_def)

lemma settled_trans: "settled k k1 \<Longrightarrow> settled k1 k2 \<Longrightarrow> settled k k2"
  unfolding settled_def by (elim conjE, intro conjI; metis)

text \<open>
  No task is deleted, event items of tasks hold the key of a priority, base priorities are in
  range, there are few enough tasks for the lock counts, and while the scheduler runs no task
  is pended.
\<close>

definition base_ok :: "tid \<Rightarrow> kernel \<Rightarrow> bool" where
  "base_ok i k \<longleftrightarrow> kernel_wf i k \<and> uxCurrentNumberOfTasks k \<le> 127 \<and>
     (\<forall>t. container k (StateItem t) \<noteq> None \<longrightarrow>
        event_key (item_value k (EventItem t)) \<and> base_priority k t < configMAX_PRIORITIES) \<and>
     (\<forall>t. container k (StateItem t) \<noteq> Some TasksWaitingTermination)"

definition good :: "tid \<Rightarrow> kernel \<Rightarrow> bool" where
  "good i k \<longleftrightarrow> base_ok i k \<and> (uxSchedulerSuspended k = 0 \<longrightarrow> no_pending k)"

definition running_ready :: "kernel \<Rightarrow> bool" where
  "running_ready k \<longleftrightarrow> (\<exists>c. pxCurrentTCB k = Some c \<and> is_ready k c)"

lemma base_ok_settled: "base_ok i k \<Longrightarrow> settled k k' \<Longrightarrow> kernel_wf i k' \<Longrightarrow> base_ok i k'"
  unfolding base_ok_def settled_def by (elim conjE, intro conjI; metis)

lemma base_ok_wf: "base_ok i k \<Longrightarrow> kernel_wf i k"
  by (simp add: base_ok_def)

lemma goodD: "good i k \<Longrightarrow> base_ok i k" "good i k \<Longrightarrow> kernel_wf i k"
  "good i k \<Longrightarrow> uxSchedulerSuspended k = 0 \<Longrightarrow> no_pending k"
  by (simp_all add: good_def base_ok_def)

lemma good_steady:
  assumes "good i k" "kernel_wf i k'" "steady (uxSchedulerSuspended k = 0) k k'" "uxSchedulerSuspended k' = uxSchedulerSuspended k"
  shows "good i k'"
  using assms base_ok_settled [OF _ settled_steady] no_pending_steady by (auto simp: good_def)

lemma alive_settled: "settled k k' \<Longrightarrow> alive k t \<Longrightarrow> alive k' t"
  unfolding settled_def alive_def by auto

lemma good_alive: "good i k \<Longrightarrow> alive k t \<longleftrightarrow> container k (StateItem t) \<noteq> None"
  by (auto simp: good_def base_ok_def alive_def)

lemma good_current: "good i k \<Longrightarrow> \<exists>c. pxCurrentTCB k = Some c \<and> alive k c"
  by (auto simp: good_def base_ok_def kernel_wf_def)

lemma good_ready_free:
  assumes g: "good i k" and s: "uxSchedulerSuspended k = 0" and r: "is_ready k t"
  shows "container k (EventItem t) = None"
proof (rule ccontr)
  assume "container k (EventItem t) \<noteq> None"
  then obtain l where l: "container k (EventItem t) = Some l" by blast
  have "task_ok k t" using goodD(2) [OF g] by (simp add: kernel_wf_def sched_ok_def core_ok_def)
  then have "l = PendingReadyList" using l r by (auto simp: task_ok_def is_ready_def)
  then show False using goodD(3) [OF g s] l by (simp add: no_pending_def)
qed

lemma good_priority: "good i k \<Longrightarrow> alive k t \<Longrightarrow> uxPriority (tcbs k t) < configMAX_PRIORITIES"
  using core_okD(4) [OF sched_okD(1), of k t] by (auto simp: good_def base_ok_def kernel_wf_def task_ok_def alive_def)

lemma good_switch:
  assumes g: "good i k"
  shows "\<exists>k'. vTaskSwitchContext k = Some k' \<and> good i k' \<and> steady True k k' \<and>
    uxSchedulerSuspended k' = uxSchedulerSuspended k \<and>
    (if uxSchedulerSuspended k = 0 then running_ready k' else pxCurrentTCB k' = pxCurrentTCB k)"
proof -
  from wf_switch [OF goodD(2) [OF g], of "{}"] obtain k' where
    k': "vTaskSwitchContext k = Some k'" "kernel_wf i k'" "same_tasks k k'" "uxSchedulerSuspended k = 0 \<longrightarrow> runs_highest k'"
    by blast
  have st: "steady True k k'" by (rule steady_switch [OF k'(1)])
  have su: "uxSchedulerSuspended k' = uxSchedulerSuspended k" using k'(3) by (simp add: same_tasks_def)
  have "good i k'" by (rule good_steady [OF g k'(2) steady_weaken [OF st] su])
  moreover have "pxCurrentTCB k' = pxCurrentTCB k" if "uxSchedulerSuspended k \<noteq> 0"
    using k'(1) that by (auto simp: vTaskSwitchContext_def)
  ultimately show ?thesis using k'(1,4) st su by (auto simp: running_ready_def runs_highest_def is_ready_def)
qed

lemma good_suspend_all:
  assumes g: "good i k" and sus: "uxSchedulerSuspended k = 0"
  shows "good i (vTaskSuspendAll k)" "steady True k (vTaskSuspendAll k)"
    "uxSchedulerSuspended (vTaskSuspendAll k) = 1" "pxCurrentTCB (vTaskSuspendAll k) = pxCurrentTCB k"
proof -
  show st: "steady True k (vTaskSuspendAll k)"
    by (rule steady_same) (simp_all add: vTaskSuspendAll_def held_def base_priority_def fun_eq_iff)
  show su: "uxSchedulerSuspended (vTaskSuspendAll k) = 1" "pxCurrentTCB (vTaskSuspendAll k) = pxCurrentTCB k"
    using sus by (simp_all add: vTaskSuspendAll_def)
  have "base_ok i (vTaskSuspendAll k)"
    by (rule base_ok_settled [OF goodD(1) [OF g] settled_steady [OF st] wf_suspend_all [OF goodD(2) [OF g]]])
  then show "good i (vTaskSuspendAll k)" using su by (simp add: good_def)
qed

lemma good_resume:
  assumes g: "good i k" and sus: "uxSchedulerSuspended k = 1"
  shows "\<exists>y k'. xTaskResumeAll k = Some (y, k') \<and> good i k' \<and> steady True k k' \<and> uxSchedulerSuspended k' = 0 \<and>
    (if y then running_ready k' else pxCurrentTCB k' = pxCurrentTCB k)"
proof -
  note wf = goodD(2) [OF g]
  obtain y k' where r: "xTaskResumeAll k = Some (y, k')" "kernel_wf i k'" "uxSchedulerSuspended k' = 0"
    "y \<longrightarrow> runs_highest k'" "\<not> y \<longrightarrow> pxCurrentTCB k' = pxCurrentTCB k"
    using wf_resume_all [OF wf] sus by auto
  have st: "steady True k k'" using steady_resume [OF r(1) sus] wf by (simp add: kernel_wf_def)
  have "base_ok i k'" by (rule base_ok_settled [OF goodD(1) [OF g] settled_steady [OF st] r(2)])
  then have "good i k'" using resume_no_pending [OF r(1) sus wf] by (simp add: good_def)
  then show ?thesis using r st by (auto simp: running_ready_def runs_highest_def is_ready_def)
qed

lemma good_tick:
  assumes g: "good i k"
  shows "\<exists>r k'. xTaskIncrementTick k = Some (r, k') \<and> good i k' \<and> steady True k k' \<and>
    uxSchedulerSuspended k' = uxSchedulerSuspended k \<and> pxCurrentTCB k' = pxCurrentTCB k"
proof (cases "uxSchedulerSuspended k = 0")
  case True
  obtain r k' where t: "xTaskIncrementTick k = Some (r, k')" "kernel_wf i k'" "uxSchedulerSuspended k' = 0"
    "pxCurrentTCB k' = pxCurrentTCB k" using wf_tick [OF goodD(2) [OF g] True] by blast
  have st: "steady True k k'" by (rule steady_tick [OF t(1)])
  have "good i k'" by (rule good_steady [OF g t(2) steady_weaken [OF st]]) (simp add: t(3) True)
  then show ?thesis using t st True by auto
next
  case False
  let ?k = "k\<lparr>xPendedTicks := xPendedTicks k + 1\<rparr>"
  have t: "xTaskIncrementTick k = Some (False, ?k)" using False by (simp add: xTaskIncrementTick_def)
  have "kernel_wf i ?k" using goodD(2) [OF g] by (simp add: kernel_wf_def alive_def is_ready_def)
  then have "good i ?k" by (rule good_steady [OF g _ steady_weaken [OF steady_tick [OF t]]]) simp
  then show ?thesis using t steady_tick [OF t] by auto
qed

lemma good_release:
  assumes g: "good i k" and ne: "\<not> is_empty (EventList e) k"
  shows "\<exists>r k'. xTaskRemoveFromEventList e k = Some (r, k') \<and> good i k' \<and> steady (uxSchedulerSuspended k = 0) k k' \<and>
    uxSchedulerSuspended k' = uxSchedulerSuspended k \<and> pxCurrentTCB k' = pxCurrentTCB k"
proof -
  obtain r k' where r: "xTaskRemoveFromEventList e k = Some (r, k')" "kernel_wf i k'"
    using xTaskRemoveFromEventList_wf [OF goodD(2) [OF g] ne] by blast
  note st = steady_release [OF r(1)]
  have "good i k'" by (rule good_steady [OF g r(2) st(1) st(3)])
  then show ?thesis using r(1) st by blast
qed

lemma steady_missed_yield: "steady b k (vTaskMissedYield k)"
  by (rule steady_same) (simp_all add: vTaskMissedYield_def held_def base_priority_def fun_eq_iff)

lemma good_missed_yield:
  assumes g: "good i k" shows "good i (vTaskMissedYield k)"
proof (rule good_steady [OF g _ steady_missed_yield])
  show "kernel_wf i (vTaskMissedYield k)"
    using goodD(2) [OF g] by (simp add: kernel_wf_def vTaskMissedYield_def alive_def is_ready_def)
qed (simp add: vTaskMissedYield_def)

lemma good_check_time:
  assumes g: "good i k"
  shows "\<exists>x t n' k'. xTaskCheckForTimeOut timeout n k = Some (x, t, n', k') \<and> good i k' \<and> steady True k k' \<and>
    uxSchedulerSuspended k' = uxSchedulerSuspended k \<and> pxCurrentTCB k' = pxCurrentTCB k \<and>
    (n \<noteq> 0 \<and> \<not> x \<longrightarrow> n' \<noteq> 0)"
proof -
  obtain x t n' k' where r: "xTaskCheckForTimeOut timeout n k = Some (x, t, n', k')" "kernel_wf i k'"
    using check_time_wf [OF goodD(2) [OF g]] by blast
  note st = steady_check_time [OF r(1)]
  have "good i k'" by (rule good_steady [OF g r(2) steady_weaken [OF st(1)] st(3)])
  then show ?thesis using r(1) st by blast
qed

end
