(* ===== verification/Queue_Kernel.thy ===== *)
theory Queue_Kernel
  imports Kernel_Steady
begin

text \<open>
  Parking on an event list, delaying, and priority inheritance: the kernel operations of queues
  that do more than \<open>steady\<close> allows, or need more than well-formedness.
\<close>

section \<open>Parking\<close>

lemma settled_park:
  assumes s: "prvAddCurrentTaskToDelayedList n indef k = Some k'"
    and t: "pxCurrentTCB k = Some t" and p: "parked t n indef k k'"
  shows "settled k k'" "held k' = held k"
proof -
  obtain k1 where r: "list_remove (StateItem t) (upd_tcb t (ucDelayAborted_update (\<lambda>_. False)) k) = Some k1"
    using s t by (auto simp: prvAddCurrentTaskToDelayedList_def Let_def split: bind_splits)
  note f = list_remove_frame [OF r]
  have d: "item_value k' (EventItem u) = item_value k (EventItem u)" "tcbs k' = tcbs k1" for u
    using s t r f by (auto simp: prvAddCurrentTaskToDelayedList_def Let_def frame_simps upd_tcb_def split: if_splits)
  have c: "container k (StateItem t) \<noteq> None" using r by (auto simp: frame_simps elim!: list_remove_cases)
  have st: "container k' (StateItem t) \<noteq> None \<and> container k' (StateItem t) \<noteq> Some TasksWaitingTermination"
    using p by (auto simp: parked_def sleeping_def split: if_splits)
  have h: "held k' = held k" "base_priority k' = base_priority k"
    using d f by (auto simp: held_def base_priority_def frame_simps upd_tcb_def fun_eq_iff)
  then show "held k' = held k" by simp
  have o: "container k' (StateItem u) = container k (StateItem u)" if "u \<noteq> t" for u
    using p that by (simp add: parked_def)
  have "container k' (StateItem u) = None \<longleftrightarrow> container k (StateItem u) = None" for u
    using c st o [of u] by (cases "u = t") auto
  moreover have "container k' (StateItem u) = Some TasksWaitingTermination \<longrightarrow>
      container k (StateItem u) = Some TasksWaitingTermination" for u
    using st o [of u] by (cases "u = t") auto
  ultimately show "settled k k'" using p d h by (auto simp: settled_def parked_def)
qed

lemma good_place:
  assumes g: "good i k" and sus: "uxSchedulerSuspended k \<noteq> 0" and t: "pxCurrentTCB k = Some t" "t \<noteq> i"
    and n: "n \<noteq> 0" and e: "container k (EventItem t) = None"
  shows "\<exists>k'. vTaskPlaceOnEventList e n k = Some k' \<and> good i k' \<and> settled k k' \<and> held k' = held k \<and>
    uxSchedulerSuspended k' = uxSchedulerSuspended k \<and> pxCurrentTCB k' = Some t"
proof -
  note wf = goodD(2) [OF g]
  obtain k' where r: "vTaskPlaceOnEventList e n k = Some k'" "kernel_wf i k'"
    "uxSchedulerSuspended k' = uxSchedulerSuspended k" "parked t n True (insert_value (EventList e) (EventItem t) k) k'"
    using vTaskPlaceOnEventList_wf [OF wf t n e] by blast
  let ?k = "insert_value (EventList e) (EventItem t) k"
  have s: "prvAddCurrentTaskToDelayedList n True ?k = Some k'"
    using r(1) t by (simp add: vTaskPlaceOnEventList_def)
  have "settled ?k k'" "held k' = held ?k"
    using settled_park [OF s _ r(4)] t by (simp_all add: frame_simps)
  then have st: "settled k k'" "held k' = held k"
    by (auto simp: settled_def frame_simps held_def base_priority_def fun_eq_iff)
  have "base_ok i k'" by (rule base_ok_settled [OF goodD(1) [OF g] st(1) r(2)])
  then show ?thesis using r st sus by (auto simp: good_def parked_def)
qed


lemma good_delay:
  assumes g: "good i k" and sus: "uxSchedulerSuspended k = 0" and t: "pxCurrentTCB k = Some t" "t \<noteq> i"
  shows "\<exists>k'. vTaskDelay n k = Some k' \<and> good i k' \<and> settled k k' \<and> held k' = held k \<and>
    uxSchedulerSuspended k' = 0 \<and> running_ready k'"
proof (cases "n = 0")
  case True
  then show ?thesis using good_switch [OF g] sus by (auto simp: vTaskDelay_def settled_steady steadyD)
next
  case False
  note sa = good_suspend_all [OF g sus]
  let ?k = "vTaskSuspendAll k"
  obtain k1 where k1: "prvAddCurrentTaskToDelayedList n False ?k = Some k1" "kernel_wf i k1" "parked t n False ?k k1"
    using wf_park [OF goodD(2) [OF sa(1)] _ t(2) False] sa(4) t by metis
  note sp = settled_park [OF k1(1) _ k1(3)]
  have su1: "uxSchedulerSuspended k1 = 1" using k1(3) sa(3) by (simp add: parked_def)
  have "base_ok i k1" using base_ok_settled [OF goodD(1) [OF sa(1)] _ k1(2)] sp sa(4) t by simp
  then have g1: "good i k1" using su1 by (simp add: good_def)
  obtain y k2 where k2: "xTaskResumeAll k1 = Some (y, k2)" "good i k2" "steady True k1 k2" "uxSchedulerSuspended k2 = 0"
    "if y then running_ready k2 else pxCurrentTCB k2 = pxCurrentTCB k1" using good_resume [OF g1 su1] by blast
  obtain k3 where k3: "(if y then Some k2 else vTaskSwitchContext k2) = Some k3" "good i k3" "steady True k2 k3"
    "uxSchedulerSuspended k3 = 0" "running_ready k3"
    using good_switch [OF k2(2)] k2 by (cases y) auto
  have "vTaskDelay n k = Some k3" using False sa(3) k1(1) k2(1) k3(1) by (simp add: vTaskDelay_def word_gt_0)
  moreover have "settled k k3"
    using settled_steady [OF sa(2)] sp sa(4) t settled_steady [OF k2(3)] settled_steady [OF k3(3)] settled_trans by metis
  moreover have "held k3 = held k" using sp sa(4) t steadyD(1) [OF sa(2)] steadyD(1) [OF k2(3)] steadyD(1) [OF k3(3)] by simp
  ultimately show ?thesis using k3 by blast
qed

section \<open>Priority inheritance\<close>

lemma good_upd_tcb:
  assumes g: "good i k" and f: "\<And>x. uxPriority (f x) = uxPriority x" "\<And>x. uxBasePriority (f x) = uxBasePriority x"
  shows "good i (upd_tcb t f k)"
proof -
  have "settled k (upd_tcb t f k)"
    using f by (auto simp: settled_def frame_simps base_priority_def upd_tcb_def fun_eq_iff)
  then have "base_ok i (upd_tcb t f k)"
    by (rule base_ok_settled [OF goodD(1) [OF g]]) (simp add: wf_upd_tcb f goodD(2) [OF g])
  then show ?thesis using g by (simp add: good_def no_pending_def frame_simps)
qed

lemma requeue_item_value: "requeue_ready t p k = Some k' \<Longrightarrow> item_value k' = item_value k"
  by (auto simp: requeue_ready_def frame_simps prvAddTaskToReadyList_frame elim!: list_remove_cases split: if_splits)

lemma good_requeue:
  assumes g: "good i k" and p: "uxPriority (f (tcbs k t)) < configMAX_PRIORITIES"
    and f: "\<And>x. uxBasePriority (f x) = uxBasePriority x" "\<And>x. uxMutexesHeld (f x) = uxMutexesHeld x"
    and v: "\<And>x. v = Some x \<Longrightarrow> event_key x"
  shows "\<exists>k'. requeue_ready t (uxPriority (tcbs k t)) (retune t f v k) = Some k' \<and> good i k' \<and> steady True k k' \<and>
    uxSchedulerSuspended k' = uxSchedulerSuspended k \<and> pxCurrentTCB k' = pxCurrentTCB k"
proof -
  have wf: "kernel_wf i k" by (rule goodD(2) [OF g])
  then have "sched_ok k" by (simp add: kernel_wf_def)
  from requeue_retune [OF this, of f t v, OF p] obtain k' where r: "requeue_ready t (uxPriority (tcbs k t)) (retune t f v k) = Some k'"
    "sched_ok k'" "tcbs k' = (tcbs k)(t := f (tcbs k t))" "pxCurrentTCB k' = pxCurrentTCB k" "keeps {} k k'"
    "uxSchedulerSuspended k' = uxSchedulerSuspended k"
    "container k' = (if is_ready k t then (container k)(StateItem t := Some (ReadyList (uxPriority (f (tcbs k t))))) else container k)"
    by blast
  have h: "held k' = held k" "base_priority k' = base_priority k"
    using r(3) f by (auto simp: held_def base_priority_def fun_eq_iff)
  have iv: "item_value k' (EventItem u) = item_value k (EventItem u) \<or> event_key (item_value k' (EventItem u))" for u
    using requeue_item_value [OF r(1)] v by (auto simp: retune_def set_value_def upd_tcb_def split: option.splits)
  have st: "steady True k k'"
    using iv h r(5,7) by (auto simp: steadily_def written_def unjoined_def keeps_def is_ready_def)
  have "kernel_wf i k'" using wf r(2,4,5) by (auto simp: kernel_wf_def keeps_def)
  then have "good i k'" by (rule good_steady [OF g _ steady_weaken [OF st] r(6)])
  then show ?thesis using r st by blast
qed

lemma good_inherit:
  assumes g: "good i k" and h: "\<And>t. h = Some t \<Longrightarrow> alive k t"
  shows "\<exists>b k'. xTaskPriorityInherit h k = Some (b, k') \<and> good i k' \<and> steady True k k' \<and>
    uxSchedulerSuspended k' = uxSchedulerSuspended k \<and> pxCurrentTCB k' = pxCurrentTCB k"
proof -
  obtain c where c: "pxCurrentTCB k = Some c" "alive k c" using good_current [OF g] by blast
  show ?thesis
  proof (cases "\<exists>t. h = Some t \<and> uxPriority (tcbs k t) < uxPriority (tcbs k c)")
    case False
    then show ?thesis using c g by (cases h) (auto simp: xTaskPriorityInherit_def)
  next
    case True
    then obtain t where t: "h = Some t" "uxPriority (tcbs k t) < uxPriority (tcbs k c)" by blast
    let ?p = "uxPriority (tcbs k c)"
    let ?v = "if item_value k (EventItem t) AND taskEVENT_LIST_ITEM_VALUE_IN_USE = 0 then Some (configMAX_PRIORITIES - ?p) else None"
    have p: "?p < configMAX_PRIORITIES" by (rule good_priority [OF g c(2)])
    have v: "?v = Some x \<Longrightarrow> event_key x" for x using event_key_priority [OF p] by (auto split: if_splits)
    obtain k' where r: "requeue_ready t (uxPriority (tcbs k t)) (retune t (uxPriority_update (\<lambda>_. ?p)) ?v k) = Some k'"
      "good i k'" "steady True k k'" "uxSchedulerSuspended k' = uxSchedulerSuspended k" "pxCurrentTCB k' = pxCurrentTCB k"
      using good_requeue [OF g, where f = "uxPriority_update (\<lambda>_. ?p)" and t = t and v = ?v, OF _ _ _ v] p by auto
    have e: "set_priority t ?p (reset_event_value t ?p k) = retune t (uxPriority_update (\<lambda>_. ?p)) ?v k"
      by (simp add: reset_event_value_def retune_def set_priority_def upd_tcb_def set_value_def)
    have "xTaskPriorityInherit h k = Some (True, k')"
      using t c r(1) unfolding e [symmetric]
      by (auto simp: xTaskPriorityInherit_def requeue_ready_def set_priority_def list_remove_upd_tcb Let_def frame_simps
          option.map_comp comp_def split: if_splits)
    then show ?thesis using r by blast
  qed
qed

lemma good_disinherit:
  assumes g: "good i k" and t: "pxCurrentTCB k = Some t" "is_ready k t" and h: "held k t \<noteq> 0"
  shows "\<exists>b k'. xTaskPriorityDisinherit (Some t) k = Some (b, k') \<and> good i k' \<and>
    steady True (upd_tcb t (\<lambda>x. x\<lparr>uxMutexesHeld := uxMutexesHeld x - 1\<rparr>) k) k' \<and>
    uxSchedulerSuspended k' = uxSchedulerSuspended k \<and> pxCurrentTCB k' = Some t"
proof -
  let ?k = "upd_tcb t (\<lambda>x. x\<lparr>uxMutexesHeld := uxMutexesHeld x - 1\<rparr>) k"
  have g1: "good i ?k" by (rule good_upd_tcb [OF g]) simp_all
  have h0: "uxMutexesHeld (tcbs k t) \<noteq> 0" using h by (simp add: held_def)
  show ?thesis
  proof (cases "uxPriority (tcbs ?k t) \<noteq> uxBasePriority (tcbs ?k t) \<and> uxMutexesHeld (tcbs ?k t) = 0")
    case False
    then have "xTaskPriorityDisinherit (Some t) k = Some (False, ?k)"
      using t h0 by (auto simp: xTaskPriorityDisinherit_def Let_def)
    then show ?thesis using g1 t by (auto simp: frame_simps)
  next
    case True
    let ?p = "uxBasePriority (tcbs ?k t)"
    let ?f = "uxPriority_update (\<lambda>_. ?p)" and ?v = "Some (configMAX_PRIORITIES - ?p)"
    have a: "container k (StateItem t) \<noteq> None" using t(2) by (auto simp: is_ready_def)
    then have p: "?p < configMAX_PRIORITIES"
      using goodD(1) [OF g] by (auto simp: base_ok_def base_priority_def upd_tcb_def)
    have "task_ok ?k t" using goodD(2) [OF g1] by (simp add: kernel_wf_def sched_ok_def core_ok_def)
    then have ct: "container ?k (StateItem t) = Some (ReadyList (uxPriority (tcbs ?k t)))"
      using t(2) by (auto simp: task_ok_def is_ready_def frame_simps)
    obtain k' where r: "requeue_ready t (uxPriority (tcbs ?k t)) (retune t ?f ?v ?k) = Some k'"
      "good i k'" "steady True ?k k'" "uxSchedulerSuspended k' = uxSchedulerSuspended ?k" "pxCurrentTCB k' = pxCurrentTCB ?k"
      using good_requeue [OF g1, of ?f t ?v] p event_key_priority [OF p] by auto
    obtain k1 where k1: "list_remove (StateItem t) ?k = Some k1" using list_remove_some ct by blast
    have "k' = prvAddTaskToReadyList t (retune t ?f ?v k1)"
      using r(1) k1 ct by (simp add: requeue_ready_def list_remove_retune frame_simps)
    moreover have "tcbs k1 = tcbs ?k" using list_remove_frame [OF k1] by simp
    ultimately have "xTaskPriorityDisinherit (Some t) k = Some (True, k')"
      using True t h0 k1 by (simp add: xTaskPriorityDisinherit_def Let_def retune_def set_priority_def) (simp add: upd_tcb_def)
    then show ?thesis using r t by (auto simp: frame_simps)
  qed
qed

lemma good_disinherit_timeout:
  assumes g: "good i k" and t: "\<And>t. h = Some t \<Longrightarrow> alive k t \<and> held k t \<noteq> 0 \<and> pxCurrentTCB k \<noteq> Some t"
    and w: "w < configMAX_PRIORITIES"
  shows "\<exists>k'. vTaskPriorityDisinheritAfterTimeout h w k = Some k' \<and> good i k' \<and> steady True k k' \<and>
    uxSchedulerSuspended k' = uxSchedulerSuspended k \<and> pxCurrentTCB k' = pxCurrentTCB k"
proof (cases h)
  case None
  then show ?thesis using g by (simp add: vTaskPriorityDisinheritAfterTimeout_def)
next
  case (Some t)
  let ?p = "max (uxBasePriority (tcbs k t)) w"
  let ?f = "uxPriority_update (\<lambda>_. ?p)"
  let ?v = "if item_value k (EventItem t) AND taskEVENT_LIST_ITEM_VALUE_IN_USE = 0 then Some (configMAX_PRIORITIES - ?p) else None"
  have "container k (StateItem t) \<noteq> None" using assms(2) Some by (auto simp: alive_def)
  then have "uxBasePriority (tcbs k t) < configMAX_PRIORITIES"
    using goodD(1) [OF g] by (auto simp: base_ok_def base_priority_def)
  then have p: "?p < configMAX_PRIORITIES" using w by simp
  have v: "?v = Some x \<Longrightarrow> event_key x" for x using event_key_priority [OF p] by (auto split: if_splits)
  show ?thesis
  proof (cases "uxPriority (tcbs k t) \<noteq> ?p \<and> uxMutexesHeld (tcbs k t) = 1")
    case False
    then show ?thesis using g t Some by (auto simp: vTaskPriorityDisinheritAfterTimeout_def Let_def held_def)
  next
    case True
    obtain k' where r: "requeue_ready t (uxPriority (tcbs k t)) (retune t ?f ?v k) = Some k'"
      "good i k'" "steady True k k'" "uxSchedulerSuspended k' = uxSchedulerSuspended k" "pxCurrentTCB k' = pxCurrentTCB k"
      using good_requeue [OF g, where f = ?f and t = t and v = ?v, OF _ _ _ v] p by auto
    have "vTaskPriorityDisinheritAfterTimeout h w k = Some k'"
      using True r(1) t Some reset_event_value_retune [of t ?p ?f k]
      by (simp add: vTaskPriorityDisinheritAfterTimeout_def Let_def set_priority_def del: max_def)
    then show ?thesis using r by blast
  qed
qed

end
