(* ===== verification/Queue_System_Inv.thy ===== *)
theory Queue_System_Inv
  imports Queue_System Queue_Kernel
begin

text \<open>
  The invariant of a system of tasks that communicate through queues, and its preservation by
  every step. It relates the queue structures to abstract objects, so that preservation is a
  simulation of the atomic objects.
\<close>

section \<open>Queue structures and objects\<close>

fun obj_rel :: "memory \<times> Queue_t \<Rightarrow> queue_obj \<Rightarrow> bool" where
  "obj_rel (m, Q) (Items c xs) \<longleftrightarrow> holds (m, Q) xs \<and> c = unat (uxLength Q)"
| "obj_rel (m, Q) (Count c k) \<longleftrightarrow> uxItemSize Q = 0 \<and> \<not> is_mutex Q \<and> uxLength Q \<noteq> 0 \<and>
     c = unat (uxLength Q) \<and> k \<le> c \<and> uxMessagesWaiting Q = of_nat k"
| "obj_rel (m, Q) (Owner h) \<longleftrightarrow> uxItemSize Q = 0 \<and> is_mutex Q \<and> uxLength Q = 1 \<and>
     xMutexHolder Q = h \<and> uxMessagesWaiting Q = (if h = None then 1 else 0)"

lemma holds_shape: "holds (m, Q) xs \<Longrightarrow> uxItemSize Q \<noteq> 0 \<and> \<not> is_mutex Q"
  by (auto simp: holds_def storage_ok_def is_mutex_def)

lemma obj_rel_kind:
  assumes "obj_rel (m, Q) ob"
  shows "is_mutex Q \<longleftrightarrow> (\<exists>h. ob = Owner h)" "uxItemSize Q \<noteq> 0 \<longleftrightarrow> (\<exists>c xs. ob = Items c xs)"
  using assms holds_shape by (cases ob; auto)+

lemma obj_rel_count:
  assumes "obj_rel (m, Q) ob"
  shows "unat (uxMessagesWaiting Q) = obj_count ob"
proof (cases ob)
  case (Items c xs)
  then show ?thesis using assms ring.count_rep [of "(m, Q)" xs] by (simp add: ring_count_def)
next
  case (Count c k)
  then have "k < 2 ^ 32" using assms unat_word32_less [of "uxLength Q"] by simp
  then show ?thesis using Count assms by (simp add: unat_of_nat)
next
  case (Owner h)
  then show ?thesis using assms by simp
qed

lemma obj_rel_empty: "obj_rel (m, Q) ob \<Longrightarrow> 0 < uxMessagesWaiting Q \<longleftrightarrow> obj_count ob \<noteq> 0"
  by (simp flip: obj_rel_count add: word_gt_0 unat_eq_0)

lemma obj_rel_room:
  assumes r: "obj_rel (m, Q) ob" and t: "\<And>h. ob = Owner h \<Longrightarrow> h = t \<and> t \<noteq> None"
  shows "uxMessagesWaiting Q < uxLength Q \<longleftrightarrow> obj_room t ob"
proof (cases ob)
  case (Owner h)
  then show ?thesis using r t by auto
qed (use r obj_rel_count [OF r] in \<open>auto simp: word_less_nat_alt\<close>)

lemma obj_rel_overwrites:
  "obj_rel (m, Q) ob \<Longrightarrow> put_allowed Q x pos \<Longrightarrow> overwrites pos ob \<longleftrightarrow> pos = queueOVERWRITE"
  by (cases ob) (auto simp: put_allowed_def)

lemma overwrites_back [simp]: "\<not> overwrites queueSEND_TO_BACK ob"
  by (cases ob) simp_all

lemma obj_rel_lock [simp]:
  "obj_rel (m, Q\<lparr>cRxLock := l\<rparr>) ob = obj_rel (m, Q) ob" "obj_rel (m, Q\<lparr>cTxLock := l\<rparr>) ob = obj_rel (m, Q) ob"
  by (cases ob; simp add: holds_def is_mutex_def)+

definition owns :: "Queue_t \<Rightarrow> word32 \<Rightarrow> bool" where
  "owns Q a \<longleftrightarrow> uxItemSize Q \<noteq> 0 \<and> in_storage Q a"

lemma obj_rel_frame:
  assumes r: "obj_rel (m, Q) ob" and same: "\<And>a. owns Q a \<Longrightarrow> m' a = m a"
  shows "obj_rel (m', Q) ob"
proof (cases ob)
  case (Items c xs)
  then have "holds (m, Q) xs" using r by simp
  then show ?thesis using Items r holds_frame [of m Q xs m'] holds_shape [of m Q xs] same by (simp add: owns_def)
qed (use r in simp_all)

lemma obj_rel_put:
  assumes r: "obj_rel (m, Q) (Items c xs)" and p: "put_allowed Q x pos" and room: "obj_room t (Items c xs) \<or> pos = queueOVERWRITE"
  shows "obj_rel (store_item pos x (m, Q)) (obj_put pos x (Items c xs))"
proof -
  have h: "holds (m, Q) xs" "c = unat (uxLength Q)" using r by simp_all
  have "holds (store_item pos x (m, Q)) (deque_put pos x xs)"
    using ring.put_rep [OF h(1), of x pos] p room holds_shape [OF h(1)] h(2)
    by (auto simp: put_allowed_def item_fits_def ring_capacity_def)
  then show ?thesis using h(2) store_item_shape(1) [of pos x "(m, Q)"] by (cases "store_item pos x (m, Q)") simp
qed

lemma obj_rel_get:
  assumes r: "obj_rel (m, Q) (Items c xs)" and ne: "obj_count (Items c xs) \<noteq> 0"
  shows "obj_item (Items c xs) = Some (fst (fetch_item (m, Q)))"
    "obj_rel (m, snd (snd (fetch_item (m, Q)))) (obj_get t (Items c xs))"
    "peek_item (m, Q) = (fst (fetch_item (m, Q)), m, Q)"
proof -
  obtain y ys where xs: "xs = y # ys" using ne by (cases xs) auto
  have h: "holds (m, Q) (y # ys)" "c = unat (uxLength Q)" using r xs by simp_all
  note f = holds_fetch [OF h(1)]
  have "fst (snd (fetch_item (m, Q))) = m" by (simp add: fetch_item_shape)
  then show "obj_rel (m, snd (snd (fetch_item (m, Q)))) (obj_get t (Items c xs))"
    using f(2) xs h(2) fetch_item_shape(1) [of "(m, Q)"] by (metis obj_get.simps(1) obj_rel.simps(1) list.sel(3) prod.collapse snd_conv)
  show "obj_item (Items c xs) = Some (fst (fetch_item (m, Q)))" "peek_item (m, Q) = (fst (fetch_item (m, Q)), m, Q)"
    using f(1,3) xs by simp_all
qed

section \<open>The system and its objects\<close>

definition lock_ok :: "Queue_t \<Rightarrow> bool" where
  "lock_ok Q \<longleftrightarrow> - 1 \<le> cRxLock Q \<and> cRxLock Q \<le> 127 \<and> - 1 \<le> cTxLock Q \<and> cTxLock Q \<le> 127"

definition apart :: "nat \<Rightarrow> (nat \<Rightarrow> Queue_t) \<Rightarrow> bool" where
  "apart n Qs \<longleftrightarrow> (\<forall>q < n. \<forall>p < n. \<forall>a. owns (Qs q) a \<and> owns (Qs p) a \<longrightarrow> q = p)"

definition queues_rel :: "nat \<Rightarrow> (nat \<Rightarrow> queue_obj) \<Rightarrow> sys \<Rightarrow> bool" where
  "queues_rel n A s \<longleftrightarrow>
     (\<forall>q < n. obj_rel (memry s, queues s q) (A q) \<and> lock_ok (queues s q)) \<and> apart n (queues s)"

text \<open>The mutexes of a task; a task's count of held mutexes is their number.\<close>

definition owned :: "nat \<Rightarrow> (nat \<Rightarrow> queue_obj) \<Rightarrow> tid \<Rightarrow> nat set" where
  "owned n A t = {q. q < n \<and> A q = Owner (Some t)}"

definition holders_ok :: "nat \<Rightarrow> (nat \<Rightarrow> queue_obj) \<Rightarrow> kernel \<Rightarrow> bool" where
  "holders_ok n A k \<longleftrightarrow> (\<forall>t. held k t = of_nat (card (owned n A t)) \<and> (owned n A t \<noteq> {} \<longrightarrow> alive k t))"

definition sys_rel :: "tid \<Rightarrow> nat \<Rightarrow> (nat \<Rightarrow> queue_obj) \<Rightarrow> sys \<Rightarrow> bool" where
  "sys_rel i n A s \<longleftrightarrow> good i (kern s) \<and> queues_rel n A s \<and> holders_ok n A (kern s) \<and> n < 2 ^ 32"

lemma sys_relD:
  assumes "sys_rel i n A s"
  shows "good i (kern s)" "queues_rel n A s" "holders_ok n A (kern s)" "n < 2 ^ 32"
    "q < n \<Longrightarrow> obj_rel (memry s, queues s q) (A q)"
    "q < n \<Longrightarrow> lock_ok (queues s q)" "apart n (queues s)"
  using assms by (simp_all add: sys_rel_def queues_rel_def)

lemma finite_owned [simp]: "finite (owned n A t)"
  by (rule finite_subset [of _ "{..<n}"]) (auto simp: owned_def)

lemma card_owned: "n < 2 ^ 32 \<Longrightarrow> card (owned n A t) < 2 ^ 32"
  using card_mono [of "{..<n}" "owned n A t"] by (simp add: owned_def subset_eq)

lemma holders_ok_settled:
  "holders_ok n A k \<Longrightarrow> settled k k' \<Longrightarrow> held k' = held k \<Longrightarrow> holders_ok n A k'"
  by (auto simp: holders_ok_def intro: alive_settled)

lemma sys_rel_kern:
  assumes "sys_rel i n A s" "good i k" "settled (kern s) k" "held k = held (kern s)"
  shows "sys_rel i n A (s\<lparr>kern := k\<rparr>)"
  using assms holders_ok_settled by (auto simp: sys_rel_def queues_rel_def)

lemma sys_rel_steady:
  assumes "sys_rel i n A s" "good i k" "steady b (kern s) k"
  shows "sys_rel i n A (s\<lparr>kern := k\<rparr>)"
  using sys_rel_kern [OF assms(1,2) settled_steady [OF assms(3)] steadyD(1) [OF assms(3)]] .

text \<open>An update of one queue structure, and of the memory within its storage.\<close>

definition reshaped :: "Queue_t \<Rightarrow> Queue_t \<Rightarrow> bool" where
  "reshaped Q Q' \<longleftrightarrow> uxItemSize Q' = uxItemSize Q \<and> pcHead Q' = pcHead Q \<and> pcTail Q' = pcTail Q \<and> uxLength Q' = uxLength Q"

lemma reshaped_refl [simp]: "reshaped Q Q"
  by (simp add: reshaped_def)

lemma reshaped_owns: "reshaped Q Q' \<Longrightarrow> owns Q' = owns Q"
  by (simp add: reshaped_def owns_def in_storage_def fun_eq_iff)

lemma apart_cong: "(\<And>q. q < n \<Longrightarrow> owns (Q' q) = owns (Q q)) \<Longrightarrow> apart n Q \<Longrightarrow> apart n Q'"
  by (simp add: apart_def)

lemma queues_rel_update:
  assumes r: "queues_rel n A s" and q: "q < n" and ob: "obj_rel (m, Q) ob"
    and sh: "reshaped (queues s q) Q" and l: "lock_ok Q"
    and m: "\<And>a. \<not> owns (queues s q) a \<Longrightarrow> m a = memry s a"
    and s': "memry s' = m" "queues s' = (queues s)(q := Q)"
  shows "queues_rel n (A(q := ob)) s'"
proof -
  have "obj_rel (m, queues s p) (A p)" if p: "p < n" "p \<noteq> q" for p
  proof (rule obj_rel_frame)
    show "obj_rel (memry s, queues s p) (A p)" using r p by (simp add: queues_rel_def)
    fix a assume "owns (queues s p) a"
    then have "\<not> owns (queues s q) a" using r p q unfolding queues_rel_def apart_def by blast
    then show "m a = memry s a" by (rule m)
  qed
  moreover have "apart n (queues s')"
    by (rule apart_cong [of n _ "queues s"]) (use r reshaped_owns [OF sh] in \<open>simp_all add: s' queues_rel_def\<close>)
  ultimately show ?thesis using r ob l s' by (simp add: queues_rel_def)
qed

lemma sys_rel_update:
  assumes r: "sys_rel i n A s" and q: "q < n" and ob: "obj_rel (m, Q) ob"
    and sh: "reshaped (queues s q) Q" and l: "lock_ok Q"
    and m: "\<And>a. \<not> owns (queues s q) a \<Longrightarrow> m a = memry s a"
    and nm: "\<And>h. A q = Owner h \<longleftrightarrow> ob = Owner h"
    and s': "memry s' = m" "queues s' = (queues s)(q := Q)" "kern s' = kern s"
  shows "sys_rel i n (A(q := ob)) s'"
proof -
  have "owned n (A(q := ob)) t = owned n A t" for t using nm by (simp add: owned_def) (metis)
  then have "holders_ok n (A(q := ob)) (kern s')" using r s'(3) by (simp add: sys_rel_def holders_ok_def)
  then show ?thesis
    using r queues_rel_update [OF sys_relD(2) [OF r] q ob sh l m s'(1,2)] s'(3) by (simp add: sys_rel_def)
qed


section \<open>What kernel operations do to the system\<close>

text \<open>
  The running task stays the same and what it relies on stays true, or another task that is
  ready runs.
\<close>

definition retains :: "kernel \<Rightarrow> kernel \<Rightarrow> bool" where
  "retains k k' \<longleftrightarrow> (\<forall>t. (is_ready k t \<longrightarrow> is_ready k' t) \<and>
     (container k (EventItem t) = None \<longrightarrow> container k' (EventItem t) = None))"

lemma retains_steady: "steady b k k' \<Longrightarrow> retains k k'"
  by (simp add: retains_def steadyD(5,6))

lemma retains_refl [simp]: "retains k k"
  by (simp add: retains_def)

definition moved :: "kernel \<Rightarrow> kernel \<Rightarrow> bool" where
  "moved k k' \<longleftrightarrow> uxSchedulerSuspended k' = uxSchedulerSuspended k \<and>
     (pxCurrentTCB k' = pxCurrentTCB k \<and> retains k k' \<or>
      uxSchedulerSuspended k = 0 \<and> running_ready k')"

lemma moved_trans: "moved k k1 \<Longrightarrow> moved k1 k2 \<Longrightarrow> moved k k2"
  by (auto simp: moved_def retains_def running_ready_def)

definition moves :: "tid \<Rightarrow> kernel \<Rightarrow> kernel \<Rightarrow> bool" where
  "moves i k k' \<longleftrightarrow> good i k' \<and> steady (uxSchedulerSuspended k = 0) k k' \<and> moved k k'"

lemma moves_refl: "good i k \<Longrightarrow> moves i k k"
  by (simp add: moves_def moved_def)

lemma moves_trans:
  assumes "moves i k k1" "moves i k1 k2" shows "moves i k k2"
proof -
  have su: "uxSchedulerSuspended k1 = uxSchedulerSuspended k" using assms by (simp add: moves_def moved_def)
  have st: "steady (uxSchedulerSuspended k = 0) k k1" "steady (uxSchedulerSuspended k = 0) k1 k2"
    using assms su by (simp_all add: moves_def)
  show ?thesis using assms su steady_trans [OF st] moved_trans [of k k1 k2] by (simp add: moves_def)
qed

lemma moves_same:
  "good i k' \<Longrightarrow> steady (uxSchedulerSuspended k = 0) k k' \<Longrightarrow> uxSchedulerSuspended k' = uxSchedulerSuspended k \<Longrightarrow>
   pxCurrentTCB k' = pxCurrentTCB k \<Longrightarrow> moves i k k'"
  by (auto simp: moves_def moved_def intro: retains_steady)

lemma sys_rel_moves: "sys_rel i n A s \<Longrightarrow> moves i (kern s) k \<Longrightarrow> sys_rel i n A (s\<lparr>kern := k\<rparr>)"
  unfolding moves_def by (blast intro: sys_rel_steady)

lemma moves_switch:
  assumes "good i k" shows "\<exists>k'. vTaskSwitchContext k = Some k' \<and> moves i k k'"
  using good_switch [OF assms] steady_weaken retains_steady by (fastforce simp: moves_def moved_def split: if_splits)

lemma moves_tick:
  assumes "good i k" shows "\<exists>r k'. xTaskIncrementTick k = Some (r, k') \<and> moves i k k'"
  using good_tick [OF assms] steady_weaken by (metis moves_same)

lemma moves_release_waiter:
  assumes "good i (kern s)"
  shows "\<exists>b k. release_waiter e s = Some (b, s\<lparr>kern := k\<rparr>) \<and> moves i (kern s) k \<and> pxCurrentTCB k = pxCurrentTCB (kern s)"
proof (cases "is_empty (EventList e) (kern s)")
  case True
  then show ?thesis using moves_refl [OF assms] by (auto simp: release_waiter_def intro!: exI [of _ "kern s"])
next
  case False
  then show ?thesis
    using good_release [OF assms False] moves_same by (fastforce simp: release_waiter_def on_kern_bool_def)
qed

lemma moves_yield_if:
  assumes "good i (kern s)"
  shows "\<exists>k. queueYIELD_IF_USING_PREEMPTION b s = Some (s\<lparr>kern := k\<rparr>) \<and> moves i (kern s) k"
    "\<exists>k. isr_switch b s = Some (s\<lparr>kern := k\<rparr>) \<and> moves i (kern s) k"
proof -
  show "\<exists>k. isr_switch b s = Some (s\<lparr>kern := k\<rparr>) \<and> moves i (kern s) k"
    using moves_switch [OF assms] moves_refl [OF assms] by (cases b) (auto simp: isr_switch_def on_kern_def intro: exI [of _ "kern s"])
  then show "\<exists>k. queueYIELD_IF_USING_PREEMPTION b s = Some (s\<lparr>kern := k\<rparr>) \<and> moves i (kern s) k"
    by (simp add: isr_switch_def queueYIELD_IF_USING_PREEMPTION_def)
qed

lemma moves_release_counted:
  "good i (kern s) \<Longrightarrow> \<exists>k. release_counted c e s = Some (s\<lparr>kern := k\<rparr>) \<and> moves i (kern s) k \<and>
     pxCurrentTCB k = pxCurrentTCB (kern s)"
proof (induction c arbitrary: s)
  case 0
  then show ?case using moves_refl by (auto intro!: exI [of _ "kern s"])
next
  case (Suc c)
  show ?case
  proof (cases "is_empty (EventList e) (kern s)")
    case True
    then show ?thesis using moves_refl [OF Suc.prems] by (auto intro!: exI [of _ "kern s"])
  next
    case False
    obtain b k where r: "release_waiter e s = Some (b, s\<lparr>kern := k\<rparr>)" "moves i (kern s) k" "pxCurrentTCB k = pxCurrentTCB (kern s)"
      using moves_release_waiter [OF Suc.prems] by blast
    let ?k = "if b then vTaskMissedYield k else k"
    have g: "good i k" using r(2) by (simp add: moves_def)
    have m: "moves i k ?k" "pxCurrentTCB ?k = pxCurrentTCB k"
      using moves_same [OF good_missed_yield [OF g] steady_missed_yield] moves_refl [OF g] by (auto simp: vTaskMissedYield_def)
    have g': "good i (kern (s\<lparr>kern := ?k\<rparr>))" using m(1) by (simp add: moves_def)
    obtain k' where k': "release_counted c e (s\<lparr>kern := ?k\<rparr>) = Some (s\<lparr>kern := k'\<rparr>)" "moves i ?k k'" "pxCurrentTCB k' = pxCurrentTCB ?k"
      using Suc.IH [OF g'] by auto
    have "release_counted (Suc c) e s = Some (s\<lparr>kern := k'\<rparr>)"
      using False r(1) k'(1) by (cases b) simp_all
    moreover have "moves i (kern s) k'" by (rule moves_trans [OF moves_trans [OF r(2) m(1)] k'(2)])
    ultimately show ?thesis using k'(3) m(2) r(3) by auto
  qed
qed

section \<open>The invariant\<close>

fun inside :: "phase \<Rightarrow> bool" where
  "inside Lock_Queue \<longleftrightarrow> True"
| "inside Check_Time \<longleftrightarrow> True"
| "inside Check_State \<longleftrightarrow> True"
| "inside Inherit \<longleftrightarrow> True"
| "inside Block \<longleftrightarrow> True"
| "inside (Unlock_Tx e) \<longleftrightarrow> True"
| "inside (Unlock_Rx e) \<longleftrightarrow> True"
| "inside (Resume_Scheduler e) \<longleftrightarrow> True"
| "inside _ \<longleftrightarrow> False"

fun rx_locked :: "phase \<Rightarrow> bool" where
  "rx_locked Lock_Queue \<longleftrightarrow> False"
| "rx_locked (Resume_Scheduler e) \<longleftrightarrow> False"
| "rx_locked ph \<longleftrightarrow> inside ph"

fun tx_locked :: "phase \<Rightarrow> bool" where
  "tx_locked (Unlock_Rx e) \<longleftrightarrow> False"
| "tx_locked ph \<longleftrightarrow> rx_locked ph"

fun parked_at :: "phase \<Rightarrow> bool" where
  "parked_at (Unlock_Tx e) \<longleftrightarrow> e = Waited"
| "parked_at (Unlock_Rx e) \<longleftrightarrow> e = Waited"
| "parked_at (Resume_Scheduler e) \<longleftrightarrow> e = Waited"
| "parked_at Yield \<longleftrightarrow> True"
| "parked_at _ \<longleftrightarrow> False"

lemma locked_inside: "tx_locked ph \<Longrightarrow> inside ph" "rx_locked ph \<Longrightarrow> inside ph"
  by (cases ph; simp)+

definition phase_ok :: "tid \<Rightarrow> tid \<Rightarrow> queue_call \<Rightarrow> phase \<Rightarrow> call_vars \<Rightarrow> (nat \<Rightarrow> Queue_t) \<Rightarrow> bool" where
  "phase_ok i t call ph v Q \<longleftrightarrow>
     (t = i \<longrightarrow> ticks_left v = 0 \<and> ph \<in> {Enter, Attempt}) \<and>
     (\<forall>q x pos. call = Send_Call q x pos \<and> is_mutex (Q q) \<longrightarrow> ph \<in> {Enter, Attempt}) \<and>
     (inherited v \<or> ph \<in> {Inherit, Disinherit} \<longrightarrow> (\<exists>q. call = Take_Call q \<and> is_mutex (Q q))) \<and>
     (ph \<in> {Suspend_Scheduler, Lock_Queue, Check_Time, Check_State, Inherit, Block} \<longrightarrow>
        ticks_left v \<noteq> 0 \<and> entry_time v \<noteq> None)"

text \<open>The running task has a call on \<open>q\<close> in progress, at a program point of \<open>P\<close>.\<close>

definition running_at :: "conf \<Rightarrow> (nat \<Rightarrow> bool) \<Rightarrow> (phase \<Rightarrow> bool) \<Rightarrow> bool" where
  "running_at c q P \<longleftrightarrow> (\<exists>t call ph v. pxCurrentTCB (kern (system c)) = Some t \<and>
     calls c t = Some (call, ph, v) \<and> q (call_queue call) \<and> P ph)"

definition call_rel :: "tid \<Rightarrow> nat \<Rightarrow> sys \<Rightarrow> tid \<Rightarrow> queue_call \<times> phase \<times> call_vars \<Rightarrow> bool" where
  "call_rel i n s t = (\<lambda>(call, ph, v). call_queue call < n \<and> call_allowed t call (queues s) \<and>
     phase_ok i t call ph v (queues s) \<and> (inside ph \<longrightarrow> pxCurrentTCB (kern s) = Some t))"

definition conf_rel :: "tid \<Rightarrow> nat \<Rightarrow> (nat \<Rightarrow> queue_obj) \<Rightarrow> conf \<Rightarrow> bool" where
  "conf_rel i n A c \<longleftrightarrow> sys_rel i n A (system c) \<and>
     (\<forall>t x. calls c t = Some x \<longrightarrow> call_rel i n (system c) t x) \<and>
     uxSchedulerSuspended (kern (system c)) = (if running_at c (\<lambda>_. True) inside then 1 else 0) \<and>
     (running_at c (\<lambda>_. True) parked_at \<or> (\<forall>t. pxCurrentTCB (kern (system c)) = Some t \<longrightarrow>
        is_ready (kern (system c)) t \<and> container (kern (system c)) (EventItem t) = None)) \<and>
     (\<forall>q < n. (cTxLock (queues (system c) q) \<noteq> queueUNLOCKED \<longrightarrow> running_at c (\<lambda>p. p = q) tx_locked) \<and>
        (cRxLock (queues (system c) q) \<noteq> queueUNLOCKED \<longrightarrow> running_at c (\<lambda>p. p = q) rx_locked))"


lemma conf_relD:
  assumes "conf_rel i n A c"
  shows "sys_rel i n A (system c)" "calls c t = Some x \<Longrightarrow> call_rel i n (system c) t x"
    "uxSchedulerSuspended (kern (system c)) = (if running_at c (\<lambda>_. True) inside then 1 else 0)"
    "\<not> running_at c (\<lambda>_. True) parked_at \<Longrightarrow> pxCurrentTCB (kern (system c)) = Some t \<Longrightarrow>
      is_ready (kern (system c)) t \<and> container (kern (system c)) (EventItem t) = None"
    "q < n \<Longrightarrow> cTxLock (queues (system c) q) \<noteq> queueUNLOCKED \<Longrightarrow> running_at c (\<lambda>p. p = q) tx_locked"
    "q < n \<Longrightarrow> cRxLock (queues (system c) q) \<noteq> queueUNLOCKED \<Longrightarrow> running_at c (\<lambda>p. p = q) rx_locked"
  using assms unfolding conf_rel_def by blast+

lemma reshaped_mutex: "reshaped Q Q' \<Longrightarrow> is_mutex Q' = is_mutex Q"
  by (simp add: reshaped_def is_mutex_def)

lemma phase_ok_cong:
  assumes "is_mutex (Q' (call_queue call)) = is_mutex (Q (call_queue call))"
  shows "phase_ok i t call ph v Q' = phase_ok i t call ph v Q"
  using assms by (cases call) (auto simp: phase_ok_def)

lemma call_allowed_cong:
  assumes "reshaped (Q (call_queue call)) (Q' (call_queue call))"
    "xMutexHolder (Q' (call_queue call)) = Some t \<longleftrightarrow> xMutexHolder (Q (call_queue call)) = Some t"
  shows "call_allowed t call Q' = call_allowed t call Q"
  using assms reshaped_mutex [OF assms(1)] by (cases call) (auto simp: put_allowed_def reshaped_def)

text \<open>The calls of the other tasks do not notice a step.\<close>

lemma call_rel_frame:
  assumes r: "call_rel i n s t (call, ph, v)"
    and sh: "\<And>q. q < n \<Longrightarrow> reshaped (queues s q) (queues s' q)"
    and h: "\<And>q. q < n \<Longrightarrow> xMutexHolder (queues s' q) = Some t \<longleftrightarrow> xMutexHolder (queues s q) = Some t"
    and c: "inside ph \<Longrightarrow> pxCurrentTCB (kern s) = Some t \<Longrightarrow> pxCurrentTCB (kern s') = Some t"
  shows "call_rel i n s' t (call, ph, v)"
proof -
  let ?q = "call_queue call"
  have q: "?q < n" using r by (simp add: call_rel_def)
  show ?thesis
    using r c phase_ok_cong [where call = call and Q = "queues s" and Q' = "queues s'", OF reshaped_mutex [OF sh [OF q]], of i t ph v]
      call_allowed_cong [where call = call and Q = "queues s" and Q' = "queues s'", OF sh [OF q] h [OF q]] by (simp add: call_rel_def)
qed

text \<open>A step that is no step of a call.\<close>

lemma conf_env:
  assumes c: "conf_rel i n A c" and s': "sys_rel i n A' s'"
    and sh: "\<And>q. q < n \<Longrightarrow> reshaped (queues (system c) q) (queues s' q) \<and>
      xMutexHolder (queues s' q) = xMutexHolder (queues (system c) q) \<and>
      (cTxLock (queues (system c) q) = queueUNLOCKED \<longrightarrow> cTxLock (queues s' q) = queueUNLOCKED) \<and>
      (cRxLock (queues (system c) q) = queueUNLOCKED \<longrightarrow> cRxLock (queues s' q) = queueUNLOCKED)"
    and m: "moved (kern (system c)) (kern s')"
  shows "conf_rel i n A' (on_system c s')"
proof -
  let ?k = "kern (system c)" and ?c = "on_system c s'"
  have sus: "uxSchedulerSuspended (kern s') = uxSchedulerSuspended ?k" using m by (simp add: moved_def)
  have calls: "call_rel i n s' t x" if x: "calls c t = Some x" for t x
  proof -
    obtain call ph v where [simp]: "x = (call, ph, v)" by (cases x)
    have r: "call_rel i n (system c) t (call, ph, v)" using conf_relD(2) [OF c x] by simp
    have "pxCurrentTCB (kern s') = Some t" if "inside ph" "pxCurrentTCB ?k = Some t"
    proof -
      have "uxSchedulerSuspended ?k \<noteq> 0" using that x conf_relD(3) [OF c] by (auto simp: running_at_def)
      then show ?thesis using m that by (auto simp: moved_def)
    qed
    then have "call_rel i n s' t (call, ph, v)" using sh by (intro call_rel_frame [OF r]) auto
    then show ?thesis by simp
  qed
  show ?thesis
  proof (cases "pxCurrentTCB (kern s') = pxCurrentTCB ?k \<and> retains ?k (kern s')")
    case True
    then have ra: "running_at ?c = running_at c" by (simp add: running_at_def on_system_def fun_eq_iff)
    have free: "is_ready (kern s') t \<and> container (kern s') (EventItem t) = None"
      if "is_ready ?k t \<and> container ?k (EventItem t) = None" for t
      using that True by (simp add: retains_def)
    have "running_at c (\<lambda>_. True) parked_at \<or> (\<forall>t. pxCurrentTCB (kern s') = Some t \<longrightarrow>
        is_ready (kern s') t \<and> container (kern s') (EventItem t) = None)"
      using conf_relD(4) [OF c] True free by metis
    moreover have "(cTxLock (queues s' q) \<noteq> queueUNLOCKED \<longrightarrow> running_at c (\<lambda>p. p = q) tx_locked) \<and>
        (cRxLock (queues s' q) \<noteq> queueUNLOCKED \<longrightarrow> running_at c (\<lambda>p. p = q) rx_locked)" if "q < n" for q
      using conf_relD(5,6) [OF c that] sh [OF that] by blast
    ultimately show ?thesis
      unfolding conf_rel_def ra using s' calls sus conf_relD(3) [OF c] by (simp add: on_system_def)
  next
    case False
    then have z: "uxSchedulerSuspended ?k = 0" "running_ready (kern s')" using m by (auto simp: moved_def)
    have out: "\<not> running_at c P Q" if "\<And>ph. Q ph \<Longrightarrow> inside ph" for P Q
      using conf_relD(3) [OF c] z(1) that by (auto simp: running_at_def split: if_splits)
    have out': "\<not> running_at ?c P inside" for P
    proof
      assume "running_at ?c P inside"
      then obtain t call ph v where t: "pxCurrentTCB (kern s') = Some t" "calls c t = Some (call, ph, v)" "inside ph"
        by (auto simp: running_at_def on_system_def)
      have "pxCurrentTCB ?k = Some t" using conf_relD(2) [OF c t(2)] t(3) by (simp add: call_rel_def)
      then show False using out [of inside "\<lambda>_. True"] t by (auto simp: running_at_def)
    qed
    have unl: "cTxLock (queues s' q) = queueUNLOCKED \<and> cRxLock (queues s' q) = queueUNLOCKED" if q: "q < n" for q
      using conf_relD(5,6) [OF c q] sh [OF q] out [of tx_locked] out [of rx_locked] locked_inside by blast
    have g: "good i (kern s')" by (rule sys_relD(1) [OF s'])
    show ?thesis
      unfolding conf_rel_def using s' calls sus z unl out' good_ready_free [OF g]
      by (auto simp: on_system_def running_ready_def)
  qed
qed

text \<open>A step of the running task's call.\<close>

definition goes_on :: "conf \<Rightarrow> tid \<Rightarrow> queue_call \<Rightarrow> (phase \<times> call_vars) option \<Rightarrow> sys \<Rightarrow> conf" where
  "goes_on c t call new s = c\<lparr>system := s, calls := (calls c)(t := map_option (Pair call) new)\<rparr>"

lemma conf_own:
  assumes c: "conf_rel i n A c" and t: "pxCurrentTCB (kern (system c)) = Some t"
    and s': "sys_rel i n A' s'"
    and sh: "\<And>q. q < n \<Longrightarrow> reshaped (queues (system c) q) (queues s' q)"
    and h: "\<And>q u. q < n \<Longrightarrow> u \<noteq> t \<Longrightarrow> xMutexHolder (queues s' q) = Some u \<longleftrightarrow> xMutexHolder (queues (system c) q) = Some u"
    and new: "\<And>ph v. new = Some (ph, v) \<Longrightarrow> call_rel i n s' t (call, ph, v)"
    and cur: "pxCurrentTCB (kern s') = Some t \<and>
        (uxSchedulerSuspended (kern s') = (case new of None \<Rightarrow> 0 | Some (ph, v) \<Rightarrow> if inside ph then 1 else 0)) \<and>
        ((case new of None \<Rightarrow> False | Some (ph, v) \<Rightarrow> parked_at ph) \<or>
         is_ready (kern s') t \<and> container (kern s') (EventItem t) = None) \<or>
      (case new of None \<Rightarrow> True | Some (ph, v) \<Rightarrow> \<not> inside ph) \<and> uxSchedulerSuspended (kern s') = 0 \<and> running_ready (kern s')"
    and lt: "\<And>q. q < n \<Longrightarrow> cTxLock (queues s' q) \<noteq> queueUNLOCKED \<Longrightarrow>
        (case new of None \<Rightarrow> False | Some (ph, v) \<Rightarrow> tx_locked ph \<and> q = call_queue call)"
    and lr: "\<And>q. q < n \<Longrightarrow> cRxLock (queues s' q) \<noteq> queueUNLOCKED \<Longrightarrow>
        (case new of None \<Rightarrow> False | Some (ph, v) \<Rightarrow> rx_locked ph \<and> q = call_queue call)"
  shows "conf_rel i n A' (goes_on c t call new s')"
proof -
  let ?c = "goes_on c t call new s'" and ?k = "kern s'"
  have others: "\<not> inside ph" if "u \<noteq> t" "calls c u = Some (call', ph, v)" for u call' ph v
    using conf_relD(2) [OF c that(2)] that(1) t by (auto simp: call_rel_def)
  have calls: "call_rel i n s' u x" if x: "calls ?c u = Some x" for u x
  proof (cases "u = t")
    case True
    then show ?thesis using x new by (auto simp: goes_on_def)
  next
    case False
    obtain call' ph v where [simp]: "x = (call', ph, v)" by (cases x)
    have x': "calls c u = Some (call', ph, v)" using x False by (simp add: goes_on_def)
    have r: "call_rel i n (system c) u (call', ph, v)" using conf_relD(2) [OF c x'] by simp
    have "call_rel i n s' u (call', ph, v)"
      using sh h False t by (intro call_rel_frame [OF r]) auto
    then show ?thesis by simp
  qed
  have ra: "running_at ?c P Q \<longleftrightarrow> (case new of None \<Rightarrow> False | Some (ph, v) \<Rightarrow> P (call_queue call) \<and> Q ph)"
    if "pxCurrentTCB ?k = Some t" for P Q
    using that by (auto simp: running_at_def goes_on_def split: option.splits)
  have ra': "\<not> running_at ?c (\<lambda>_. True) inside" if "(case new of None \<Rightarrow> True | Some (ph, v) \<Rightarrow> \<not> inside ph)"
    using that others by (auto simp: running_at_def goes_on_def split: if_splits option.splits)
  have sys: "system ?c = s'" by (simp add: goes_on_def)
  show ?thesis
  proof (cases "pxCurrentTCB ?k = Some t \<and> (uxSchedulerSuspended ?k = (case new of None \<Rightarrow> 0 | Some (ph, v) \<Rightarrow> if inside ph then 1 else 0)) \<and>
        ((case new of None \<Rightarrow> False | Some (ph, v) \<Rightarrow> parked_at ph) \<or> is_ready ?k t \<and> container ?k (EventItem t) = None)")
    case True
    then have k: "pxCurrentTCB ?k = Some t" by blast
    have "(cTxLock (queues s' q) \<noteq> queueUNLOCKED \<longrightarrow> running_at ?c (\<lambda>p. p = q) tx_locked) \<and>
        (cRxLock (queues s' q) \<noteq> queueUNLOCKED \<longrightarrow> running_at ?c (\<lambda>p. p = q) rx_locked)" if "q < n" for q
      unfolding ra [OF k] using lt [OF that] lr [OF that] by (cases new) auto
    then show ?thesis
      unfolding conf_rel_def sys using s' calls True ra [OF k] by (auto split: option.splits)
  next
    case False
    then have z: "(case new of None \<Rightarrow> True | Some (ph, v) \<Rightarrow> \<not> inside ph)" "uxSchedulerSuspended ?k = 0" "running_ready ?k"
      using cur by blast+
    have "cTxLock (queues s' q) = queueUNLOCKED \<and> cRxLock (queues s' q) = queueUNLOCKED" if "q < n" for q
      using lt [OF that] lr [OF that] z(1) locked_inside by (cases new) fastforce+
    then show ?thesis
      unfolding conf_rel_def sys using s' calls z(2,3) ra' [OF z(1)] good_ready_free [OF sys_relD(1) [OF s']]
      by (auto simp: running_ready_def)
  qed
qed

end
