(* ===== verification/Queue_System_Steps.thy ===== *)
theory Queue_System_Steps
  imports Queue_System_Inv
begin

text \<open>
  Every step of the system, at every program point of every call, and every interrupt: no
  assertion fails, the invariant is kept, and the outcome is one of the atomic objects.
\<close>

section \<open>Steps of the queue structures\<close>

text \<open>Shapes, holders and which queues are locked stay.\<close>

definition kept :: "nat \<Rightarrow> sys \<Rightarrow> sys \<Rightarrow> bool" where
  "kept n s s' \<longleftrightarrow> (\<forall>q < n. reshaped (queues s q) (queues s' q) \<and> xMutexHolder (queues s' q) = xMutexHolder (queues s q) \<and>
     (cTxLock (queues s q) = queueUNLOCKED \<longleftrightarrow> cTxLock (queues s' q) = queueUNLOCKED) \<and>
     (cRxLock (queues s q) = queueUNLOCKED \<longleftrightarrow> cRxLock (queues s' q) = queueUNLOCKED))"

lemma kept_same: "queues s' = queues s \<Longrightarrow> kept n s s'"
  by (simp add: kept_def)

lemma keptD: "kept n s s' \<Longrightarrow> q < n \<Longrightarrow> reshaped (queues s q) (queues s' q) \<and> xMutexHolder (queues s' q) = xMutexHolder (queues s q)"
  by (simp add: kept_def)

lemma kept_trans: "kept n s s1 \<Longrightarrow> kept n s1 s2 \<Longrightarrow> kept n s s2"
  by (simp add: kept_def reshaped_def)

lemma kept_upd:
  assumes "queues s' = (queues s)(q := Q)" "reshaped (queues s q) Q" "xMutexHolder Q = xMutexHolder (queues s q)"
    "cTxLock Q = cTxLock (queues s q)" "cRxLock Q = cRxLock (queues s q)"
  shows "kept n s s'"
  using assms by (simp add: kept_def)

lemma lock_ok_cong: "cTxLock Q = cTxLock R \<Longrightarrow> cRxLock Q = cRxLock R \<Longrightarrow> lock_ok Q = lock_ok R"
  by (simp add: lock_ok_def)

lemma conf_env_kept:
  assumes "conf_rel i n A c" "sys_rel i n A' s'" "kept n (system c) s'" "moved (kern (system c)) (kern s')"
  shows "conf_rel i n A' (on_system c s')"
  using assms(3) by (intro conf_env [OF assms(1,2) _ assms(4)]) (simp add: kept_def)

text \<open>Putting an item into a queue or counting a semaphore up.\<close>

lemma copy_to_ok:
  assumes r: "sys_rel i n A s" and q: "q < n" and nm: "\<not> is_mutex (queues s q)"
    and p: "put_allowed (queues s q) x pos" and room: "obj_room t (A q) \<or> pos = queueOVERWRITE"
  shows "\<exists>s'. prvCopyDataToQueue q x pos s = Some (False, s') \<and> sys_rel i n (A(q := obj_put pos x (A q))) s' \<and>
    kern s' = kern s \<and> kept n s s' \<and> cTxLock (queues s' q) = cTxLock (queues s q) \<and>
    cRxLock (queues s' q) = cRxLock (queues s q) \<and> queues s' = (queues s)(q := queues s' q)"
proof (cases "uxItemSize (queues s q) = 0")
  case False
  let ?m = "fst (store_item pos x (memry s, queues s q))" and ?Q = "snd (store_item pos x (memry s, queues s q))"
  let ?s = "s\<lparr>queues := (queues s)(q := ?Q), memry := ?m\<rparr>"
  note ob = sys_relD(5) [OF r q]
  obtain c xs where A: "A q = Items c xs" using obj_rel_kind(2) [OF ob] False by blast
  have o': "obj_rel (?m, ?Q) (obj_put pos x (A q))"
    using obj_rel_put [of "memry s" "queues s q" c xs x pos] ob p room by (cases t) (auto simp: A)
  have sh: "reshaped (queues s q) ?Q" by (simp add: reshaped_def store_item_shape)
  have l: "lock_ok ?Q" using sys_relD(6) [OF r q] lock_ok_cong [of ?Q "queues s q"] by (simp add: store_item_shape)
  have fr: "?m a = memry s a" if "\<not> owns (queues s q) a" for a
    using store_item_frame [of "memry s" "queues s q" xs x a pos] ob A p False that by (auto simp: owns_def put_allowed_def)
  have "sys_rel i n (A(q := obj_put pos x (A q))) ?s"
    by (rule sys_rel_update [OF r q o' sh l fr]) (simp_all add: A)
  moreover have "prvCopyDataToQueue q x pos s = Some (False, ?s)"
    using False by (simp add: prvCopyDataToQueue_def Let_def split_beta upd_queue_def)
  moreover have "kept n s ?s" by (rule kept_upd [where q = q and Q = ?Q]) (simp_all add: sh store_item_shape)
  ultimately show ?thesis by (auto simp: store_item_shape)
next
  case True
  let ?Q = "(queues s q)\<lparr>uxMessagesWaiting := uxMessagesWaiting (queues s q) + 1\<rparr>"
  let ?s = "s\<lparr>queues := (queues s)(q := ?Q)\<rparr>"
  note ob = sys_relD(5) [OF r q]
  obtain c k where A: "A q = Count c k"
    using obj_rel_kind [OF ob] True nm by (cases "A q") auto
  have room': "k < c" using room p True by (auto simp: A put_allowed_def)
  have o': "obj_rel (memry s, ?Q) (obj_put pos x (A q))" using ob room' by (simp add: A is_mutex_def)
  have sh: "reshaped (queues s q) ?Q" by (simp add: reshaped_def)
  have l: "lock_ok ?Q" using sys_relD(6) [OF r q] lock_ok_cong [of ?Q "queues s q"] by simp
  have "sys_rel i n (A(q := obj_put pos x (A q))) ?s"
    by (rule sys_rel_update [OF r q o' sh l]) (simp_all add: A)
  moreover have "prvCopyDataToQueue q x pos s = Some (False, ?s)"
    using True nm by (simp add: prvCopyDataToQueue_def Let_def upd_queue_def)
  moreover have "kept n s ?s" by (rule kept_upd [where q = q and Q = ?Q]) (simp_all add: sh)
  ultimately show ?thesis by auto
qed

text \<open>Taking an item out of a queue or counting a semaphore down, and looking at the first item.\<close>

lemma fetch_ok:
  assumes r: "sys_rel i n A s" and q: "q < n" and nm: "\<not> is_mutex (queues s q)" and ne: "obj_count (A q) \<noteq> 0"
    and f: "fetch_item (memry s, queues s q) = (x, m, Q)"
  shows "sys_rel i n (A(q := obj_get t (A q))) (upd_queue q (\<lambda>_. Q) s)" "kept n s (upd_queue q (\<lambda>_. Q) s)"
    "learned Get Q True x = (True, obj_item (A q))" "cRxLock Q = cRxLock (queues s q)" "uxItemSize Q = uxItemSize (queues s q)"
proof -
  note ob = sys_relD(5) [OF r q]
  note fs = fetch_item_shape [of "(memry s, queues s q)", unfolded f snd_conv fst_conv]
  have sh: "reshaped (queues s q) Q" using fs by (simp add: reshaped_def)
  have l: "lock_ok Q" using sys_relD(6) [OF r q] lock_ok_cong [of Q "queues s q"] fs by simp
  have o': "obj_rel (memry s, Q) (obj_get t (A q)) \<and> learned Get Q True x = (True, obj_item (A q))"
  proof (cases "A q")
    case (Items c xs)
    have "obj_rel (memry s, queues s q) (Items c xs)" "obj_count (Items c xs) \<noteq> 0" using ob ne Items by simp_all
    from obj_rel_get [OF this, unfolded f fst_conv snd_conv] show ?thesis
      using Items fs(2) obj_rel_kind(2) [OF ob] by auto
  next
    case (Count c k)
    have z: "uxItemSize (queues s q) = 0" using ob Count by simp
    obtain j where j: "k = Suc j" using ne Count by (cases k) simp_all
    have "Q = (queues s q)\<lparr>uxMessagesWaiting := uxMessagesWaiting (queues s q) - 1\<rparr>"
      using f z by (auto simp: fetch_item_def prvCopyDataFromQueue_def)
    then have "Q = (queues s q)\<lparr>uxMessagesWaiting := of_nat j\<rparr>" using ob Count j by simp
    then show ?thesis using ob z by (simp add: is_mutex_def Count j)
  next
    case (Owner h)
    then show ?thesis using ob nm by simp
  qed
  show "sys_rel i n (A(q := obj_get t (A q))) (upd_queue q (\<lambda>_. Q) s)"
  proof (rule sys_rel_update [OF r q conjunct1 [OF o'] sh l])
    show "A q = Owner h \<longleftrightarrow> obj_get t (A q) = Owner h" for h
      using obj_rel_kind(1) [OF ob] nm by (cases "A q") auto
  qed (simp_all add: upd_queue_def)
  show "kept n s (upd_queue q (\<lambda>_. Q) s)" by (rule kept_upd [where q = q and Q = Q]) (simp_all add: upd_queue_def sh fs)
  show "learned Get Q True x = (True, obj_item (A q))" "cRxLock Q = cRxLock (queues s q)" "uxItemSize Q = uxItemSize (queues s q)"
    using o' fs by auto
qed

lemma peek_ok:
  assumes r: "sys_rel i n A s" and q: "q < n" and nm: "\<not> is_mutex (queues s q)" and ne: "obj_count (A q) \<noteq> 0"
  shows "\<exists>x. peek_item (memry s, queues s q) = (x, memry s, queues s q) \<and>
    learned Peek (queues s q) True x = (True, obj_item (A q))"
proof (cases "A q")
  case (Items c xs)
  note ob = sys_relD(5) [OF r q]
  have "obj_rel (memry s, queues s q) (Items c xs)" "obj_count (Items c xs) \<noteq> 0" using ob ne Items by simp_all
  from obj_rel_get(1,3) [OF this] show ?thesis using Items obj_rel_kind(2) [OF ob] by auto
next
  case (Count c k)
  then have z: "uxItemSize (queues s q) = 0" using sys_relD(5) [OF r q] by simp
  then show ?thesis using Count by (simp add: peek_item_def prvCopyDataFromQueue_def)
next
  case (Owner h)
  then show ?thesis using sys_relD(5) [OF r q] nm by simp
qed

text \<open>Setting a lock within its range.\<close>

lemma sys_rel_locks:
  assumes r: "sys_rel i n A s" and q: "q < n" and l: "lock_ok ((queues s q)\<lparr>cRxLock := a, cTxLock := b\<rparr>)"
  shows "sys_rel i n A (upd_queue q (\<lambda>Q. Q\<lparr>cRxLock := a, cTxLock := b\<rparr>) s)"
proof -
  have "sys_rel i n (A(q := A q)) (upd_queue q (\<lambda>Q. Q\<lparr>cRxLock := a, cTxLock := b\<rparr>) s)"
    by (rule sys_rel_update [OF r q _ _ l]) (use sys_relD(5) [OF r q] in \<open>simp_all add: upd_queue_def reshaped_def\<close>)
  then show ?thesis by simp
qed


section \<open>Interrupts and the scheduler\<close>

definition outcome_ok :: "outcome option \<Rightarrow> (nat \<Rightarrow> queue_obj) \<Rightarrow> (nat \<Rightarrow> queue_obj) \<Rightarrow> bool" where
  "outcome_ok out A A' \<longleftrightarrow> spec_run (case out of None \<Rightarrow> [] | Some x \<Rightarrow> [x]) A = Some A'"

lemma outcome_none [simp]: "outcome_ok None A A' \<longleftrightarrow> A' = A"
  by (auto simp: outcome_ok_def)

lemma outcome_some: "spec_step t opn (A q) = (r, ob) \<Longrightarrow> outcome_ok (Some (t, q, opn, r)) A (A(q := ob))"
  by (simp add: outcome_ok_def)

definition step_ok :: "tid \<Rightarrow> nat \<Rightarrow> (nat \<Rightarrow> queue_obj) \<Rightarrow> (outcome option \<times> conf) option \<Rightarrow> bool" where
  "step_ok i n A res \<longleftrightarrow> (\<exists>out c A'. res = Some (out, c) \<and> conf_rel i n A' c \<and> outcome_ok out A A')"

lemma step_okI: "res = Some (out, c) \<Longrightarrow> conf_rel i n A' c \<Longrightarrow> outcome_ok out A A' \<Longrightarrow> step_ok i n A res"
  by (auto simp: step_ok_def)

text \<open>A kernel step of the environment.\<close>

lemma conf_env_moves:
  assumes c: "conf_rel i n A c" and m: "moves i (kern (system c)) k"
  shows "conf_rel i n A (on_system c ((system c)\<lparr>kern := k\<rparr>))"
  by (rule conf_env_kept [OF c sys_rel_moves [OF conf_relD(1) [OF c] m] kept_same]) (use m in \<open>simp_all add: moves_def\<close>)

lemma tick_ok: "conf_rel i n A c \<Longrightarrow> step_ok i n A (sys_step Tick c)"
proof -
  assume c: "conf_rel i n A c"
  have g: "good i (kern (system c))" by (rule sys_relD(1) [OF conf_relD(1) [OF c]])
  obtain r k where k: "xTaskIncrementTick (kern (system c)) = Some (r, k)" "moves i (kern (system c)) k"
    using moves_tick [OF g] by blast
  have g': "good i (kern ((system c)\<lparr>kern := k\<rparr>))" using k(2) by (simp add: moves_def)
  obtain k' where k': "isr_switch r ((system c)\<lparr>kern := k\<rparr>) = Some ((system c)\<lparr>kern := k'\<rparr>)" "moves i k k'"
    using moves_yield_if(2) [OF g', of r] by auto
  show ?thesis
    by (rule step_okI [OF _ conf_env_moves [OF c moves_trans [OF k(2) k'(2)]], of _ None])
      (use k(1) k'(1) in \<open>simp_all add: on_kern_bool_def\<close>)
qed

lemma reschedule_ok: "conf_rel i n A c \<Longrightarrow> step_ok i n A (sys_step Reschedule c)"
proof -
  assume c: "conf_rel i n A c"
  obtain k where k: "vTaskSwitchContext (kern (system c)) = Some k" "moves i (kern (system c)) k"
    using moves_switch [OF sys_relD(1) [OF conf_relD(1) [OF c]]] by blast
  show ?thesis
    by (rule step_okI [OF _ conf_env_moves [OF c k(2)], of _ None]) (use k(1) in \<open>simp_all add: on_kern_def\<close>)
qed

lemma idle_call_running:
  assumes c: "conf_rel i n A c" and t: "pxCurrentTCB (kern (system c)) = Some t" "calls c t = None"
  shows "uxSchedulerSuspended (kern (system c)) = 0" "is_ready (kern (system c)) t"
    "container (kern (system c)) (EventItem t) = None"
proof -
  have "\<not> running_at c P Q" for P Q using t by (simp add: running_at_def)
  then show "uxSchedulerSuspended (kern (system c)) = 0" "is_ready (kern (system c)) t"
    "container (kern (system c)) (EventItem t) = None"
    using conf_relD(3,4) [OF c] t by auto
qed

lemma sleep_ok:
  assumes c: "conf_rel i n A c" and p: "permitted i n (Sleep d) c"
  shows "step_ok i n A (sys_step (Sleep d) c)"
proof -
  obtain t where t: "pxCurrentTCB (kern (system c)) = Some t" "calls c t = None" "t \<noteq> i"
    using p by (auto split: option.splits)
  note r = conf_relD(1) [OF c]
  note z = idle_call_running(1) [OF c t(1,2)]
  obtain k where k: "vTaskDelay d (kern (system c)) = Some k" "good i k" "settled (kern (system c)) k"
    "held k = held (kern (system c))" "uxSchedulerSuspended k = 0" "running_ready k"
    using good_delay [OF sys_relD(1) [OF r] z t(1,3)] by blast
  have "conf_rel i n A (on_system c ((system c)\<lparr>kern := k\<rparr>))"
    by (rule conf_env_kept [OF c sys_rel_kern [OF r k(2-4)] kept_same]) (use k z in \<open>simp_all add: moved_def\<close>)
  then show ?thesis
    by (rule step_okI [rotated, where out = None]) (use k(1) in \<open>simp_all add: on_kern_def\<close>)
qed

text \<open>An interrupt wakes a waiting task, or leaves a note in the lock count.\<close>

lemma few_tasks: "good i k \<Longrightarrow> uint (uxCurrentNumberOfTasks k) \<le> 127"
  by (simp add: good_def base_ok_def word_le_def)

lemma isr_wake_tx:
  assumes r: "sys_rel i n A s" and q: "q < n"
  shows "\<exists>w s'. (if cTxLock (queues s q) = queueUNLOCKED then release_waiter e s
      else map_option (Pair False) (prvIncrementQueueTxLock q (cTxLock (queues s q)) s)) = Some (w, s') \<and>
    sys_rel i n A s' \<and> kept n s s' \<and> moves i (kern s) (kern s')"
proof -
  have g: "good i (kern s)" by (rule sys_relD(1) [OF r])
  have lk: "lock_ok (queues s q)" by (rule sys_relD(6) [OF r q])
  let ?l = "cTxLock (queues s q)"
  consider (free) "?l = queueUNLOCKED" | (full) "?l \<noteq> queueUNLOCKED" "\<not> ?l < uint (uxCurrentNumberOfTasks (kern s))"
    | (noted) "?l \<noteq> queueUNLOCKED" "?l < uint (uxCurrentNumberOfTasks (kern s))" by blast
  then show ?thesis
  proof cases
    case free
    then show ?thesis
      using moves_release_waiter [OF g, of e] sys_rel_moves [OF r] by (fastforce intro: kept_same)
  next
    case full
    then show ?thesis using r moves_refl [OF g] by (auto simp: prvIncrementQueueTxLock_def intro: kept_same)
  next
    case noted
    let ?s = "upd_queue q (\<lambda>Q. Q\<lparr>cRxLock := cRxLock (queues s q), cTxLock := ?l + 1\<rparr>) s"
    have l: "?l < 127" using noted(2) few_tasks [OF g] by simp
    have "upd_queue q (cTxLock_update (\<lambda>_. ?l + 1)) s = ?s" by (simp add: upd_queue_def)
    moreover have "sys_rel i n A ?s" by (rule sys_rel_locks [OF r q]) (use lk l in \<open>simp add: lock_ok_def\<close>)
    moreover have "kept n s ?s" using lk noted(1) by (auto simp: kept_def upd_queue_def reshaped_def lock_ok_def)
    moreover have "moves i (kern s) (kern ?s)" using moves_refl [OF g] by (simp add: upd_queue_def)
    ultimately show ?thesis using noted l by (auto simp: prvIncrementQueueTxLock_def)
  qed
qed

lemma isr_wake_rx:
  assumes r: "sys_rel i n A s" and q: "q < n"
  shows "\<exists>w s'. (if cRxLock (queues s q) = queueUNLOCKED then release_waiter e s
      else map_option (Pair False) (prvIncrementQueueRxLock q (cRxLock (queues s q)) s)) = Some (w, s') \<and>
    sys_rel i n A s' \<and> kept n s s' \<and> moves i (kern s) (kern s')"
proof -
  have g: "good i (kern s)" by (rule sys_relD(1) [OF r])
  have lk: "lock_ok (queues s q)" by (rule sys_relD(6) [OF r q])
  let ?l = "cRxLock (queues s q)"
  consider (free) "?l = queueUNLOCKED" | (full) "?l \<noteq> queueUNLOCKED" "\<not> ?l < uint (uxCurrentNumberOfTasks (kern s))"
    | (noted) "?l \<noteq> queueUNLOCKED" "?l < uint (uxCurrentNumberOfTasks (kern s))" by blast
  then show ?thesis
  proof cases
    case free
    then show ?thesis
      using moves_release_waiter [OF g, of e] sys_rel_moves [OF r] by (fastforce intro: kept_same)
  next
    case full
    then show ?thesis using r moves_refl [OF g] by (auto simp: prvIncrementQueueRxLock_def intro: kept_same)
  next
    case noted
    let ?s = "upd_queue q (\<lambda>Q. Q\<lparr>cRxLock := ?l + 1, cTxLock := cTxLock (queues s q)\<rparr>) s"
    have l: "?l < 127" using noted(2) few_tasks [OF g] by simp
    have "upd_queue q (cRxLock_update (\<lambda>_. ?l + 1)) s = ?s" by (simp add: upd_queue_def)
    moreover have "sys_rel i n A ?s" by (rule sys_rel_locks [OF r q]) (use lk l in \<open>simp add: lock_ok_def\<close>)
    moreover have "kept n s ?s" using lk noted(1) by (auto simp: kept_def upd_queue_def reshaped_def lock_ok_def)
    moreover have "moves i (kern s) (kern ?s)" using moves_refl [OF g] by (simp add: upd_queue_def)
    ultimately show ?thesis using noted l by (auto simp: prvIncrementQueueRxLock_def)
  qed
qed

text \<open>The end of an interrupt that has updated a queue.\<close>

lemma isr_end:
  assumes c: "conf_rel i n A c" and s1: "kern s1 = kern (system c)" "kept n (system c) s1"
    and s2: "sys_rel i n A' s2" "kept n s1 s2" "moves i (kern s1) (kern s2)"
  shows "\<exists>s3. isr_switch w s2 = Some s3 \<and> conf_rel i n A' (on_system c s3) \<and> queues s3 = queues s2"
proof -
  obtain k where k: "isr_switch w s2 = Some (s2\<lparr>kern := k\<rparr>)" "moves i (kern s2) k"
    using moves_yield_if(2) [OF sys_relD(1) [OF s2(1)]] by blast
  have "moved (kern (system c)) k" using moves_trans [OF s2(3) k(2)] s1(1) by (simp add: moves_def)
  then have "conf_rel i n A' (on_system c (s2\<lparr>kern := k\<rparr>))"
    by (intro conf_env_kept [OF c sys_rel_moves [OF s2(1) k(2)]] kept_trans [OF kept_trans [OF s1(2) s2(2)] kept_same]) simp_all
  then show ?thesis using k(1) by auto
qed

lemma isr_send_ok:
  assumes c: "conf_rel i n A c" and p: "permitted i n (Isr_Send q x pos) c"
  shows "step_ok i n A (sys_step (Isr_Send q x pos) c)"
proof -
  let ?s = "system c"
  have q: "q < n" "\<not> is_mutex (queues ?s q)" "put_allowed (queues ?s q) x pos" using p by auto
  note r = conf_relD(1) [OF c]
  note ob = sys_relD(5) [OF r q(1)]
  have no: "A q \<noteq> Owner h" for h using obj_rel_kind(1) [OF ob] q(2) by auto
  have room: "uxMessagesWaiting (queues ?s q) < uxLength (queues ?s q) \<longleftrightarrow> obj_room None (A q)"
    by (rule obj_rel_room [OF ob]) (use no in auto)
  note ov = obj_rel_overwrites [OF ob q(3)]
  have pos: "\<not> (pos = queueOVERWRITE \<and> uxLength (queues ?s q) \<noteq> 1)" using q(3) by (auto simp: put_allowed_def)
  show ?thesis
  proof (cases "obj_room None (A q) \<or> pos = queueOVERWRITE")
    case False
    have "conf_rel i n A (on_system c ?s)" using c by (simp add: on_system_def)
    moreover have "sys_step (Isr_Send q x pos) c = Some (Some (None, q, Put pos x, False, None), on_system c ?s)"
      using False pos room by (simp add: xQueueGenericSendFromISR_def isr_switch_def)
    moreover have "outcome_ok (Some (None, q, Put pos x, False, None)) A A"
      using outcome_some [of None "Put pos x" A q "(False, None)" "A q"] False ov by simp
    ultimately show ?thesis by (blast intro: step_okI)
  next
    case True
    obtain s1 where s1: "prvCopyDataToQueue q x pos ?s = Some (False, s1)"
      "sys_rel i n (A(q := obj_put pos x (A q))) s1" "kern s1 = kern ?s" "kept n ?s s1"
      "cTxLock (queues s1 q) = cTxLock (queues ?s q)"
      using copy_to_ok [OF r q True] by blast
    obtain w s2 where s2: "(if cTxLock (queues s1 q) = queueUNLOCKED then release_waiter (waiting_to_receive q) s1
        else map_option (Pair False) (prvIncrementQueueTxLock q (cTxLock (queues s1 q)) s1)) = Some (w, s2)"
      "sys_rel i n (A(q := obj_put pos x (A q))) s2" "kept n s1 s2" "moves i (kern s1) (kern s2)"
      using isr_wake_tx [OF s1(2) q(1)] by blast
    obtain s3 where s3: "isr_switch w s2 = Some s3" "conf_rel i n (A(q := obj_put pos x (A q))) (on_system c s3)"
      using isr_end [OF c s1(3,4) s2(2-4)] by blast
    have "xQueueGenericSendFromISR q x pos ?s = Some (True, w, s2)"
      using pos room True s1(1) s2(1) by (auto simp: xQueueGenericSendFromISR_def s1(5) Let_def)
    then have "sys_step (Isr_Send q x pos) c = Some (Some (None, q, Put pos x, True, None), on_system c s3)"
      using s3(1) by simp
    moreover have "outcome_ok (Some (None, q, Put pos x, True, None)) A (A(q := obj_put pos x (A q)))"
      by (rule outcome_some) (use True ov in simp)
    ultimately show ?thesis using s3(2) by (blast intro: step_okI)
  qed
qed

lemma isr_give_ok:
  assumes c: "conf_rel i n A c" and p: "permitted i n (Isr_Give q) c"
  shows "step_ok i n A (sys_step (Isr_Give q) c)"
proof -
  let ?s = "system c" and ?pos = "queueSEND_TO_BACK" and ?x = "[] :: byte list"
  have q: "q < n" "\<not> is_mutex (queues ?s q)" "put_allowed (queues ?s q) ?x ?pos" and z: "uxItemSize (queues ?s q) = 0"
    using p by (auto simp: put_allowed_def)
  note r = conf_relD(1) [OF c]
  note ob = sys_relD(5) [OF r q(1)]
  have no: "A q \<noteq> Owner h" for h using obj_rel_kind(1) [OF ob] q(2) by auto
  have room: "uxMessagesWaiting (queues ?s q) < uxLength (queues ?s q) \<longleftrightarrow> obj_room None (A q)"
    by (rule obj_rel_room [OF ob]) (use no in auto)
  show ?thesis
  proof (cases "obj_room None (A q)")
    case False
    have "conf_rel i n A (on_system c ?s)" using c by (simp add: on_system_def)
    moreover have "sys_step (Isr_Give q) c = Some (Some (None, q, Put ?pos ?x, False, None), on_system c ?s)"
      using False z q(2) room by (simp add: xQueueGiveFromISR_def isr_switch_def Let_def)
    moreover have "outcome_ok (Some (None, q, Put ?pos ?x, False, None)) A A"
      using outcome_some [of None "Put ?pos ?x" A q "(False, None)" "A q"] False by simp
    ultimately show ?thesis by (blast intro: step_okI)
  next
    case True
    obtain s1 where s1: "prvCopyDataToQueue q ?x ?pos ?s = Some (False, s1)"
      "sys_rel i n (A(q := obj_put ?pos ?x (A q))) s1" "kern s1 = kern ?s" "kept n ?s s1"
      "cTxLock (queues s1 q) = cTxLock (queues ?s q)"
      using copy_to_ok [OF r q, of None] True by blast
    have s1': "s1 = upd_queue q (uxMessagesWaiting_update (\<lambda>_. uxMessagesWaiting (queues ?s q) + 1)) ?s"
      using s1(1) z q(2) by (simp add: prvCopyDataToQueue_def Let_def)
    obtain w s2 where s2: "(if cTxLock (queues s1 q) = queueUNLOCKED then release_waiter (waiting_to_receive q) s1
        else map_option (Pair False) (prvIncrementQueueTxLock q (cTxLock (queues s1 q)) s1)) = Some (w, s2)"
      "sys_rel i n (A(q := obj_put ?pos ?x (A q))) s2" "kept n s1 s2" "moves i (kern s1) (kern s2)"
      using isr_wake_tx [OF s1(2) q(1)] by blast
    obtain s3 where s3: "isr_switch w s2 = Some s3" "conf_rel i n (A(q := obj_put ?pos ?x (A q))) (on_system c s3)"
      using isr_end [OF c s1(3,4) s2(2-4)] by blast
    have "xQueueGiveFromISR q ?s = Some (True, w, s2)"
      using z q(2) room True s2(1) s1(5) by (auto simp: xQueueGiveFromISR_def s1' [symmetric] Let_def)
    then have "sys_step (Isr_Give q) c = Some (Some (None, q, Put ?pos ?x, True, None), on_system c s3)"
      using s3(1) by simp
    moreover have "outcome_ok (Some (None, q, Put ?pos ?x, True, None)) A (A(q := obj_put ?pos ?x (A q)))"
      by (rule outcome_some) (use True in simp)
    ultimately show ?thesis using s3(2) by (blast intro: step_okI)
  qed
qed

lemma isr_receive_ok:
  assumes c: "conf_rel i n A c" and p: "permitted i n (Isr_Receive q) c"
  shows "step_ok i n A (sys_step (Isr_Receive q) c)"
proof -
  let ?s = "system c"
  have q: "q < n" "\<not> is_mutex (queues ?s q)" using p by auto
  note r = conf_relD(1) [OF c]
  note ne = obj_rel_empty [OF sys_relD(5) [OF r q(1)]]
  show ?thesis
  proof (cases "obj_count (A q) = 0")
    case True
    have "conf_rel i n A (on_system c ?s)" using c by (simp add: on_system_def)
    moreover have "sys_step (Isr_Receive q) c = Some (Some (None, q, Get, False, None), on_system c ?s)"
      using True ne by (simp add: xQueueReceiveFromISR_def isr_switch_def)
    moreover have "outcome_ok (Some (None, q, Get, False, None)) A A"
      using outcome_some [of None Get A q "(False, None)" "A q"] True by simp
    ultimately show ?thesis by (blast intro: step_okI)
  next
    case False
    obtain x m Q where f: "fetch_item (memry ?s, queues ?s q) = (x, m, Q)" by (cases "fetch_item (memry ?s, queues ?s q)")
    let ?s1 = "upd_queue q (\<lambda>_. Q) ?s"
    note fo = fetch_ok(1) [where t = None, OF r q False f] fetch_ok(2-5) [OF r q False f]
    have lk: "cRxLock (queues ?s1 q) = cRxLock (queues ?s q)" "kern ?s1 = kern ?s" using fo(4) by (simp_all add: upd_queue_def)
    obtain w s2 where s2: "(if cRxLock (queues ?s1 q) = queueUNLOCKED then release_waiter (waiting_to_send q) ?s1
        else map_option (Pair False) (prvIncrementQueueRxLock q (cRxLock (queues ?s1 q)) ?s1)) = Some (w, s2)"
      "sys_rel i n (A(q := obj_get None (A q))) s2" "kept n ?s1 s2" "moves i (kern ?s1) (kern s2)"
      using isr_wake_rx [OF fo(1) q(1)] by blast
    obtain s3 where s3: "isr_switch w s2 = Some s3" "conf_rel i n (A(q := obj_get None (A q))) (on_system c s3)" "queues s3 = queues s2"
      using isr_end [OF c lk(2) fo(2) s2(2-4)] by blast
    have "xQueueReceiveFromISR q ?s = Some (True, x, w, s2)"
      using False ne f s2(1) lk(1) by (auto simp: xQueueReceiveFromISR_def Let_def)
    moreover have "learned Get (queues s3 q) True x = (True, obj_item (A q))"
      using fo(3) s2(3) s3(3) q(1) by (simp add: kept_def reshaped_def upd_queue_def)
    ultimately have "sys_step (Isr_Receive q) c = Some (Some (None, q, Get, True, obj_item (A q)), on_system c s3)"
      using s3(1) by simp
    moreover have "outcome_ok (Some (None, q, Get, True, obj_item (A q))) A (A(q := obj_get None (A q)))"
      by (rule outcome_some) (use False in simp)
    ultimately show ?thesis using s3(2) by (blast intro: step_okI)
  qed
qed

lemma start_ok:
  assumes c: "conf_rel i n A c" and p: "permitted i n (Start call d) c"
  shows "step_ok i n A (sys_step (Start call d) c)"
proof -
  obtain t where t: "pxCurrentTCB (kern (system c)) = Some t" "calls c t = None" "t = i \<longrightarrow> d = 0" "call_queue call < n"
    "call_allowed t call (queues (system c))" using p by (auto split: option.splits)
  note z = idle_call_running [OF c t(1,2)]
  have no: "\<not> running_at c P Q" for P Q using t by (simp add: running_at_def)
  have "conf_rel i n A (goes_on c t call (Some (Enter, new_call d)) (system c))"
  proof (rule conf_own [OF c t(1) conf_relD(1) [OF c]])
    show "call_rel i n (system c) t (call, ph, v)" if "Some (Enter, new_call d) = Some (ph, v)" for ph v
      using that t by (auto simp: call_rel_def phase_ok_def new_call_def)
  qed (use z t(1) conf_relD(5,6) [OF c] no in auto)
  then show ?thesis
    by (intro step_okI [where out = None]) (use t(1) in \<open>simp_all add: goes_on_def\<close>)
qed

end
