(* ===== verification/Queue_System_Calls.thy ===== *)
theory Queue_System_Calls
  imports Queue_System_Steps
begin

text \<open>
  The steps of blocking calls, program point by program point: each returns, keeps the invariant
  of the system and, when it decides the call, has the outcome that the atomic object allows.
\<close>

section \<open>The running call\<close>

definition in_call :: "tid \<Rightarrow> nat \<Rightarrow> (nat \<Rightarrow> queue_obj) \<Rightarrow> conf \<Rightarrow> tid \<Rightarrow> queue_call \<Rightarrow> phase \<Rightarrow> call_vars \<Rightarrow> bool" where
  "in_call i n A c t call ph v \<longleftrightarrow> conf_rel i n A c \<and> pxCurrentTCB (kern (system c)) = Some t \<and>
     calls c t = Some (call, ph, v)"

lemma in_callD:
  assumes "in_call i n A c t call ph v"
  shows "conf_rel i n A c" "pxCurrentTCB (kern (system c)) = Some t" "sys_rel i n A (system c)"
    "good i (kern (system c))" "call_queue call < n" "call_allowed t call (queues (system c))"
    "phase_ok i t call ph v (queues (system c))"
    "uxSchedulerSuspended (kern (system c)) = (if inside ph then 1 else 0)"
    "\<not> parked_at ph \<Longrightarrow> is_ready (kern (system c)) t \<and> container (kern (system c)) (EventItem t) = None"
    "q < n \<Longrightarrow> cTxLock (queues (system c) q) \<noteq> queueUNLOCKED \<Longrightarrow> tx_locked ph \<and> q = call_queue call"
    "q < n \<Longrightarrow> cRxLock (queues (system c) q) \<noteq> queueUNLOCKED \<Longrightarrow> rx_locked ph \<and> q = call_queue call"
    "obj_rel (memry (system c), queues (system c) (call_queue call)) (A (call_queue call))"
proof -
  have c: "conf_rel i n A c" "pxCurrentTCB (kern (system c)) = Some t" "calls c t = Some (call, ph, v)"
    using assms by (simp_all add: in_call_def)
  have r: "running_at c P Q \<longleftrightarrow> P (call_queue call) \<and> Q ph" for P Q using c by (auto simp: running_at_def)
  have cr: "call_rel i n (system c) t (call, ph, v)" by (rule conf_relD(2) [OF c(1,3)])
  show "conf_rel i n A c" "pxCurrentTCB (kern (system c)) = Some t" "sys_rel i n A (system c)"
    "good i (kern (system c))" using c conf_relD(1) [OF c(1)] sys_relD(1) by auto
  show q: "call_queue call < n" and "call_allowed t call (queues (system c))"
    "phase_ok i t call ph v (queues (system c))" using cr by (simp_all add: call_rel_def)
  show "uxSchedulerSuspended (kern (system c)) = (if inside ph then 1 else 0)"
    using conf_relD(3) [OF c(1)] by (simp add: r)
  show "\<not> parked_at ph \<Longrightarrow> is_ready (kern (system c)) t \<and> container (kern (system c)) (EventItem t) = None"
    using conf_relD(4) [OF c(1)] c(2) by (simp add: r)
  show "q < n \<Longrightarrow> cTxLock (queues (system c) q) \<noteq> queueUNLOCKED \<Longrightarrow> tx_locked ph \<and> q = call_queue call"
    "q < n \<Longrightarrow> cRxLock (queues (system c) q) \<noteq> queueUNLOCKED \<Longrightarrow> rx_locked ph \<and> q = call_queue call"
    using conf_relD(5,6) [OF c(1)] by (auto simp: r)
  show "obj_rel (memry (system c), queues (system c) (call_queue call)) (A (call_queue call))"
    by (rule sys_relD(5) [OF conf_relD(1) [OF c(1)] q])
qed

definition next_point :: "progress \<Rightarrow> (phase \<times> call_vars) option" where
  "next_point r = (case r of Return b x \<Rightarrow> None | Continue ph v \<Rightarrow> Some (ph, v))"

definition call_ok :: "tid \<Rightarrow> nat \<Rightarrow> (nat \<Rightarrow> queue_obj) \<Rightarrow> conf \<Rightarrow> tid \<Rightarrow> queue_call \<Rightarrow> phase \<Rightarrow> (progress \<times> sys) option \<Rightarrow> bool" where
  "call_ok i n A c t call ph res \<longleftrightarrow> (\<exists>r s A'. res = Some (r, s) \<and> conf_rel i n A' (goes_on c t call (next_point r) s) \<and>
     outcome_ok (case r of Return b x \<Rightarrow>
         if ph = Attempt
         then Some (Some t, call_queue call, call_op call, learned (call_op call) (queues s (call_queue call)) b x)
         else None
       | Continue ph' v' \<Rightarrow> None) A A')"

lemma call_ok_continue:
  "res = Some (Continue ph' v', s) \<Longrightarrow> conf_rel i n A (goes_on c t call (Some (ph', v')) s) \<Longrightarrow> call_ok i n A c t call ph res"
  by (simp add: call_ok_def next_point_def)

lemma call_ok_return:
  "res = Some (Return b x, s) \<Longrightarrow> conf_rel i n A (goes_on c t call None s) \<Longrightarrow> ph \<noteq> Attempt \<Longrightarrow> call_ok i n A c t call ph res"
  by (simp add: call_ok_def next_point_def)

lemma call_ok_decided:
  "res = Some (Return b x, s) \<Longrightarrow> q = call_queue call \<Longrightarrow> conf_rel i n (A(q := ob)) (goes_on c t call None s) \<Longrightarrow>
   spec_step (Some t) (call_op call) (A q) = (learned (call_op call) (queues s q) b x, ob) \<Longrightarrow>
   call_ok i n A c t call Attempt res"
  by (auto simp: call_ok_def next_point_def intro: outcome_some)

text \<open>A step at which the caller is running before and after, or has been switched out.\<close>

lemma own_step:
  assumes ic: "in_call i n A c t call ph v" and s': "sys_rel i n A' s'"
    and sh: "\<And>q. q < n \<Longrightarrow> reshaped (queues (system c) q) (queues s' q)"
    and h: "\<And>q u. q < n \<Longrightarrow> u \<noteq> t \<Longrightarrow> xMutexHolder (queues s' q) = Some u \<longleftrightarrow> xMutexHolder (queues (system c) q) = Some u"
    and m: "moved (kern (system c)) (kern s')"
    and new: "case new of None \<Rightarrow> \<not> inside ph \<and> \<not> parked_at ph
      | Some (ph', v') \<Rightarrow> inside ph' = inside ph \<and> (parked_at ph \<longrightarrow> parked_at ph') \<and>
          call_allowed t call (queues s') \<and> phase_ok i t call ph' v' (queues s')"
    and lt: "\<And>q. q < n \<Longrightarrow> cTxLock (queues s' q) \<noteq> queueUNLOCKED \<Longrightarrow>
        (case new of None \<Rightarrow> False | Some (ph, v) \<Rightarrow> tx_locked ph \<and> q = call_queue call)"
    and lr: "\<And>q. q < n \<Longrightarrow> cRxLock (queues s' q) \<noteq> queueUNLOCKED \<Longrightarrow>
        (case new of None \<Rightarrow> False | Some (ph, v) \<Rightarrow> rx_locked ph \<and> q = call_queue call)"
  shows "conf_rel i n A' (goes_on c t call new s')"
proof (rule conf_own [OF in_callD(1,2) [OF ic] s' sh h])
  note d = in_callD [OF ic]
  have su: "uxSchedulerSuspended (kern s') = (if inside ph then 1 else 0)" using m d(8) by (simp add: moved_def)
  show "call_rel i n s' t (call, ph', v')" if "new = Some (ph', v')" for ph' v'
    using that new m d(2,5,8) by (auto simp: call_rel_def moved_def)
  show "pxCurrentTCB (kern s') = Some t \<and>
      (uxSchedulerSuspended (kern s') = (case new of None \<Rightarrow> 0 | Some (ph, v) \<Rightarrow> if inside ph then 1 else 0)) \<and>
      ((case new of None \<Rightarrow> False | Some (ph, v) \<Rightarrow> parked_at ph) \<or>
       is_ready (kern s') t \<and> container (kern s') (EventItem t) = None) \<or>
    (case new of None \<Rightarrow> True | Some (ph, v) \<Rightarrow> \<not> inside ph) \<and> uxSchedulerSuspended (kern s') = 0 \<and> running_ready (kern s')"
  proof (cases "pxCurrentTCB (kern s') = pxCurrentTCB (kern (system c)) \<and> retains (kern (system c)) (kern s')")
    case True
    then have "\<not> parked_at ph \<Longrightarrow> is_ready (kern s') t \<and> container (kern s') (EventItem t) = None"
      using d(9) by (simp add: retains_def)
    then show ?thesis using True su new d(2) by (cases new) auto
  next
    case False
    then have "uxSchedulerSuspended (kern (system c)) = 0" "running_ready (kern s')" using m by (auto simp: moved_def)
    then show ?thesis using su new d(8) by (cases new) (auto split: if_splits)
  qed
qed (use lt lr in auto)

text \<open>A step that changes nothing but the kernel.\<close>

lemma own_kern:
  assumes ic: "in_call i n A c t call ph v" and m: "moves i (kern (system c)) k"
    and new: "inside ph' = inside ph" "parked_at ph \<Longrightarrow> parked_at ph'" "phase_ok i t call ph' v' (queues (system c))"
    and l: "tx_locked ph \<Longrightarrow> tx_locked ph'" "rx_locked ph \<Longrightarrow> rx_locked ph'"
  shows "conf_rel i n A (goes_on c t call (Some (ph', v')) ((system c)\<lparr>kern := k\<rparr>))"
proof (rule own_step [OF ic sys_rel_moves [OF in_callD(3) [OF ic] m]])
  show "case Some (ph', v') of None \<Rightarrow> \<not> inside ph \<and> \<not> parked_at ph
    | Some (ph', v') \<Rightarrow> inside ph' = inside ph \<and> (parked_at ph \<longrightarrow> parked_at ph') \<and>
        call_allowed t call (queues ((system c)\<lparr>kern := k\<rparr>)) \<and> phase_ok i t call ph' v' (queues ((system c)\<lparr>kern := k\<rparr>))"
    using new in_callD(6) [OF ic] by simp
  show "case Some (ph', v') of None \<Rightarrow> False | Some (ph, v) \<Rightarrow> tx_locked ph \<and> q = call_queue call"
    if "q < n" "cTxLock (queues ((system c)\<lparr>kern := k\<rparr>) q) \<noteq> queueUNLOCKED" for q
    using in_callD(10) [OF ic that(1)] that(2) l(1) by simp
  show "case Some (ph', v') of None \<Rightarrow> False | Some (ph, v) \<Rightarrow> rx_locked ph \<and> q = call_queue call"
    if "q < n" "cRxLock (queues ((system c)\<lparr>kern := k\<rparr>) q) \<noteq> queueUNLOCKED" for q
    using in_callD(11) [OF ic that(1)] that(2) l(2) by simp
qed (use m in \<open>simp_all add: moves_def\<close>)

lemma own_kern_return:
  assumes ic: "in_call i n A c t call ph v" and m: "moves i (kern (system c)) k" and out: "\<not> inside ph" "\<not> parked_at ph"
  shows "conf_rel i n A (goes_on c t call None ((system c)\<lparr>kern := k\<rparr>))"
proof -
  have "\<not> tx_locked ph" "\<not> rx_locked ph" using out(1) locked_inside by auto
  then show ?thesis
    by (intro own_step [OF ic sys_rel_moves [OF in_callD(3) [OF ic] m]])
      (use m out in_callD(10,11) [OF ic] in \<open>auto simp: moves_def\<close>)
qed

lemma own_stay:
  assumes ic: "in_call i n A c t call ph v"
    and new: "inside ph' = inside ph" "parked_at ph \<Longrightarrow> parked_at ph'" "phase_ok i t call ph' v' (queues (system c))"
    and l: "tx_locked ph \<Longrightarrow> tx_locked ph'" "rx_locked ph \<Longrightarrow> rx_locked ph'"
  shows "conf_rel i n A (goes_on c t call (Some (ph', v')) (system c))"
  using own_kern [OF ic moves_refl [OF in_callD(4) [OF ic]] new l] by simp

lemma own_stay_return:
  assumes ic: "in_call i n A c t call ph v" and out: "\<not> inside ph" "\<not> parked_at ph"
  shows "conf_rel i n A (goes_on c t call None (system c))"
  using own_kern_return [OF ic moves_refl [OF in_callD(4) [OF ic]] out] by simp

section \<open>The waiting round\<close>

lemma call_step_round:
  "ph \<in> {Suspend_Scheduler, Lock_Queue, Check_Time, Yield} \<or> (\<exists>e. ph \<in> {Unlock_Tx e, Unlock_Rx e, Resume_Scheduler e}) \<Longrightarrow>
   call_step call ph v s = waiting_round (call_queue call) ph v s"
  by (cases call) auto

lemma phase_ok_not_idle: "phase_ok i t call ph v Q \<Longrightarrow> ph \<notin> {Enter, Attempt} \<Longrightarrow> t \<noteq> i"
  by (auto simp: phase_ok_def)

lemma enter_ok:
  assumes ic: "in_call i n A c t call Enter v" shows "call_ok i n A c t call Enter (call_step call Enter v (system c))"
proof (rule call_ok_continue)
  note d = in_callD [OF ic]
  have "\<not> xTaskSuspendedCannotWait v (system c)" using d(8) by (simp add: xTaskSuspendedCannotWait_def)
  then show "call_step call Enter v (system c) = Some (Continue Attempt v, system c)"
    using d(6) by (cases call) (auto simp: put_allowed_def)
  show "conf_rel i n A (goes_on c t call (Some (Attempt, v)) (system c))"
    by (rule own_stay [OF ic]) (use d(7) in \<open>auto simp: phase_ok_def\<close>)
qed

lemma suspend_ok:
  assumes ic: "in_call i n A c t call Suspend_Scheduler v"
  shows "call_ok i n A c t call Suspend_Scheduler (call_step call Suspend_Scheduler v (system c))"
proof (rule call_ok_continue)
  note d = in_callD [OF ic]
  note su = good_suspend_all [OF d(4)]
  let ?k = "vTaskSuspendAll (kern (system c))"
  show "call_step call Suspend_Scheduler v (system c) = Some (Continue Lock_Queue v, (system c)\<lparr>kern := ?k\<rparr>)"
    by (simp add: call_step_round)
  have z: "uxSchedulerSuspended (kern (system c)) = 0" using d(8) by simp
  have r: "is_ready ?k t \<and> container ?k (EventItem t) = None" using d(9) steadyD(5,6) [OF su(2) [OF z]] by simp
  have "phase_ok i t call Lock_Queue v (queues (system c))" using d(7) by (auto simp: phase_ok_def)
  then show "conf_rel i n A (goes_on c t call (Some (Lock_Queue, v)) ((system c)\<lparr>kern := ?k\<rparr>))"
    by (intro conf_own [OF d(1,2) sys_rel_steady [OF d(3) su(1) [OF z] su(2) [OF z]]])
      (use su(3,4) [OF z] d r in \<open>auto simp: call_rel_def\<close>)
qed

lemma own_locks:
  assumes ic: "in_call i n A c t call ph v" and l: "lock_ok ((queues (system c) (call_queue call))\<lparr>cRxLock := a, cTxLock := b\<rparr>)"
    and m: "moves i (kern (system c)) k"
    and new: "inside ph' = inside ph" "parked_at ph \<Longrightarrow> parked_at ph'" "phase_ok i t call ph' v' (queues (system c))"
    and u: "b \<noteq> queueUNLOCKED \<Longrightarrow> tx_locked ph'" "a \<noteq> queueUNLOCKED \<Longrightarrow> rx_locked ph'"
  shows "conf_rel i n A (goes_on c t call (Some (ph', v'))
    (upd_queue (call_queue call) (\<lambda>Q. Q\<lparr>cRxLock := a, cTxLock := b\<rparr>) ((system c)\<lparr>kern := k\<rparr>)))"
proof -
  note d = in_callD [OF ic]
  let ?q = "call_queue call"
  let ?s = "upd_queue ?q (\<lambda>Q. Q\<lparr>cRxLock := a, cTxLock := b\<rparr>) ((system c)\<lparr>kern := k\<rparr>)"
  have s: "sys_rel i n A ?s" by (rule sys_rel_locks [OF sys_rel_moves [OF d(3) m] d(5)]) (use l in simp)
  have sh: "reshaped (queues (system c) q) (queues ?s q)" "xMutexHolder (queues ?s q) = xMutexHolder (queues (system c) q)" for q
    by (simp_all add: upd_queue_def reshaped_def)
  have k: "kern ?s = k" by (simp add: upd_queue_def)
  have ca: "call_allowed t call (queues ?s)"
    using call_allowed_cong [where call = call and Q = "queues (system c)" and Q' = "queues ?s", OF sh(1)] sh(2) d(6) by simp
  have po: "phase_ok i t call ph' v' (queues ?s)"
    using phase_ok_cong [where call = call and Q = "queues (system c)" and Q' = "queues ?s", OF reshaped_mutex [OF sh(1)]] new(3) by simp
  show ?thesis
  proof (rule own_step [OF ic s sh(1)])
    show "moved (kern (system c)) (kern ?s)" using m k by (simp add: moves_def)
    show "case Some (ph', v') of None \<Rightarrow> \<not> inside ph \<and> \<not> parked_at ph
      | Some (ph', v') \<Rightarrow> inside ph' = inside ph \<and> (parked_at ph \<longrightarrow> parked_at ph') \<and>
          call_allowed t call (queues ?s) \<and> phase_ok i t call ph' v' (queues ?s)" using new ca po by simp
    show "case Some (ph', v') of None \<Rightarrow> False | Some (ph, v) \<Rightarrow> tx_locked ph \<and> q = ?q"
      if "q < n" "cTxLock (queues ?s q) \<noteq> queueUNLOCKED" for q
      using that u(1) d(10) [of q] by (auto simp: upd_queue_def split: if_splits)
    show "case Some (ph', v') of None \<Rightarrow> False | Some (ph, v) \<Rightarrow> rx_locked ph \<and> q = ?q"
      if "q < n" "cRxLock (queues ?s q) \<noteq> queueUNLOCKED" for q
      using that u(2) d(11) [of q] by (auto simp: upd_queue_def split: if_splits)
  qed (use sh in auto)
qed

lemma lock_ok_step:
  assumes ic: "in_call i n A c t call Lock_Queue v"
  shows "call_ok i n A c t call Lock_Queue (call_step call Lock_Queue v (system c))"
proof (rule call_ok_continue)
  note d = in_callD [OF ic]
  let ?q = "call_queue call"
  have "lock_ok (queues (system c) ?q)" by (rule sys_relD(6) [OF d(3,5)])
  moreover have "cTxLock (queues (system c) ?q) = queueUNLOCKED" "cRxLock (queues (system c) ?q) = queueUNLOCKED"
    using d(10,11) [OF d(5)] by auto
  moreover from this have "prvLockQueue ?q (system c) = upd_queue ?q (\<lambda>Q. Q\<lparr>cRxLock := 0, cTxLock := 0\<rparr>) ((system c)\<lparr>kern := kern (system c)\<rparr>)"
    by (simp add: prvLockQueue_def upd_queue_def Let_def)
  ultimately show "call_step call Lock_Queue v (system c) =
      Some (Continue Check_Time v, upd_queue ?q (\<lambda>Q. Q\<lparr>cRxLock := 0, cTxLock := 0\<rparr>) ((system c)\<lparr>kern := kern (system c)\<rparr>))"
    by (simp add: call_step_round)
  show "conf_rel i n A (goes_on c t call (Some (Check_Time, v))
      (upd_queue ?q (\<lambda>Q. Q\<lparr>cRxLock := 0, cTxLock := 0\<rparr>) ((system c)\<lparr>kern := kern (system c)\<rparr>)))"
    by (rule own_locks [OF ic _ moves_refl [OF d(4)]]) (use d(7) in \<open>auto simp: lock_ok_def phase_ok_def\<close>)
qed

lemma check_time_ok:
  assumes ic: "in_call i n A c t call Check_Time v"
  shows "call_ok i n A c t call Check_Time (call_step call Check_Time v (system c))"
proof -
  note d = in_callD [OF ic]
  have v: "ticks_left v \<noteq> 0" "entry_time v \<noteq> None" using d(7) by (simp_all add: phase_ok_def)
  then obtain timeout where e: "entry_time v = Some timeout" by blast
  obtain x to m k where k: "xTaskCheckForTimeOut timeout (ticks_left v) (kern (system c)) = Some (x, to, m, k)"
    "good i k" "steady True (kern (system c)) k" "uxSchedulerSuspended k = uxSchedulerSuspended (kern (system c))"
    "pxCurrentTCB k = pxCurrentTCB (kern (system c))" "ticks_left v \<noteq> 0 \<and> \<not> x \<longrightarrow> m \<noteq> 0"
    using good_check_time [OF d(4)] by blast
  have mv: "moves i (kern (system c)) k" by (rule moves_same [OF k(2) steady_weaken [OF k(3)] k(4,5)])
  let ?v = "v\<lparr>entry_time := Some to, ticks_left := m\<rparr>"
  let ?ph = "if x then Unlock_Tx TimedOut else Check_State"
  have "phase_ok i t call ?ph ?v (queues (system c))"
    using d(7) k(6) v by (auto simp: phase_ok_def)
  then have "conf_rel i n A (goes_on c t call (Some (?ph, ?v)) ((system c)\<lparr>kern := k\<rparr>))"
    by (intro own_kern [OF ic mv]) auto
  then show ?thesis
    by (rule call_ok_continue [rotated]) (simp add: call_step_round e k(1))
qed

lemma check_state_ok:
  assumes ic: "in_call i n A c t call Check_State v"
  shows "call_ok i n A c t call Check_State (call_step call Check_State v (system c))"
proof -
  note d = in_callD [OF ic]
  obtain ph' where ph: "call_step call Check_State v (system c) = Some (Continue ph' v, system c)"
    "ph' \<in> {Block, Unlock_Tx TryAgain} \<or> ph' = Inherit \<and> (\<exists>q. call = Take_Call q \<and> is_mutex (queues (system c) q))"
    by (cases call) auto
  have "conf_rel i n A (goes_on c t call (Some (ph', v)) (system c))"
    by (rule own_stay [OF ic]) (use ph(2) d(7) in \<open>auto simp: phase_ok_def\<close>)
  then show ?thesis by (rule call_ok_continue [OF ph(1)])
qed

lemma inherit_ok:
  assumes ic: "in_call i n A c t call Inherit v"
  shows "call_ok i n A c t call Inherit (call_step call Inherit v (system c))"
proof -
  note d = in_callD [OF ic]
  obtain q where q: "call = Take_Call q" "is_mutex (queues (system c) q)" using d(7) by (auto simp: phase_ok_def)
  then obtain h where A: "A q = Owner h" "xMutexHolder (queues (system c) q) = h"
    using obj_rel_kind(1) [OF d(12)] d(12) by auto
  have al: "alive (kern (system c)) u" if "h = Some u" for u
  proof -
    have "q \<in> owned n A u" using A(1) that d(5) q(1) by (simp add: owned_def)
    then show ?thesis using sys_relD(3) [OF d(3)] by (auto simp: holders_ok_def)
  qed
  obtain b k where k: "xTaskPriorityInherit h (kern (system c)) = Some (b, k)" "good i k" "steady True (kern (system c)) k"
    "uxSchedulerSuspended k = uxSchedulerSuspended (kern (system c))" "pxCurrentTCB k = pxCurrentTCB (kern (system c))"
    using good_inherit [OF d(4) al] by blast
  have mv: "moves i (kern (system c)) k" by (rule moves_same [OF k(2) steady_weaken [OF k(3)] k(4,5)])
  have "conf_rel i n A (goes_on c t call (Some (Block, v\<lparr>inherited := b\<rparr>)) ((system c)\<lparr>kern := k\<rparr>))"
    by (rule own_kern [OF ic mv]) (use q d(7) in \<open>auto simp: phase_ok_def\<close>)
  then show ?thesis
    by (rule call_ok_continue [rotated]) (simp add: q(1) A(2) on_kern_bool_def k(1))
qed

lemma block_ok:
  assumes ic: "in_call i n A c t call Block v"
  shows "call_ok i n A c t call Block (call_step call Block v (system c))"
proof -
  note d = in_callD [OF ic]
  obtain e where e: "call_step call Block v (system c) = map_option (Pair (Continue (Unlock_Tx Waited) v))
      (on_kern (vTaskPlaceOnEventList e (ticks_left v)) (system c))"
    by (cases call) auto
  have p: "ticks_left v \<noteq> 0" "t \<noteq> i" using d(7) by (auto simp: phase_ok_def)
  obtain k where k: "vTaskPlaceOnEventList e (ticks_left v) (kern (system c)) = Some k" "good i k"
    "settled (kern (system c)) k" "held k = held (kern (system c))"
    "uxSchedulerSuspended k = uxSchedulerSuspended (kern (system c))" "pxCurrentTCB k = Some t"
    using good_place [OF d(4) _ d(2) p(2,1)] d(8,9) by auto
  have "phase_ok i t call (Unlock_Tx Waited) v (queues (system c))" using d(7) by (auto simp: phase_ok_def)
  then have cr: "call_rel i n ((system c)\<lparr>kern := k\<rparr>) t (call, Unlock_Tx Waited, v)"
    using k(6) d(5,6) by (simp add: call_rel_def)
  have "conf_rel i n A (goes_on c t call (Some (Unlock_Tx Waited, v)) ((system c)\<lparr>kern := k\<rparr>))"
  proof (rule conf_own [OF d(1,2) sys_rel_kern [OF d(3) k(2-4)]])
    show "case Some (Unlock_Tx Waited, v) of None \<Rightarrow> False | Some (ph, v) \<Rightarrow> tx_locked ph \<and> q = call_queue call"
      if "q < n" "cTxLock (queues ((system c)\<lparr>kern := k\<rparr>) q) \<noteq> queueUNLOCKED" for q
      using d(10) [OF that(1)] that(2) by simp
    show "case Some (Unlock_Tx Waited, v) of None \<Rightarrow> False | Some (ph, v) \<Rightarrow> rx_locked ph \<and> q = call_queue call"
      if "q < n" "cRxLock (queues ((system c)\<lparr>kern := k\<rparr>) q) \<noteq> queueUNLOCKED" for q
      using d(11) [OF that(1)] that(2) by simp
  qed (use cr k(5,6) d(8) in simp_all)
  then show ?thesis by (rule call_ok_continue [rotated]) (simp add: e on_kern_def k(1))
qed

lemma unlock_tx_ok:
  assumes ic: "in_call i n A c t call (Unlock_Tx e) v"
  shows "call_ok i n A c t call (Unlock_Tx e) (call_step call (Unlock_Tx e) v (system c))"
proof -
  note d = in_callD [OF ic]
  let ?q = "call_queue call" and ?s = "system c"
  obtain k where k: "release_counted (nat (cTxLock (queues ?s ?q))) (waiting_to_receive ?q) ?s = Some (?s\<lparr>kern := k\<rparr>)"
    "moves i (kern ?s) k" using moves_release_counted [OF d(4)] by blast
  let ?s' = "upd_queue ?q (\<lambda>Q. Q\<lparr>cRxLock := cRxLock (queues ?s ?q), cTxLock := queueUNLOCKED\<rparr>) (?s\<lparr>kern := k\<rparr>)"
  have "upd_queue ?q (cTxLock_update (\<lambda>_. queueUNLOCKED)) (?s\<lparr>kern := k\<rparr>) = ?s'" by (simp add: upd_queue_def)
  then have st: "call_step call (Unlock_Tx e) v ?s = Some (Continue (Unlock_Rx e) v, ?s')"
    by (simp add: call_step_round unlock_tx_def k(1))
  have "conf_rel i n A (goes_on c t call (Some (Unlock_Rx e, v)) ?s')"
    by (rule own_locks [OF ic _ k(2)]) (use sys_relD(6) [OF d(3,5)] d(7) in \<open>auto simp: lock_ok_def phase_ok_def\<close>)
  then show ?thesis by (rule call_ok_continue [OF st])
qed

lemma unlock_rx_ok:
  assumes ic: "in_call i n A c t call (Unlock_Rx e) v"
  shows "call_ok i n A c t call (Unlock_Rx e) (call_step call (Unlock_Rx e) v (system c))"
proof -
  note d = in_callD [OF ic]
  let ?q = "call_queue call" and ?s = "system c"
  obtain k where k: "release_counted (nat (cRxLock (queues ?s ?q))) (waiting_to_send ?q) ?s = Some (?s\<lparr>kern := k\<rparr>)"
    "moves i (kern ?s) k" using moves_release_counted [OF d(4)] by blast
  let ?s' = "upd_queue ?q (\<lambda>Q. Q\<lparr>cRxLock := queueUNLOCKED, cTxLock := cTxLock (queues ?s ?q)\<rparr>) (?s\<lparr>kern := k\<rparr>)"
  have "upd_queue ?q (cRxLock_update (\<lambda>_. queueUNLOCKED)) (?s\<lparr>kern := k\<rparr>) = ?s'" by (simp add: upd_queue_def)
  then have st: "call_step call (Unlock_Rx e) v ?s = Some (Continue (Resume_Scheduler e) v, ?s')"
    by (simp add: call_step_round unlock_rx_def k(1))
  have "cTxLock (queues ?s ?q) = queueUNLOCKED" using d(10) [OF d(5)] by auto
  then have "conf_rel i n A (goes_on c t call (Some (Resume_Scheduler e, v)) ?s')"
    by (intro own_locks [OF ic _ k(2)]) (use sys_relD(6) [OF d(3,5)] d(7) in \<open>auto simp: lock_ok_def phase_ok_def\<close>)
  then show ?thesis by (rule call_ok_continue [OF st])
qed

lemma resume_ok:
  assumes ic: "in_call i n A c t call (Resume_Scheduler e) v"
  shows "call_ok i n A c t call (Resume_Scheduler e) (call_step call (Resume_Scheduler e) v (system c))"
proof -
  note d = in_callD [OF ic]
  obtain y k where k: "xTaskResumeAll (kern (system c)) = Some (y, k)" "good i k" "steady True (kern (system c)) k"
    "uxSchedulerSuspended k = 0" "if y then running_ready k else pxCurrentTCB k = pxCurrentTCB (kern (system c))"
    using good_resume [OF d(4)] d(8) by auto
  let ?ph = "if e = TimedOut then Expired else if e = Waited \<and> \<not> y then Yield else Attempt"
  have st: "call_step call (Resume_Scheduler e) v (system c) = Some (Continue ?ph v, (system c)\<lparr>kern := k\<rparr>)"
    by (simp add: call_step_round on_kern_bool_def k(1))
  have po: "phase_ok i t call ?ph v (queues (system c))" "\<not> inside ?ph" using d(7) by (auto simp: phase_ok_def)
  have free: "e \<noteq> Waited \<Longrightarrow> is_ready k t \<and> container k (EventItem t) = None"
    using d(9) steadyD(5,6) [OF k(3)] by simp
  have ul: "cTxLock (queues (system c) q) = queueUNLOCKED" "cRxLock (queues (system c) q) = queueUNLOCKED" if "q < n" for q
    using d(10,11) [OF that] by auto
  have "conf_rel i n A (goes_on c t call (Some (?ph, v)) ((system c)\<lparr>kern := k\<rparr>))"
  proof (rule conf_own [OF d(1,2) sys_rel_steady [OF d(3) k(2,3)]])
    show "call_rel i n ((system c)\<lparr>kern := k\<rparr>) t (call, ph', v')" if "Some (?ph, v) = Some (ph', v')" for ph' v'
      using that po d(5,6) by (auto simp: call_rel_def)
    show "pxCurrentTCB (kern ((system c)\<lparr>kern := k\<rparr>)) = Some t \<and>
        (uxSchedulerSuspended (kern ((system c)\<lparr>kern := k\<rparr>)) =
          (case Some (?ph, v) of None \<Rightarrow> 0 | Some (ph, v) \<Rightarrow> if inside ph then 1 else 0)) \<and>
        ((case Some (?ph, v) of None \<Rightarrow> False | Some (ph, v) \<Rightarrow> parked_at ph) \<or>
         is_ready (kern ((system c)\<lparr>kern := k\<rparr>)) t \<and> container (kern ((system c)\<lparr>kern := k\<rparr>)) (EventItem t) = None) \<or>
      (case Some (?ph, v) of None \<Rightarrow> True | Some (ph, v) \<Rightarrow> \<not> inside ph) \<and>
        uxSchedulerSuspended (kern ((system c)\<lparr>kern := k\<rparr>)) = 0 \<and> running_ready (kern ((system c)\<lparr>kern := k\<rparr>))"
      using k(4,5) d(2) free by (cases y; cases e) auto
  qed (use ul in auto)
  then show ?thesis by (rule call_ok_continue [OF st])
qed

lemma yield_ok:
  assumes ic: "in_call i n A c t call Yield v"
  shows "call_ok i n A c t call Yield (call_step call Yield v (system c))"
proof -
  note d = in_callD [OF ic]
  obtain k where k: "vTaskSwitchContext (kern (system c)) = Some k" "good i k" "steady True (kern (system c)) k"
    "uxSchedulerSuspended k = 0" "running_ready k"
    using good_switch [OF d(4)] d(8) by auto
  have st: "call_step call Yield v (system c) = Some (Continue Attempt v, (system c)\<lparr>kern := k\<rparr>)"
    by (simp add: call_step_round on_kern_def k(1))
  have po: "phase_ok i t call Attempt v (queues (system c))" using d(7) by (auto simp: phase_ok_def)
  have ul: "cTxLock (queues (system c) q) = queueUNLOCKED" "cRxLock (queues (system c) q) = queueUNLOCKED" if "q < n" for q
    using d(10,11) [OF that] by auto
  have "conf_rel i n A (goes_on c t call (Some (Attempt, v)) ((system c)\<lparr>kern := k\<rparr>))"
    by (rule conf_own [OF d(1,2) sys_rel_steady [OF d(3) k(2,3)]])
      (use po d(5,6) ul k in \<open>auto simp: call_rel_def\<close>)
  then show ?thesis by (rule call_ok_continue [OF st])
qed

end
