(* ===== verification/Queue_System_Attempt.thy ===== *)
theory Queue_System_Attempt
  imports Queue_System_Calls
begin

text \<open>
  The program points at which a call is decided: the attempt inside the critical section, and
  what a receiver does when its time is up.
\<close>

section \<open>Mutexes change hands\<close>

lemma holders_give:
  assumes h: "holders_ok n A k" and q: "q < n" "A q = Owner (Some t)" and n: "n < 2 ^ 32"
    and k': "held k' = (held k)(t := held k t - 1)" "\<And>u. alive k u \<Longrightarrow> alive k' u"
  shows "holders_ok n (A(q := Owner None)) k'" "held k t \<noteq> 0"
proof -
  have o: "owned n (A(q := Owner None)) u = (if u = t then owned n A t - {q} else owned n A u)" for u
    using q by (auto simp: owned_def)
  have mem: "q \<in> owned n A t" using q by (simp add: owned_def)
  then have pos: "0 < card (owned n A t)" by (auto simp: card_gt_0_iff)
  have c: "card (owned n A t - {q}) = card (owned n A t) - 1" using mem by simp
  have ht: "held k t = of_nat (card (owned n A t))" using h by (simp add: holders_ok_def)
  then have "unat (held k t) = card (owned n A t)" using card_owned [OF n, of A t] by (simp add: unat_of_nat)
  then show "held k t \<noteq> 0" using pos by auto
  have "held k t - 1 = of_nat (card (owned n A t) - 1)" using ht pos by (simp add: of_nat_diff)
  then show "holders_ok n (A(q := Owner None)) k'"
    using h k' unfolding holders_ok_def o by (auto simp: c)
qed

lemma holders_take:
  assumes h: "holders_ok n A k" and q: "q < n" "A q = Owner None" and a: "alive k t"
    and k': "held k' = (held k)(t := held k t + 1)" "\<And>u. alive k u \<Longrightarrow> alive k' u"
  shows "holders_ok n (A(q := Owner (Some t))) k'"
proof -
  have o: "owned n (A(q := Owner (Some t))) u = (if u = t then insert q (owned n A t) else owned n A u)" for u
    using q by (auto simp: owned_def)
  have "q \<notin> owned n A t" using q by (simp add: owned_def)
  then have c: "card (insert q (owned n A t)) = card (owned n A t) + 1" by simp
  show ?thesis using h k' a unfolding holders_ok_def o by (auto simp: c)
qed

lemma sys_rel_owner:
  assumes r: "sys_rel i n A s" and q: "q < n" and ob: "obj_rel (memry s, Q) ob"
    and sh: "reshaped (queues s q) Q" and l: "lock_ok Q"
    and k: "good i k" "holders_ok n (A(q := ob)) k"
  shows "sys_rel i n (A(q := ob)) (s\<lparr>kern := k, queues := (queues s)(q := Q)\<rparr>)"
  using queues_rel_update [OF sys_relD(2) [OF r] q ob sh l, of "s\<lparr>kern := k, queues := (queues s)(q := Q)\<rparr>"] r k
  by (simp add: sys_rel_def)

lemma mutex_give:
  assumes r: "sys_rel i n A s" and q: "q < n" and mx: "is_mutex (queues s q)" "xMutexHolder (queues s q) = Some t"
    and t: "pxCurrentTCB (kern s) = Some t" "is_ready (kern s) t"
  shows "\<exists>b k. prvCopyDataToQueue q x pos s = Some (b, s\<lparr>kern := k, queues := (queues s)
      (q := (queues s q)\<lparr>xMutexHolder := None, uxMessagesWaiting := 1\<rparr>)\<rparr>) \<and>
    sys_rel i n (A(q := Owner None)) (s\<lparr>kern := k, queues := (queues s)
      (q := (queues s q)\<lparr>xMutexHolder := None, uxMessagesWaiting := 1\<rparr>)\<rparr>) \<and> moved (kern s) k \<and> A q = Owner (Some t)"
proof -
  let ?k = "kern s" and ?Q = "(queues s q)\<lparr>xMutexHolder := None, uxMessagesWaiting := 1\<rparr>"
  let ?k1 = "upd_tcb t (\<lambda>x. x\<lparr>uxMutexesHeld := uxMutexesHeld x - 1\<rparr>) ?k"
  note ob = sys_relD(5) [OF r q] and g = sys_relD(1) [OF r]
  obtain h where "A q = Owner h" using obj_rel_kind(1) [OF ob] mx(1) by blast
  then have A: "A q = Owner (Some t)" using ob mx by simp
  have h1: "held ?k1 = (held ?k)(t := held ?k t - 1)" by (simp add: held_def upd_tcb_def fun_eq_iff)
  have al: "alive ?k1 u = alive ?k u" "is_ready ?k1 u = is_ready ?k u" for u by (simp_all add: alive_def is_ready_def frame_simps)
  note hg = holders_give [OF sys_relD(3) [OF r] q A sys_relD(4) [OF r] h1]
  have h0: "held ?k t \<noteq> 0" using hg(2) al by simp
  obtain b k where k: "xTaskPriorityDisinherit (Some t) ?k = Some (b, k)" "good i k" "steady True ?k1 k"
    "uxSchedulerSuspended k = uxSchedulerSuspended ?k" "pxCurrentTCB k = Some t"
    using good_disinherit [OF g t h0] by blast
  have "holders_ok n (A(q := Owner None)) k"
    using holders_give(1) [OF sys_relD(3) [OF r] q A sys_relD(4) [OF r], of k] steadyD(1,7) [OF k(3)] h1 al by simp
  moreover have "obj_rel (memry s, ?Q) (Owner None)" using ob A by (simp add: is_mutex_def)
  moreover have "reshaped (queues s q) ?Q" by (simp add: reshaped_def)
  moreover have "lock_ok ?Q" using sys_relD(6) [OF r q] by (simp add: lock_ok_def)
  ultimately have s': "sys_rel i n (A(q := Owner None)) (s\<lparr>kern := k, queues := (queues s)(q := ?Q)\<rparr>)"
    using sys_rel_owner [OF r q _ _ _ k(2)] by blast
  have "uxItemSize (queues s q) = 0" "uxMessagesWaiting (queues s q) = 0" using ob A by simp_all
  then have "prvCopyDataToQueue q x pos s = Some (b, s\<lparr>kern := k, queues := (queues s)(q := ?Q)\<rparr>)"
    using mx k(1) by (simp add: prvCopyDataToQueue_def Let_def upd_queue_def)
  moreover have "moved ?k k"
    using retains_steady [OF k(3)] k(4,5) t(1) al(2) by (auto simp: moved_def retains_def frame_simps)
  ultimately show ?thesis using s' A by blast
qed

lemma mutex_take:
  assumes r: "sys_rel i n A s" and q: "q < n" and A: "A q = Owner None" and t: "pxCurrentTCB (kern s) = Some t" "alive (kern s) t"
  shows "let k = upd_tcb t (\<lambda>x. x\<lparr>uxMutexesHeld := uxMutexesHeld x + 1\<rparr>) (kern s);
      s' = s\<lparr>kern := k, queues := (queues s)(q := (queues s q)\<lparr>uxMessagesWaiting := 0, xMutexHolder := Some t\<rparr>)\<rparr>
    in sys_rel i n (A(q := Owner (Some t))) s' \<and> moved (kern s) k"
proof -
  let ?k = "upd_tcb t (\<lambda>x. x\<lparr>uxMutexesHeld := uxMutexesHeld x + 1\<rparr>) (kern s)"
  let ?Q = "(queues s q)\<lparr>uxMessagesWaiting := 0, xMutexHolder := Some t\<rparr>"
  note ob = sys_relD(5) [OF r q] and g = sys_relD(1) [OF r]
  have "held ?k = (held (kern s))(t := held (kern s) t + 1)" by (simp add: held_def upd_tcb_def fun_eq_iff)
  then have "holders_ok n (A(q := Owner (Some t))) ?k"
    by (rule holders_take [OF sys_relD(3) [OF r] q A t(2)]) (simp add: alive_def frame_simps)
  moreover have "good i ?k" by (rule good_upd_tcb [OF g]) simp_all
  moreover have "obj_rel (memry s, ?Q) (Owner (Some t))" using ob A by (simp add: is_mutex_def)
  moreover have "reshaped (queues s q) ?Q" by (simp add: reshaped_def)
  moreover have "lock_ok ?Q" using sys_relD(6) [OF r q] by (simp add: lock_ok_def)
  ultimately have "sys_rel i n (A(q := Owner (Some t))) (s\<lparr>kern := ?k, queues := (queues s)(q := ?Q)\<rparr>)"
    using sys_rel_owner [OF r q] by blast
  moreover have "moved (kern s) ?k" by (simp add: moved_def retains_def is_ready_def frame_simps)
  ultimately show ?thesis by (simp add: Let_def)
qed

section \<open>The attempt\<close>

lemma wake_and_yield:
  assumes g: "good i (kern s)"
  shows "\<exists>b s' k. (if \<not> is_empty (EventList e) (kern s) then release_waiter e s else Some (y, s)) = Some (b, s') \<and>
    queueYIELD_IF_USING_PREEMPTION b s' = Some (s\<lparr>kern := k\<rparr>) \<and> moves i (kern s) k"
proof -
  have "\<exists>b k. (if \<not> is_empty (EventList e) (kern s) then release_waiter e s else Some (y, s)) = Some (b, s\<lparr>kern := k\<rparr>) \<and>
      moves i (kern s) k"
  proof (cases "is_empty (EventList e) (kern s)")
    case True
    then show ?thesis using moves_refl [OF g] by (intro exI [of _ y] exI [of _ "kern s"]) simp
  next
    case False
    then show ?thesis using moves_release_waiter [OF g, of e] by simp blast
  qed
  then obtain b k where r: "(if \<not> is_empty (EventList e) (kern s) then release_waiter e s else Some (y, s)) = Some (b, s\<lparr>kern := k\<rparr>)"
    "moves i (kern s) k" by blast
  have g': "good i (kern (s\<lparr>kern := k\<rparr>))" using r(2) by (simp add: moves_def)
  obtain k' where "queueYIELD_IF_USING_PREEMPTION b (s\<lparr>kern := k\<rparr>) = Some (s\<lparr>kern := k'\<rparr>)" "moves i k k'"
    using moves_yield_if(1) [OF g', of b] by auto
  then show ?thesis using r moves_trans by blast
qed

lemma release_and_yield:
  assumes g: "good i (kern s)"
  shows "\<exists>b s' k. release_waiter e s = Some (b, s') \<and> queueYIELD_IF_USING_PREEMPTION b s' = Some (s\<lparr>kern := k\<rparr>) \<and>
    moves i (kern s) k"
proof -
  have "(if \<not> is_empty (EventList e) (kern s) then release_waiter e s else Some (False, s)) = release_waiter e s"
    by (simp add: release_waiter_def)
  then show ?thesis using wake_and_yield [OF g, of e False] by simp
qed

text \<open>The end of a successful attempt: the queue has been updated, then the kernel moves.\<close>

lemma attempt_done:
  assumes ic: "in_call i n A c t call Attempt v" and s1: "sys_rel i n A' s1" "moved (kern (system c)) (kern s1)"
    and Q: "queues s1 = (queues (system c))(call_queue call := Q)" "reshaped (queues (system c) (call_queue call)) Q"
      "cTxLock Q = cTxLock (queues (system c) (call_queue call))" "cRxLock Q = cRxLock (queues (system c) (call_queue call))"
    and h: "\<And>u. u \<noteq> t \<Longrightarrow> xMutexHolder Q = Some u \<longleftrightarrow> xMutexHolder (queues (system c) (call_queue call)) = Some u"
    and k: "moves i (kern s1) k"
  shows "conf_rel i n A' (goes_on c t call None (s1\<lparr>kern := k\<rparr>))"
proof (rule own_step [OF ic sys_rel_moves [OF s1(1) k]])
  note d = in_callD [OF ic]
  show "moved (kern (system c)) (kern (s1\<lparr>kern := k\<rparr>))" using moved_trans [OF s1(2)] k by (simp add: moves_def)
  have "cTxLock (queues (system c) q) = queueUNLOCKED \<and> cRxLock (queues (system c) q) = queueUNLOCKED" if "q < n" for q
    using d(10,11) [OF that] by auto
  then show "case None of None \<Rightarrow> False | Some (ph, v) \<Rightarrow> tx_locked ph \<and> q = call_queue call"
    if "q < n" "cTxLock (queues (s1\<lparr>kern := k\<rparr>) q) \<noteq> queueUNLOCKED" for q and v :: call_vars
    using that Q by (auto split: if_splits)
  show "case None of None \<Rightarrow> False | Some (ph, v) \<Rightarrow> rx_locked ph \<and> q = call_queue call"
    if "q < n" "cRxLock (queues (s1\<lparr>kern := k\<rparr>) q) \<noteq> queueUNLOCKED" for q and v :: call_vars
    using that Q d(11) [OF that(1)] by (auto split: if_splits)
qed (use Q h in \<open>auto simp: reshaped_def\<close>)

text \<open>The refusal: at once when the caller does not wait, else the waiting begins.\<close>

lemma refused_ok:
  assumes ic: "in_call i n A c t call Attempt v" and st: "call_step call Attempt v (system c) = give_up_or_wait v (system c)"
    and sp: "spec_step (Some t) (call_op call) (A (call_queue call)) = ((False, None), A (call_queue call))"
    and nm: "\<And>q x pos. call = Send_Call q x pos \<Longrightarrow> \<not> is_mutex (queues (system c) q)"
  shows "call_ok i n A c t call Attempt (call_step call Attempt v (system c))"
proof (cases "ticks_left v = 0")
  case True
  have "learned (call_op call) Q False [] = (False, None)" for Q by (cases call) simp_all
  then show ?thesis
    using own_stay_return [OF ic] True sp
    by (intro call_ok_decided [where ob = "A (call_queue call)" and s = "system c" and b = False and x = "[]"])
      (simp_all add: st give_up_or_wait_def)
next
  case False
  note d = in_callD [OF ic]
  let ?v = "if entry_time v = None then v\<lparr>entry_time := Some (vTaskInternalSetTimeOutState (kern (system c)))\<rparr> else v"
  have "phase_ok i t call Suspend_Scheduler ?v (queues (system c))"
    using d(7) False nm by (auto simp: phase_ok_def)
  then have "conf_rel i n A (goes_on c t call (Some (Suspend_Scheduler, ?v)) (system c))"
    by (intro own_stay [OF ic]) auto
  then show ?thesis by (rule call_ok_continue [rotated]) (use False in \<open>simp add: st give_up_or_wait_def\<close>)
qed

lemma send_attempt_ok:
  assumes ic: "in_call i n A c t (Send_Call q x pos) Attempt v"
  shows "call_ok i n A c t (Send_Call q x pos) Attempt (call_step (Send_Call q x pos) Attempt v (system c))"
proof -
  let ?s = "system c"
  note d = in_callD [OF ic, simplified]
  have ov: "overwrites pos (A q) \<longleftrightarrow> pos = queueOVERWRITE"
    using obj_rel_overwrites [OF d(12), of x pos] d(6) by simp
  have room: "uxMessagesWaiting (queues ?s q) < uxLength (queues ?s q) \<longleftrightarrow> obj_room (Some t) (A q)"
    by (rule obj_rel_room [OF d(12)]) (use d(6,12) in auto)
  show ?thesis
  proof (cases "obj_room (Some t) (A q) \<or> pos = queueOVERWRITE")
    case False
    have "\<not> is_mutex (queues ?s q)" using False d(6,12) obj_rel_kind(1) [OF d(12)] by auto
    then show ?thesis using False room ov by (intro refused_ok [OF ic]) auto
  next
    case True
    have "\<exists>b s1 Q. prvCopyDataToQueue q x pos ?s = Some (b, s1) \<and> sys_rel i n (A(q := obj_put pos x (A q))) s1 \<and>
        moved (kern ?s) (kern s1) \<and> queues s1 = (queues ?s)(q := Q) \<and> reshaped (queues ?s q) Q \<and>
        cTxLock Q = cTxLock (queues ?s q) \<and> cRxLock Q = cRxLock (queues ?s q) \<and>
        (\<forall>u. u \<noteq> t \<longrightarrow> (xMutexHolder Q = Some u \<longleftrightarrow> xMutexHolder (queues ?s q) = Some u))"
    proof (cases "is_mutex (queues ?s q)")
      case True
      then have h: "xMutexHolder (queues ?s q) = Some t" using d(6) by simp
      show ?thesis
        using mutex_give [OF d(3,5) True h d(2), of x pos] d(9) h by (fastforce simp: reshaped_def)
    next
      case False
      have p: "put_allowed (queues ?s q) x pos" using d(6) by simp
      obtain s1 where s1: "prvCopyDataToQueue q x pos ?s = Some (False, s1)" "sys_rel i n (A(q := obj_put pos x (A q))) s1"
        "kern s1 = kern ?s" "kept n ?s s1" "cTxLock (queues s1 q) = cTxLock (queues ?s q)"
        "cRxLock (queues s1 q) = cRxLock (queues ?s q)" "queues s1 = (queues ?s)(q := queues s1 q)"
        using copy_to_ok [OF d(3,5) False p True] by blast
      have "reshaped (queues ?s q) (queues s1 q) \<and> xMutexHolder (queues s1 q) = xMutexHolder (queues ?s q)"
        using s1(4) d(5) by (simp add: kept_def)
      then show ?thesis using s1
        by (intro exI [of _ False] exI [of _ s1] exI [of _ "queues s1 q"]) (simp add: moved_def)
    qed
    then obtain b s1 Q where s1: "prvCopyDataToQueue q x pos ?s = Some (b, s1)" "sys_rel i n (A(q := obj_put pos x (A q))) s1"
      "moved (kern ?s) (kern s1)" "queues s1 = (queues ?s)(q := Q)" "reshaped (queues ?s q) Q"
      "cTxLock Q = cTxLock (queues ?s q)" "cRxLock Q = cRxLock (queues ?s q)"
      "\<And>u. u \<noteq> t \<Longrightarrow> xMutexHolder Q = Some u \<longleftrightarrow> xMutexHolder (queues ?s q) = Some u" by blast
    obtain y s2 k where k: "(if \<not> is_empty (EventList (waiting_to_receive q)) (kern s1)
          then release_waiter (waiting_to_receive q) s1 else Some (b, s1)) = Some (y, s2)"
        "queueYIELD_IF_USING_PREEMPTION y s2 = Some (s1\<lparr>kern := k\<rparr>)" "moves i (kern s1) k"
      using wake_and_yield [OF sys_relD(1) [OF s1(2)]] by blast
    have "uxMessagesWaiting (queues ?s q) < uxLength (queues ?s q) \<or> pos = queueOVERWRITE" using True room by blast
    then have st: "call_step (Send_Call q x pos) Attempt v ?s = Some (Return True [], s1\<lparr>kern := k\<rparr>)"
      using s1(1) k(1,2) by simp
    have cr: "conf_rel i n (A(q := obj_put pos x (A q))) (goes_on c t (Send_Call q x pos) None (s1\<lparr>kern := k\<rparr>))"
      using attempt_done [OF ic s1(2,3), of Q k] s1(4-8) k(3) by simp
    show ?thesis by (rule call_ok_decided [OF st _ cr]) (use True ov in auto)
  qed
qed


lemma receive_attempt_ok:
  assumes ic: "in_call i n A c t (Receive_Call q) Attempt v"
  shows "call_ok i n A c t (Receive_Call q) Attempt (call_step (Receive_Call q) Attempt v (system c))"
proof -
  let ?s = "system c"
  note d = in_callD [OF ic, simplified]
  note ne = obj_rel_empty [OF d(12)]
  show ?thesis
  proof (cases "obj_count (A q) = 0")
    case True
    then show ?thesis using ne by (intro refused_ok [OF ic]) auto
  next
    case False
    obtain x m Q where f: "fetch_item (memry ?s, queues ?s q) = (x, m, Q)" by (cases "fetch_item (memry ?s, queues ?s q)")
    let ?s1 = "upd_queue q (\<lambda>_. Q) ?s"
    note fo = fetch_ok(1) [where t = "Some t", OF d(3,5,6) False f] fetch_ok(2-5) [OF d(3,5,6) False f]
    have k1: "kern ?s1 = kern ?s" "queues ?s1 = (queues ?s)(q := Q)" by (simp_all add: upd_queue_def)
    obtain y s2 k where k: "release_waiter (waiting_to_send q) ?s1 = Some (y, s2)"
        "queueYIELD_IF_USING_PREEMPTION y s2 = Some (?s1\<lparr>kern := k\<rparr>)" "moves i (kern ?s1) k"
      using release_and_yield [OF sys_relD(1) [OF fo(1)]] by blast
    have st: "call_step (Receive_Call q) Attempt v ?s = Some (Return True x, ?s1\<lparr>kern := k\<rparr>)"
      using False ne f k(1,2) by simp
    have cr: "conf_rel i n (A(q := obj_get (Some t) (A q))) (goes_on c t (Receive_Call q) None (?s1\<lparr>kern := k\<rparr>))"
    proof (rule attempt_done [OF ic fo(1)])
      have "reshaped (queues ?s q) Q \<and> xMutexHolder Q = xMutexHolder (queues ?s q)"
        using keptD [OF fo(2) d(5)] by (simp add: k1)
      then show "reshaped (queues ?s (call_queue (Receive_Call q))) Q"
        "\<And>u. u \<noteq> t \<Longrightarrow> (xMutexHolder Q = Some u) = (xMutexHolder (queues ?s (call_queue (Receive_Call q))) = Some u)" by simp_all
      show "cTxLock Q = cTxLock (queues ?s (call_queue (Receive_Call q)))" "cRxLock Q = cRxLock (queues ?s (call_queue (Receive_Call q)))"
        using fetch_item_shape(7,8) [of "(memry ?s, queues ?s q)"] f by simp_all
    qed (use k1 k(3) in \<open>simp_all add: moved_def\<close>)
    show ?thesis
      by (rule call_ok_decided [OF st _ cr]) (use False fo(3) in \<open>simp_all add: upd_queue_def\<close>)
  qed
qed

lemma peek_attempt_ok:
  assumes ic: "in_call i n A c t (Peek_Call q) Attempt v"
  shows "call_ok i n A c t (Peek_Call q) Attempt (call_step (Peek_Call q) Attempt v (system c))"
proof -
  let ?s = "system c"
  note d = in_callD [OF ic, simplified]
  note ne = obj_rel_empty [OF d(12)]
  show ?thesis
  proof (cases "obj_count (A q) = 0")
    case True
    then show ?thesis using ne by (intro refused_ok [OF ic]) auto
  next
    case False
    obtain x where x: "peek_item (memry ?s, queues ?s q) = (x, memry ?s, queues ?s q)"
      "learned Peek (queues ?s q) True x = (True, obj_item (A q))" using peek_ok [OF d(3,5,6) False] by blast
    have s1: "upd_queue q (\<lambda>_. queues ?s q) ?s = ?s" by (simp add: upd_queue_def)
    obtain y s2 k where k: "release_waiter (waiting_to_receive q) ?s = Some (y, s2)"
        "queueYIELD_IF_USING_PREEMPTION y s2 = Some (?s\<lparr>kern := k\<rparr>)" "moves i (kern ?s) k"
      using release_and_yield [OF d(4)] by blast
    have st: "call_step (Peek_Call q) Attempt v ?s = Some (Return True x, ?s\<lparr>kern := k\<rparr>)"
      using False ne x(1) s1 k(1,2) by simp
    have cr: "conf_rel i n (A(q := A q)) (goes_on c t (Peek_Call q) None (?s\<lparr>kern := k\<rparr>))"
      using own_kern_return [OF ic k(3)] by simp
    show ?thesis by (rule call_ok_decided [OF st _ cr]) (use False x(2) in simp_all)
  qed
qed

lemma take_attempt_ok:
  assumes ic: "in_call i n A c t (Take_Call q) Attempt v"
  shows "call_ok i n A c t (Take_Call q) Attempt (call_step (Take_Call q) Attempt v (system c))"
proof -
  let ?s = "system c"
  note d = in_callD [OF ic, simplified]
  note ne = obj_rel_empty [OF d(12)]
  show ?thesis
  proof (cases "obj_count (A q) = 0")
    case True
    then show ?thesis using ne by (intro refused_ok [OF ic]) auto
  next
    case False
    let ?r = "upd_queue q (\<lambda>Q. Q\<lparr>uxMessagesWaiting := uxMessagesWaiting Q - 1\<rparr>) ?s"
    let ?s1 = "if is_mutex (queues ?r q) then
        let (holder, k) = pvTaskIncrementMutexHeldCount (kern ?r)
        in upd_queue q (xMutexHolder_update (\<lambda>_. holder)) (?r\<lparr>kern := k\<rparr>) else ?r"
    have "\<exists>s1 Q. ?s1 = s1 \<and> sys_rel i n (A(q := obj_get (Some t) (A q))) s1 \<and> moved (kern ?s) (kern s1) \<and>
        queues s1 = (queues ?s)(q := Q) \<and> reshaped (queues ?s q) Q \<and> cTxLock Q = cTxLock (queues ?s q) \<and>
        cRxLock Q = cRxLock (queues ?s q) \<and>
        (\<forall>u. u \<noteq> t \<longrightarrow> (xMutexHolder Q = Some u \<longleftrightarrow> xMutexHolder (queues ?s q) = Some u)) \<and> obj_item (A q) = None"
    proof (cases "is_mutex (queues ?s q)")
      case True
      then obtain h where "A q = Owner h" using obj_rel_kind(1) [OF d(12)] by blast
      then have A: "A q = Owner None" using False by (cases h) auto
      let ?k = "upd_tcb t (\<lambda>x. x\<lparr>uxMutexesHeld := uxMutexesHeld x + 1\<rparr>) (kern ?s)"
      let ?Q = "(queues ?s q)\<lparr>uxMessagesWaiting := 0, xMutexHolder := Some t\<rparr>"
      have m: "sys_rel i n (A(q := Owner (Some t))) (?s\<lparr>kern := ?k, queues := (queues ?s)(q := ?Q)\<rparr>) \<and> moved (kern ?s) ?k"
        using mutex_take [OF d(3,5) A d(2)] d(9) by (simp add: Let_def ready_alive)
      have "uxMessagesWaiting (queues ?s q) = 1" "xMutexHolder (queues ?s q) = None" using d(12) A by simp_all
      then have "?s1 = ?s\<lparr>kern := ?k, queues := (queues ?s)(q := ?Q)\<rparr>"
        using True d(2) by (simp add: upd_queue_def pvTaskIncrementMutexHeldCount_def is_mutex_def)
      then show ?thesis using m A d(12) by (intro exI [of _ ?s1] exI [of _ ?Q]) (simp add: reshaped_def)
    next
      case nm: False
      obtain c' j where A: "A q = Count c' j" using obj_rel_kind [OF d(12)] nm d(6) by (cases "A q") auto
      let ?Q = "(queues ?s q)\<lparr>uxMessagesWaiting := uxMessagesWaiting (queues ?s q) - 1\<rparr>"
      have z: "uxItemSize (queues ?s q) = 0" using d(6) by simp
      have f: "fetch_item (memry ?s, queues ?s q) = ([], memry ?s, ?Q)"
        using z by (simp add: fetch_item_def prvCopyDataFromQueue_def)
      have s0: "?s1 = upd_queue q (\<lambda>_. ?Q) ?s" using nm by (simp add: upd_queue_def is_mutex_def)
      note fo = fetch_ok(1) [where t = "Some t", OF d(3,5) nm False f]
      show ?thesis unfolding s0 using fo A by (intro exI [of _ "upd_queue q (\<lambda>_. ?Q) ?s"] exI [of _ ?Q])
          (simp add: upd_queue_def reshaped_def moved_def)
    qed
    then obtain s1 Q where s1: "?s1 = s1" "sys_rel i n (A(q := obj_get (Some t) (A q))) s1" "moved (kern ?s) (kern s1)"
      "queues s1 = (queues ?s)(q := Q)" "reshaped (queues ?s q) Q" "cTxLock Q = cTxLock (queues ?s q)"
      "cRxLock Q = cRxLock (queues ?s q)" "\<And>u. u \<noteq> t \<Longrightarrow> xMutexHolder Q = Some u \<longleftrightarrow> xMutexHolder (queues ?s q) = Some u"
      "obj_item (A q) = None" by blast
    obtain y s2 k where k: "release_waiter (waiting_to_send q) s1 = Some (y, s2)"
        "queueYIELD_IF_USING_PREEMPTION y s2 = Some (s1\<lparr>kern := k\<rparr>)" "moves i (kern s1) k"
      using release_and_yield [OF sys_relD(1) [OF s1(2)]] by blast
    have st: "call_step (Take_Call q) Attempt v ?s = Some (Return True [], s1\<lparr>kern := k\<rparr>)"
      using False ne k(1,2) by (simp add: s1(1) del: upd_queue_def)
    have cr: "conf_rel i n (A(q := obj_get (Some t) (A q))) (goes_on c t (Take_Call q) None (s1\<lparr>kern := k\<rparr>))"
      using attempt_done [OF ic s1(2,3), of Q k] s1(4-8) k(3) by simp
    have "uxItemSize Q = 0" using s1(5) d(6) by (simp add: reshaped_def)
    then show ?thesis
      by (intro call_ok_decided [OF st _ cr]) (use False s1(4,9) in auto)
  qed
qed

section \<open>Time is up\<close>

lemma expired_ok:
  assumes ic: "in_call i n A c t call Expired v"
  shows "call_ok i n A c t call Expired (call_step call Expired v (system c))"
proof -
  note d = in_callD [OF ic]
  obtain r where r: "call_step call Expired v (system c) = Some (r, system c)"
    "r \<in> {Return False [], Continue Attempt v} \<or> r = Continue Disinherit v \<and> inherited v"
    by (cases call) auto
  consider "r = Return False []" | ph' where "r = Continue ph' v" "ph' = Attempt \<or> ph' = Disinherit \<and> inherited v"
    using r(2) by blast
  then show ?thesis
  proof cases
    case 1
    then show ?thesis using own_stay_return [OF ic] r(1) by (intro call_ok_return) auto
  next
    case 2
    have "phase_ok i t call ph' v (queues (system c))" using d(7) 2(2) by (auto simp: phase_ok_def)
    then have "conf_rel i n A (goes_on c t call (Some (ph', v)) (system c))"
      by (intro own_stay [OF ic]) (use 2(2) in auto)
    then show ?thesis using r(1) 2(1) by (intro call_ok_continue) auto
  qed
qed

lemma highest_waiting:
  assumes g: "good i (kern s)" shows "prvGetHighestPriorityOfWaitToReceiveList q s < configMAX_PRIORITIES"
proof -
  let ?k = "kern s" and ?l = "EventList (waiting_to_receive q)"
  show ?thesis
  proof (cases "kitems (klists ?k ?l)")
    case (Cons x xs)
    have ok: "core_ok ?k" using goodD(2) [OF g] by (simp add: kernel_wf_def sched_ok_def)
    have c: "container ?k x = Some ?l"
      using lists_okD(2) [OF core_okD(1) [OF ok], of x ?l] Cons by simp
    have tk: "task_ok ?k u" for u by (rule core_okD(4) [OF ok])
    obtain u where x: "x = EventItem u"
      using c tk [of "owner_of x"] by (cases x) (auto simp: task_ok_def)
    have "container ?k (StateItem u) \<noteq> None" using c tk [of u] by (auto simp: x task_ok_def)
    then have "event_key (item_value ?k x)" using goodD(1) [OF g] by (simp add: base_ok_def x)
    then have e: "0 < item_value ?k x" "item_value ?k x \<le> configMAX_PRIORITIES" by (simp_all add: event_key_def)
    then have "0 < unat (item_value ?k x)" "unat (item_value ?k x) \<le> unat configMAX_PRIORITIES"
      by (simp_all only: word_less_nat_alt word_le_nat_alt unat_0)
    then have "configMAX_PRIORITIES - item_value ?k x < configMAX_PRIORITIES"
      unfolding word_less_nat_alt unat_minus_le [OF e(2)] by linarith
    then show ?thesis by (simp add: prvGetHighestPriorityOfWaitToReceiveList_def Cons)
  qed (simp add: prvGetHighestPriorityOfWaitToReceiveList_def configMAX_PRIORITIES_def)
qed

lemma disinherit_ok:
  assumes ic: "in_call i n A c t call Disinherit v"
  shows "call_ok i n A c t call Disinherit (call_step call Disinherit v (system c))"
proof -
  note d = in_callD [OF ic]
  obtain q where q: "call = Take_Call q" "is_mutex (queues (system c) q)" using d(7) by (auto simp: phase_ok_def)
  then obtain h where A: "A q = Owner h" "xMutexHolder (queues (system c) q) = h"
    using obj_rel_kind(1) [OF d(12)] d(12) by auto
  have al: "alive (kern (system c)) u \<and> held (kern (system c)) u \<noteq> 0 \<and> pxCurrentTCB (kern (system c)) \<noteq> Some u" if "h = Some u" for u
  proof -
    have o: "q \<in> owned n A u" using A(1) that d(5) q(1) by (simp add: owned_def)
    have "card (owned n A u) \<noteq> 0" using o by auto
    moreover have "unat (held (kern (system c)) u) = card (owned n A u)"
      using sys_relD(3,4) [OF d(3)] card_owned [of n A u] by (simp add: holders_ok_def unat_of_nat)
    moreover have "u \<noteq> t" using d(6) q A(2) that by auto
    ultimately show ?thesis using sys_relD(3) [OF d(3)] o d(2) by (auto simp: holders_ok_def)
  qed
  obtain k where k: "vTaskPriorityDisinheritAfterTimeout h (prvGetHighestPriorityOfWaitToReceiveList q (system c)) (kern (system c)) = Some k"
    "good i k" "steady True (kern (system c)) k" "uxSchedulerSuspended k = uxSchedulerSuspended (kern (system c))"
    "pxCurrentTCB k = pxCurrentTCB (kern (system c))"
    using good_disinherit_timeout [OF d(4) al highest_waiting [OF d(4)]] by blast
  have mv: "moves i (kern (system c)) k" by (rule moves_same [OF k(2) steady_weaken [OF k(3)] k(4,5)])
  show ?thesis
    by (rule call_ok_return [where b = False and x = "[]", OF _ own_kern_return [OF ic mv]]) (simp_all add: q(1) A(2) on_kern_def k(1))
qed

section \<open>Every step\<close>

lemma call_step_ok:
  assumes ic: "in_call i n A c t call ph v" shows "call_ok i n A c t call ph (call_step call ph v (system c))"
proof (cases ph)
  case Attempt
  then show ?thesis
    using ic send_attempt_ok receive_attempt_ok peek_attempt_ok take_attempt_ok by (cases call) simp_all
qed (use ic enter_ok suspend_ok lock_ok_step check_time_ok check_state_ok inherit_ok block_ok unlock_tx_ok unlock_rx_ok
      resume_ok yield_ok expired_ok disinherit_ok in simp_all)

lemma advance_ok:
  assumes c: "conf_rel i n A c" and p: "permitted i n Advance c"
  shows "step_ok i n A (sys_step Advance c)"
proof -
  obtain t call ph v where t: "pxCurrentTCB (kern (system c)) = Some t" "calls c t = Some (call, ph, v)"
    using p by (auto split: option.splits)
  have "in_call i n A c t call ph v" using c t by (simp add: in_call_def)
  from call_step_ok [OF this] obtain r s A' where r: "call_step call ph v (system c) = Some (r, s)"
    "conf_rel i n A' (goes_on c t call (next_point r) s)"
    "outcome_ok (case r of Return b x \<Rightarrow>
         if ph = Attempt
         then Some (Some t, call_queue call, call_op call, learned (call_op call) (queues s (call_queue call)) b x)
         else None
       | Continue ph' v' \<Rightarrow> None) A A'" by (auto simp: call_ok_def)
  show ?thesis
    by (rule step_okI [OF _ r(2,3)]) (use t r(1) in \<open>simp add: advance_def goes_on_def next_point_def split: progress.splits\<close>)
qed

lemma sys_step_ok:
  assumes "conf_rel i n A c" "permitted i n e c" shows "step_ok i n A (sys_step e c)"
proof (cases e)
  case (Start call d) then show ?thesis using assms start_ok by simp
next
  case Advance then show ?thesis using assms advance_ok by simp
next
  case Tick then show ?thesis using assms tick_ok by simp
next
  case Reschedule then show ?thesis using assms reschedule_ok by simp
next
  case (Sleep d) then show ?thesis using assms sleep_ok by simp
next
  case (Isr_Send q x pos) then show ?thesis using assms isr_send_ok by simp
next
  case (Isr_Give q) then show ?thesis using assms isr_give_ok by simp
next
  case (Isr_Receive q) then show ?thesis using assms isr_receive_ok by simp
qed

end
