(* ===== verification/Scheduler_Properties.thy ===== *)
theory Scheduler_Properties
  imports Task_Control_Inv
begin

text \<open>
  The theorems on the scheduler and the tick, with a concrete kernel on which their hypotheses
  hold: idle task 0, tasks 1 and 2 ready at priority 3, task 3 asleep until the next tick.
\<close>

definition demo_tcb :: "word32 \<Rightarrow> TCB" where
  "demo_tcb p = \<lparr>uxPriority = p, uxBasePriority = p, uxMutexesHeld = 0, ulNotifiedValue = 0,
     ucNotifyState = NotWaitingNotification, ucDelayAborted = False\<rparr>"

definition demo_kernel :: kernel where
  "demo_kernel =
     \<lparr>klists = (\<lambda>_. kl_empty)
        (ReadyList 0 := \<lparr>kitems = [StateItem 0], kindex = None\<rparr>,
         ReadyList 3 := \<lparr>kitems = [StateItem 1, StateItem 2], kindex = Some (StateItem 1)\<rparr>,
         DelayedTaskList1 := \<lparr>kitems = [StateItem 3], kindex = None\<rparr>),
      container = (\<lambda>_. None)(StateItem 0 \<mapsto> ReadyList 0, StateItem 1 \<mapsto> ReadyList 3,
         StateItem 2 \<mapsto> ReadyList 3, StateItem 3 \<mapsto> DelayedTaskList1),
      item_value = (\<lambda>_. 0)(StateItem 3 := 11),
      tcbs = (\<lambda>_. demo_tcb 0)(1 := demo_tcb 3, 2 := demo_tcb 3, 3 := demo_tcb 4),
      pxCurrentTCB = Some 1,
      pxDelayedTaskList = DelayedTaskList1, pxOverflowDelayedTaskList = DelayedTaskList2,
      uxDeletedTasksWaitingCleanUp = 0, uxCurrentNumberOfTasks = 4, xTickCount = 10,
      uxTopReadyPriority = 3, xSchedulerRunning = True, xPendedTicks = 0, xYieldPending = False,
      xNumOfOverflows = 0, uxTaskNumber = 4, xNextTaskUnblockTime = 11, uxSchedulerSuspended = 0,
      freed = []\<rparr>"

lemma demo_lists_ok: "lists_ok demo_kernel"
proof -
  have "kl_wf (klists demo_kernel l)" for l
    by (auto simp: demo_kernel_def kl_wf_def kl_empty_def)
  moreover have "i \<in> set (kitems (klists demo_kernel l)) \<longleftrightarrow> container demo_kernel i = Some l" for i l
    by (auto simp: demo_kernel_def kl_empty_def split: if_splits)
  ultimately show ?thesis by (simp add: lists_ok_def)
qed

lemma demo_kernel_wf: "kernel_wf 0 demo_kernel"
proof -
  have "task_ok demo_kernel t" for t
    by (auto simp: task_ok_def demo_kernel_def demo_tcb_def configMAX_PRIORITIES_def)
  then have "core_ok demo_kernel"
    using demo_lists_ok by (simp add: core_ok_def delayed_pair_def delayed_sorted_def)
      (simp add: demo_kernel_def configMAX_PRIORITIES_def kl_empty_def)
  then show ?thesis
    by (simp add: kernel_wf_def sched_ok_def)
      (auto simp: demo_kernel_def delays_ok_def overflow_ok_def alive_def is_ready_def)
qed

lemma demo_facts:
  "sched_ok demo_kernel" "some_ready demo_kernel" "uxSchedulerSuspended demo_kernel = 0"
  "pxCurrentTCB demo_kernel = Some 1" "is_empty PendingReadyList demo_kernel" "xPendedTicks demo_kernel = 0"
  "xTickCount demo_kernel = 10" "lists_ok demo_kernel"
proof -
  show "sched_ok demo_kernel" "some_ready demo_kernel"
    using demo_kernel_wf by (auto simp: kernel_wf_def some_ready_is_ready)
  show "lists_ok demo_kernel" by (rule demo_lists_ok)
qed (simp_all add: demo_kernel_def is_empty_def kl_empty_def)

section \<open>Which task runs\<close>

text \<open>
  C10. With some task ready and the scheduler not suspended, vTaskSwitchContext returns and
  the task it selects is ready and no ready task has a higher priority; no task changes its
  list.
\<close>

theorem switch_runs_highest:
  assumes "sched_ok s" "uxSchedulerSuspended s = 0" "some_ready s"
  shows "\<exists>s' c p. vTaskSwitchContext s = Some s' \<and> sched_ok s' \<and> pxCurrentTCB s' = Some c \<and>
    container s (StateItem c) = Some (ReadyList p) \<and> uxPriority (tcbs s c) = p \<and>
    (\<forall>t q. container s (StateItem t) = Some (ReadyList q) \<longrightarrow> q \<le> p) \<and> container s' = container s"
proof -
  obtain s' where s': "vTaskSwitchContext s = Some s'" "sched_ok s'" "same_tasks s s'" "runs_highest s'"
    using switch_same_tasks [OF assms(1,3)] assms(2) by blast
  have cn: "container s' = container s" "tcbs s' = tcbs s" using s'(3) by (simp_all add: same_tasks_def)
  obtain c p where c: "pxCurrentTCB s' = Some c" "container s' (StateItem c) = Some (ReadyList p)" "top_ready s' p"
    using s'(4) by (auto simp: runs_highest_def)
  have "q \<le> p" if "container s (StateItem t) = Some (ReadyList q)" for t q
  proof -
    have "\<not> is_empty (ReadyList q) s'"
      using that lists_okD(2) [OF core_okD(1) [OF sched_okD(1) [OF s'(2)]], of "StateItem t" "ReadyList q"] cn
      by (auto simp: is_empty_def)
    then show ?thesis using c(3) by (auto simp: top_ready_def not_less [symmetric])
  qed
  moreover have "uxPriority (tcbs s c) = p"
    using core_okD(4) [OF sched_okD(1) [OF s'(2)], of c] c(2) cn by (simp add: task_ok_def)
  ultimately show ?thesis using s' c cn by auto
qed

theorem switch_runs_highest_witness:
  "\<exists>s' c p. vTaskSwitchContext demo_kernel = Some s' \<and> sched_ok s' \<and> pxCurrentTCB s' = Some c \<and>
    container demo_kernel (StateItem c) = Some (ReadyList p) \<and> uxPriority (tcbs demo_kernel c) = p \<and>
    (\<forall>t q. container demo_kernel (StateItem t) = Some (ReadyList q) \<longrightarrow> q \<le> p) \<and>
    container s' = container demo_kernel"
  by (rule switch_runs_highest [OF demo_facts(1,3,2)])

text \<open>The tasks that \<open>n\<close> context switches in a row choose.\<close>

primrec switches :: "nat \<Rightarrow> kernel \<Rightarrow> (tid option list \<times> kernel) option" where
  "switches 0 s = Some ([], s)"
| "switches (Suc n) s = do {
     s \<leftarrow> vTaskSwitchContext s;
     (cs, s') \<leftarrow> switches n s;
     Some (pxCurrentTCB s # cs, s') }"

lemma switches_round:
  "core_ok s \<Longrightarrow> uxSchedulerSuspended s = 0 \<Longrightarrow> top_ready s p \<Longrightarrow>
   \<exists>s'. switches n s = Some (map (\<lambda>j. Some (owner_of (kl_round (klists s (ReadyList p)) !
      (j mod length (kitems (klists s (ReadyList p))))))) [0..<n], s')"
proof (induction n arbitrary: s)
  case (Suc n)
  let ?k = "klists s (ReadyList p)" and ?s = "switched s p"
  have wf: "kl_wf ?k" by (rule lists_okD(1) [OF core_okD(1) [OF Suc.prems(1)]])
  have ne: "kitems ?k \<noteq> []" using Suc.prems(3) by (simp add: top_ready_def is_empty_def)
  have ok': "core_ok ?s" "uxSchedulerSuspended ?s = 0" "top_ready ?s p" "klists ?s (ReadyList p) = kl_next ?k"
    "pxCurrentTCB ?s = Some (owner_of (hd (kl_round ?k)))"
    using core_ok_switched [OF Suc.prems(1,3)] Suc.prems(2,3)
    by (simp_all add: switched_def top_ready_def is_empty_def)
  have len: "length (kl_round ?k) = length (kitems ?k)" by (rule kl_round_perm(3) [OF wf])
  then have "kl_round ?k \<noteq> []" using ne by auto
  then have hd: "hd (kl_round ?k) = kl_round ?k ! 0" by (rule hd_conv_nth)
  have rot: "kl_round (kl_next ?k) ! (j mod length (kitems ?k)) = kl_round ?k ! (Suc j mod length (kitems ?k))" for j
    using kl_next_simps [OF wf ne] ne len by (simp add: nth_rotate1 mod_Suc_eq)
  obtain s' where "switches n ?s = Some (map (\<lambda>j. Some (owner_of (kl_round (kl_next ?k) !
      (j mod length (kitems ?k))))) [0..<n], s')"
    using Suc.IH [OF ok'(1-3)] by (auto simp: ok'(4))
  then show ?case
    using vTaskSwitchContext_top [OF Suc.prems] ok'(5)
    by (simp add: rot hd upt_conv_Cons map_Suc_upt [symmetric] del: upt_Suc)
qed simp

text \<open>
  C17. As many context switches in a row as the highest non-empty ready list has tasks
  select each of them exactly once.
\<close>

theorem round_robin:
  assumes "sched_ok s" "uxSchedulerSuspended s = 0" "top_ready s p"
  shows "\<exists>cs s'. switches (length (kitems (klists s (ReadyList p)))) s = Some (map Some cs, s') \<and>
    distinct cs \<and> set cs = {t. container s (StateItem t) = Some (ReadyList p)}"
proof -
  let ?k = "klists s (ReadyList p)"
  have core: "core_ok s" using assms(1) by (rule sched_okD)
  have wf: "kl_wf ?k" by (rule lists_okD(1) [OF core_okD(1) [OF core]])
  have len: "length (kl_round ?k) = length (kitems ?k)" by (rule kl_round_perm(3) [OF wf])
  have m: "map (\<lambda>j. Some (owner_of (kl_round ?k ! (j mod length (kitems ?k))))) [0..<length (kitems ?k)] =
      map Some (map owner_of (kl_round ?k))"
    using len by (intro nth_equalityI) simp_all
  have items: "\<exists>t. i = StateItem t \<and> container s (StateItem t) = Some (ReadyList p)" if "i \<in> set (kl_round ?k)" for i
    using core_ok_items [OF core, of "ReadyList p" i] that kl_round_perm(1) [OF wf] by simp
  have "inj_on owner_of (set (kl_round ?k))" by (rule inj_onI) (auto dest!: items)
  then have "distinct (map owner_of (kl_round ?k))" using kl_round_perm(2) [OF wf] by (simp add: distinct_map)
  moreover have "set (map owner_of (kl_round ?k)) = {t. container s (StateItem t) = Some (ReadyList p)}"
  proof -
    have "t \<in> owner_of ` set (kl_round ?k)" if "container s (StateItem t) = Some (ReadyList p)" for t
    proof -
      have "StateItem t \<in> set (kl_round ?k)"
        using that lists_okD(2) [OF core_okD(1) [OF core], of "StateItem t" "ReadyList p"] kl_round_perm(1) [OF wf] by simp
      then have "owner_of (StateItem t) \<in> owner_of ` set (kl_round ?k)" by (rule imageI)
      then show ?thesis by simp
    qed
    then show ?thesis by (auto dest!: items)
  qed
  ultimately show ?thesis using switches_round [OF core assms(2,3), of "length (kitems ?k)"] unfolding m by blast
qed

theorem round_robin_witness:
  "\<exists>cs s'. switches 2 demo_kernel = Some (map Some cs, s') \<and> distinct cs \<and>
     set cs = {t. container demo_kernel (StateItem t) = Some (ReadyList 3)}"
proof -
  have "top_ready demo_kernel 3" "uxSchedulerSuspended demo_kernel = 0"
    "length (kitems (klists demo_kernel (ReadyList 3))) = 2"
    by (auto simp: top_ready_def is_empty_def demo_kernel_def kl_empty_def)
  then show ?thesis using round_robin [of demo_kernel 3] demo_kernel_wf by (simp add: kernel_wf_def)
qed

section \<open>The tick\<close>

text \<open>
  C9. xTaskIncrementTick advances the tick by one and readies exactly the sleeping tasks
  whose wake time is the new tick, taking them off their event lists; it asks for a switch
  exactly when a yield is pending, a task shares the running task's priority, or a woken
  task has a higher one.
\<close>

theorem tick_wakes_due:
  assumes "sched_ok s" "uxSchedulerSuspended s = 0" "pxCurrentTCB s = Some c"
  shows "\<exists>r s'. xTaskIncrementTick s = Some (r, s') \<and> sched_ok s' \<and> xTickCount s' = xTickCount s + 1 \<and>
    (\<forall>t. container s' (StateItem t) =
       (if sleeping s t \<and> item_value s (StateItem t) = xTickCount s + 1
        then Some (ReadyList (uxPriority (tcbs s t))) else container s (StateItem t))) \<and>
    (\<forall>t. container s' (EventItem t) =
       (if sleeping s t \<and> item_value s (StateItem t) = xTickCount s + 1 then None else container s (EventItem t))) \<and>
    (r \<longleftrightarrow> xYieldPending s \<or> 1 < length (kitems (klists s' (ReadyList (uxPriority (tcbs s c))))) \<or>
      (\<exists>t. sleeping s t \<and> item_value s (StateItem t) = xTickCount s + 1 \<and>
           uxPriority (tcbs s c) < uxPriority (tcbs s t)))"
proof -
  have d: "due s t \<longleftrightarrow> sleeping s t \<and> item_value s (StateItem t) = xTickCount s + 1" for t
  proof -
    have "remaining s t = 1 \<longleftrightarrow> item_value s (StateItem t) = xTickCount s + 1"
      using word_unat_eq_iff [of "item_value s (StateItem t) - xTickCount s" 1]
      by (simp add: remaining_def diff_eq_eq add.commute)
    then show ?thesis using due_iff_remaining [OF assms(1)] by simp
  qed
  obtain r s' where t: "xTaskIncrementTick s = Some (r, s')" "sched_ok s'" "woken (due s) (tick_on s) s'"
    "r \<longleftrightarrow> (\<exists>t. due s t \<and> uxPriority (tcbs s c) < uxPriority (tcbs s t)) \<or>
       1 < length (kitems (klists s' (ReadyList (uxPriority (tcbs s c))))) \<or> xYieldPending s"
    using xTaskIncrementTick_ok [OF assms] by blast
  have "xTickCount s' = xTickCount s + 1" using t(3) by (simp add: woken_def)
  moreover have "\<forall>t. container s' (StateItem t) = (if due s t then Some (ReadyList (uxPriority (tcbs s t)))
      else container s (StateItem t))"
    "\<forall>t. container s' (EventItem t) = (if due s t then None else container s (EventItem t))"
    using t(3) by (simp_all add: woken_def)
  ultimately show ?thesis using t(1,2,4) unfolding d by (intro exI [of _ r] exI [of _ s']) blast
qed

theorem tick_wakes_due_witness:
  "\<exists>r s'. xTaskIncrementTick demo_kernel = Some (r, s') \<and> xTickCount s' = 11 \<and>
     container s' (StateItem 3) = Some (ReadyList 4)"
proof -
  have "sleeping demo_kernel 3" "item_value demo_kernel (StateItem 3) = 11"
    "uxPriority (tcbs demo_kernel 3) = 4"
    by (simp_all add: demo_kernel_def sleeping_def demo_tcb_def)
  then show ?thesis using tick_wakes_due [OF demo_facts(1,3,4)] demo_facts(7) by (auto intro: exI)
qed

text \<open>
  C3. A task that calls vTaskDelay(k) is switched out for the highest priority ready task,
  sleeps through the next k - 1 tick interrupts and is in the ready list of its priority
  after the k-th and every later one, also when the tick count wraps in between; at every
  moment the scheduler's invariant holds.
\<close>

theorem delay_is_exact:
  assumes wf: "kernel_wf i s" and sus: "uxSchedulerSuspended s = 0" and t: "pxCurrentTCB s = Some t" "t \<noteq> i"
    and idle: "is_empty PendingReadyList s" "xPendedTicks s = 0" and k: "k \<noteq> 0"
  shows "\<exists>s1. vTaskDelay k s = Some s1 \<and> pxCurrentTCB s1 \<noteq> Some t \<and> runs_highest s1 \<and>
    (\<forall>n. \<exists>s2. run_ticks switch_if n s1 = Some s2 \<and> sched_ok s2 \<and> xTickCount s2 = xTickCount s + of_nat n \<and>
       (if n < unat k then sleeping s2 t
        else container s2 (StateItem t) = Some (ReadyList (uxPriority (tcbs s t)))))"
proof -
  have ok: "sched_ok s" and n: "uxCurrentNumberOfTasks s \<noteq> 0" and l: "container s (StateItem t) \<noteq> None"
    and i: "\<exists>p. container s (StateItem i) = Some (ReadyList p)"
    using wf t(1) by (auto simp: kernel_wf_def is_ready_def alive_def)
  from i obtain p where p: "container s (StateItem i) = Some (ReadyList p)" ..
  obtain s1 where s1: "vTaskDelay k s = Some s1" "sched_ok s1" "uxSchedulerSuspended s1 = 0"
    "pxCurrentTCB s1 \<noteq> None" "sleeping s1 t" "remaining s1 t = unat k" "xTickCount s1 = xTickCount s"
    "uxPriority (tcbs s1 t) = uxPriority (tcbs s t)" "runs_highest s1"
    using vTaskDelay_ok [OF ok sus n t(1) l p t(2) [symmetric] idle k] by blast
  have rd: "some_ready s1" using s1(9) by (auto simp: runs_highest_def some_ready_def)
  have ne: "pxCurrentTCB s1 \<noteq> Some t" using s1(5,9) by (auto simp: runs_highest_def sleeping_def)
  have "\<exists>s2. run_ticks switch_if n s1 = Some s2 \<and> sched_ok s2 \<and> xTickCount s2 = xTickCount s + of_nat n \<and>
       (if n < unat k then sleeping s2 t
        else container s2 (StateItem t) = Some (ReadyList (uxPriority (tcbs s t))))" for n
  proof -
    obtain s2 where s2: "run_ticks switch_if n s1 = Some s2" "sched_ok s2" "time_passed n s1 s2"
      using timer_isr.run_ticks_ok [OF s1(2-4) rd] by blast
    have "fate n s1 s2 t" "xTickCount s2 = xTickCount s + of_nat n"
      using s2(3) s1(7) by (simp_all add: time_passed_def)
    then show ?thesis using s2(1,2) s1(5,6,8) by (auto simp: fate_def)
  qed
  then show ?thesis using s1(1,9) ne by blast
qed

theorem delay_is_exact_witness:
  "\<exists>s1. vTaskDelay 0xFFFFFFF8 demo_kernel = Some s1 \<and> pxCurrentTCB s1 \<noteq> Some 1 \<and> runs_highest s1 \<and>
    (\<forall>n. \<exists>s2. run_ticks switch_if n s1 = Some s2 \<and> sched_ok s2 \<and> xTickCount s2 = xTickCount demo_kernel + of_nat n \<and>
       (if n < unat (0xFFFFFFF8 :: word32) then sleeping s2 1
        else container s2 (StateItem 1) = Some (ReadyList (uxPriority (tcbs demo_kernel 1)))))"
  by (rule delay_is_exact [OF demo_kernel_wf demo_facts(3,4) _ demo_facts(5,6)]) simp_all

text \<open>
  C15. The outermost xTaskResumeAll readies every pended task and replays the ticks that
  came while the scheduler was suspended, so that the tick count and every sleeping task
  are as if those ticks had been handled in time.
\<close>

theorem resume_all_catches_up:
  assumes "sched_ok s" "uxSchedulerSuspended s = 1" "uxCurrentNumberOfTasks s \<noteq> 0"
    "pxCurrentTCB s = Some c" "some_ready s"
  shows "\<exists>y s'. xTaskResumeAll s = Some (y, s') \<and> sched_ok s' \<and> uxSchedulerSuspended s' = 0 \<and> xPendedTicks s' = 0 \<and>
    xTickCount s' = xTickCount s + xPendedTicks s \<and>
    (\<forall>t. container s (EventItem t) = Some PendingReadyList \<longrightarrow> is_ready s' t) \<and>
    (\<forall>t. sleeping s t \<and> container s (EventItem t) \<noteq> Some PendingReadyList \<longrightarrow>
       (if unat (xPendedTicks s) < remaining s t
        then sleeping s' t \<and> remaining s' t = remaining s t - unat (xPendedTicks s) else is_ready s' t))"
proof -
  obtain y s1 s' where r: "xTaskResumeAll s = Some (y, s')" "sched_ok s'" "uxSchedulerSuspended s' = 0"
    "xPendedTicks s' = 0" "sched_ok s1"
    "woken (\<lambda>t. container s (EventItem t) = Some PendingReadyList)
       (s\<lparr>uxSchedulerSuspended := 0, xPendedTicks := 0\<rparr>) s1" "time_passed (unat (xPendedTicks s)) s1 s'"
    using xTaskResumeAll_ok [OF assms] by metis
  note w = r(6) [unfolded woken_def, simplified]
  have "is_ready s' t" if "container s (EventItem t) = Some PendingReadyList" for t
  proof -
    have "is_ready s1 t" using w that by (simp add: is_ready_def)
    then show ?thesis using keeps_time_passed [OF r(7), of "{}"] by (simp add: keeps_def)
  qed
  moreover have "if unat (xPendedTicks s) < remaining s t
      then sleeping s' t \<and> remaining s' t = remaining s t - unat (xPendedTicks s) else is_ready s' t"
    if "sleeping s t" "container s (EventItem t) \<noteq> Some PendingReadyList" for t
  proof -
    have s1: "sleeping s1 t" "remaining s1 t = remaining s t"
      using w that by (simp_all add: sleeping_def remaining_def)
    have "fate (unat (xPendedTicks s)) s1 s' t" using r(7) by (simp add: time_passed_def)
    then show ?thesis using s1 by (auto simp: fate_def is_ready_def)
  qed
  moreover have "xTickCount s' = xTickCount s + xPendedTicks s" using r(7) w by (simp add: time_passed_def)
  ultimately show ?thesis using r(1-4) by blast
qed

definition held_up :: kernel where
  "held_up = demo_kernel\<lparr>uxSchedulerSuspended := 1, xPendedTicks := 2\<rparr>"

theorem resume_all_catches_up_witness:
  "\<exists>y s'. xTaskResumeAll held_up = Some (y, s') \<and> xTickCount s' = 12 \<and> is_ready s' 3"
proof -
  have f: "sched_ok held_up" "uxSchedulerSuspended held_up = 1" "pxCurrentTCB held_up = Some 1" "some_ready held_up"
    using demo_facts(1,2,4) by (simp_all add: held_up_def some_ready_def)
  have g: "uxCurrentNumberOfTasks held_up \<noteq> 0" "xTickCount held_up = 10" "xPendedTicks held_up = 2"
    "sleeping held_up 3" "remaining held_up 3 = 1" "container held_up (EventItem 3) = None"
    by (simp_all add: held_up_def demo_kernel_def sleeping_def remaining_def)
  show ?thesis using resume_all_catches_up [OF f(1,2) g(1) f(3,4)] g(2-6) by auto
qed

end
