(* ===== verification/Queue_Properties.thy ===== *)
theory Queue_Properties
  imports Queue Scheduler_Properties
begin

text \<open>
  A queue as its callers see it: whatever is sent and received, the results are those of a
  bounded double-ended queue, and no byte outside the storage is written.
\<close>

lemma new_queue_holds:
  assumes r: "prvInitialiseNewQueue len isz storage new q s = Some s'" and isz: "isz \<noteq> 0"
    and room: "isz \<le> storage" "unat storage + unat len * unat isz < 2 ^ 32"
  shows "holds (memry s', queues s' q) []" "uxLength (queues s' q) = len" "uxItemSize (queues s' q) = isz"
    "pcHead (queues s' q) = storage" "pcTail (queues s' q) = storage + len * isz" "memry s' = memry s"
proof -
  have len: "1 \<le> len" using r by (auto simp: prvInitialiseNewQueue_def xQueueGenericReset_def upd_queue_def Let_def split: if_splits)
  have Q: "queues s' q = (queues s q)\<lparr>pcHead := storage, uxLength := len, uxItemSize := isz,
      pcTail := storage + len * isz, uxMessagesWaiting := 0, pcWriteTo := storage,
      pcReadFrom := storage + (len - 1) * isz, cRxLock := queueUNLOCKED, cTxLock := queueUNLOCKED,
      xMutexHolder := None, uxRecursiveCallCount := 0\<rparr>" and m: "memry s' = memry s"
    using r isz by (auto simp: prvInitialiseNewQueue_def xQueueGenericReset_def upd_queue_def Let_def split: if_splits)
  have n: "0 < unat len" "unat (len - 1) = unat len - 1" using len unat_minus_le [of 1 len]
    by (auto simp: word_le_nat_alt)
  have "of_nat (unat (len - 1) * unat isz) = (len - 1) * isz" by simp
  then have nl: "of_nat (unat len * unat isz) = len * isz" "of_nat ((unat len - 1) * unat isz) = (len - 1) * isz"
    by (simp, simp only: n(2))
  show "holds (memry s', queues s' q) []"
    using n(1) isz room nl by (auto simp: holds_def storage_ok_def slot_def Q intro!: exI [of _ "unat len - 1"])
  show "uxLength (queues s' q) = len" "uxItemSize (queues s' q) = isz"
    "pcHead (queues s' q) = storage" "pcTail (queues s' q) = storage + len * isz" "memry s' = memry s" by (simp_all add: Q m)
qed

abbreviation ring_step :: "byte list deque_op \<Rightarrow> memory \<times> Queue_t \<Rightarrow> (bool \<times> byte list option) \<times> memory \<times> Queue_t" where
  "ring_step \<equiv> buffer_step ring_capacity ring_count store_item fetch_item peek_item"

lemma ring_step_frame:
  assumes h: "holds s xs" and p: "ring.proper c s" and a: "\<not> in_storage (snd s) a"
  shows "fst (snd (ring_step c s)) a = fst s a" "in_storage (snd (snd (ring_step c s))) = in_storage (snd s)"
proof -
  obtain m q where s: "s = (m, q)" by (cases s)
  have "fst (snd (ring_step c s)) a = fst s a \<and> in_storage (snd (snd (ring_step c s))) = in_storage (snd s)"
  proof (cases c)
    case (Put pos x)
    then have "fst (store_item pos x s) a = m a"
      using store_item_frame [of m q xs x a pos] h p a by (simp add: s buffer_proper)
    then show ?thesis by (simp add: Put s in_storage_def store_item_shape fun_eq_iff)
  next
    case Get
    then show ?thesis by (simp add: split_beta Let_def in_storage_def fetch_item_shape fun_eq_iff)
  next
    case Peek
    have "fst (snd (peek_item s)) = fst s \<and> pcHead (snd (snd (peek_item s))) = pcHead (snd s) \<and>
        pcTail (snd (snd (peek_item s))) = pcTail (snd s)"
      by (simp add: peek_item_def prvCopyDataFromQueue_def Let_def split_beta)
    then show ?thesis by (simp add: Peek split_beta Let_def in_storage_def fun_eq_iff)
  qed
  then show "fst (snd (ring_step c s)) a = fst s a" "in_storage (snd (snd (ring_step c s))) = in_storage (snd s)" by auto
qed

lemma ring_run_frame:
  "holds s xs \<Longrightarrow> \<forall>c \<in> set cs. ring.proper c s \<Longrightarrow> \<not> in_storage (snd s) a \<Longrightarrow>
   fst (snd (run_ops ring_step cs s)) a = fst s a"
proof (induction cs arbitrary: s xs)
  case (Cons c cs)
  have p: "ring.proper c s" using Cons.prems(2) by simp
  note st = ring.step_refines [OF Cons.prems(1) p]
  note fr = ring_step_frame [OF Cons.prems(1) p]
  have "\<forall>d \<in> set cs. ring.proper d (snd (ring_step c s))"
    using Cons.prems(2) ring.proper_cong [OF st(3,4)] by simp
  from Cons.IH [OF st(2) this] fr [OF Cons.prems(3)] Cons.prems(3) show ?case by (simp add: split_beta Let_def)
qed simp



definition demo_sys :: sys where
  "demo_sys = \<lparr>kern = demo_kernel, memry = (\<lambda>_. 0), queues = (\<lambda>_. Queue_t.make 0 0 0 0 None 0 0 0 0 0 0)\<rparr>"


end
