(* ===== verification/Task_Properties.thy ===== *)
theory Task_Properties
  imports Scheduler_Properties
begin

text \<open>
  The theorems on the task API as a whole: any sequence of calls, the start of the system,
  timeouts, and the lists the scheduler is built on.
\<close>

section \<open>Sequences of calls\<close>

text \<open>
  The calls that tasks and interrupts make while the scheduler runs. \<open>allowed\<close> collects what
  the documentation asks of the caller: live handles, no blocking call while the scheduler is
  suspended, and an idle task that neither blocks nor is suspended or deleted.
\<close>

datatype kernel_call =
    TickInterrupt
  | Yield
  | Delay word32
  | DelayUntil word32 word32
  | Suspend "tid option"
  | Resume tid
  | ResumeFromISR tid
  | Delete "tid option"
  | PrioritySet "tid option" word32
  | AbortDelay tid
  | SuspendAll
  | ResumeAll
  | WaitForEvent nat word32
  | SignalEvent nat
  | Notify tid word32 eNotifyAction
  | NotifyFromISR tid word32 eNotifyAction
  | NotifyWait word32 word32

fun exec :: "kernel_call \<Rightarrow> kernel \<Rightarrow> kernel option" where
  "exec TickInterrupt s = do { (r, s) \<leftarrow> xTaskIncrementTick s; switch_if r s }"
| "exec Yield s = vTaskSwitchContext s"
| "exec (Delay n) s = vTaskDelay n s"
| "exec (DelayUntil w n) s = map_option (\<lambda>(_, _, s). s) (xTaskDelayUntil w n s)"
| "exec (Suspend h) s = vTaskSuspend h s"
| "exec (Resume t) s = vTaskResume t s"
| "exec (ResumeFromISR t) s = map_option snd (xTaskResumeFromISR t s)"
| "exec (Delete h) s = vTaskDelete h s"
| "exec (PrioritySet h p) s = vTaskPrioritySet h p s"
| "exec (AbortDelay t) s = map_option snd (xTaskAbortDelay t s)"
| "exec SuspendAll s = Some (vTaskSuspendAll s)"
| "exec ResumeAll s = map_option snd (xTaskResumeAll s)"
| "exec (WaitForEvent e n) s = vTaskPlaceOnEventList e n s"
| "exec (SignalEvent e) s = map_option snd (xTaskRemoveFromEventList e s)"
| "exec (Notify t x a) s = map_option (\<lambda>(_, _, s). s) (xTaskGenericNotify t x a s)"
| "exec (NotifyFromISR t x a) s = map_option (\<lambda>(_, _, _, s). s) (xTaskGenericNotifyFromISR t x a s)"
| "exec (NotifyWait b n) s = map_option snd (notify_wait_enter b n s)"

definition handle_ok :: "tid option \<Rightarrow> kernel \<Rightarrow> (tid \<Rightarrow> bool) \<Rightarrow> bool" where
  "handle_ok h s P \<longleftrightarrow> (case tcb_of_handle h s of None \<Rightarrow> False | Some t \<Rightarrow> alive s t \<and> P t)"

definition may_block :: "tid \<Rightarrow> kernel \<Rightarrow> bool" where
  "may_block i s \<longleftrightarrow> uxSchedulerSuspended s = 0 \<and> pxCurrentTCB s \<noteq> Some i"

definition may_notify :: "tid \<Rightarrow> kernel \<Rightarrow> bool" where
  "may_notify t s \<longleftrightarrow> alive s t \<and>
     (ucNotifyState (tcbs s t) = WaitingNotification \<longrightarrow> container s (EventItem t) = None)"

fun allowed :: "tid \<Rightarrow> kernel_call \<Rightarrow> kernel \<Rightarrow> bool" where
  "allowed i TickInterrupt s \<longleftrightarrow> True"
| "allowed i Yield s \<longleftrightarrow> True"
| "allowed i (Delay n) s \<longleftrightarrow> may_block i s"
| "allowed i (DelayUntil w n) s \<longleftrightarrow> may_block i s \<and> n \<noteq> 0"
| "allowed i (Suspend h) s \<longleftrightarrow>
     handle_ok h s (\<lambda>t. t \<noteq> i \<and> (pxCurrentTCB s = Some t \<longrightarrow> uxSchedulerSuspended s = 0))"
| "allowed i (Resume t) s \<longleftrightarrow> True"
| "allowed i (ResumeFromISR t) s \<longleftrightarrow> True"
| "allowed i (Delete h) s \<longleftrightarrow>
     handle_ok h s (\<lambda>t. t \<noteq> i) \<and> uxSchedulerSuspended s = 0 \<and> uxCurrentNumberOfTasks s \<noteq> 1"
| "allowed i (PrioritySet h p) s \<longleftrightarrow> handle_ok h s (\<lambda>_. True) \<and> p < configMAX_PRIORITIES"
| "allowed i (AbortDelay t) s \<longleftrightarrow> uxSchedulerSuspended s \<noteq> portMAX_DELAY"
| "allowed i SuspendAll s \<longleftrightarrow> True"
| "allowed i ResumeAll s \<longleftrightarrow> uxSchedulerSuspended s \<noteq> 0"
| "allowed i (WaitForEvent e n) s \<longleftrightarrow> n \<noteq> 0 \<and>
     (case pxCurrentTCB s of None \<Rightarrow> False | Some t \<Rightarrow> t \<noteq> i \<and> container s (EventItem t) = None)"
| "allowed i (SignalEvent e) s \<longleftrightarrow> \<not> is_empty (EventList e) s"
| "allowed i (Notify t x a) s \<longleftrightarrow> may_notify t s"
| "allowed i (NotifyFromISR t x a) s \<longleftrightarrow> may_notify t s"
| "allowed i (NotifyWait b n) s \<longleftrightarrow> may_block i s"

lemma handle_okE:
  assumes "handle_ok h s P" obtains t where "tcb_of_handle h s = Some t" "alive s t" "P t"
  using assms by (auto simp: handle_ok_def split: option.splits)

lemma exec_TickInterrupt: "kernel_wf i s \<Longrightarrow> \<exists>s'. exec TickInterrupt s = Some s' \<and> kernel_wf i s'"
proof -
  assume wf: "kernel_wf i s"
  show ?thesis
  proof (cases "uxSchedulerSuspended s = 0")
    case True
    obtain r s1 where s1: "xTaskIncrementTick s = Some (r, s1)" "kernel_wf i s1" using wf_tick [OF wf True] by blast
    then show ?thesis using wf_switch [OF s1(2)] by (auto simp: switch_if_def)
  next
    case False
    then show ?thesis using wf by (simp add: xTaskIncrementTick_def switch_if_def kernel_wf_def alive_def is_ready_def)
  qed
qed

lemma exec_NotifyWait:
  assumes wf: "kernel_wf i s" and b: "may_block i s"
  shows "\<exists>s'. exec (NotifyWait m n) s = Some s' \<and> kernel_wf i s'"
proof -
  obtain c where c: "pxCurrentTCB s = Some c" "c \<noteq> i" using wf b by (auto simp: kernel_wf_def may_block_def)
  have "\<exists>s'. notify_block (ulNotifiedValue_update (\<lambda>v. v AND NOT m)) n s = Some s' \<and> kernel_wf i s'" if "n \<noteq> 0"
    by (rule notify_block_wf [OF wf _ c that]) (use b in \<open>simp_all add: may_block_def\<close>)
  then show ?thesis using wf c by (auto simp: notify_wait_enter_def word_gt_0)
qed

lemma exec_ok:
  assumes wf: "kernel_wf i s" and a: "allowed i c s"
  shows "\<exists>s'. exec c s = Some s' \<and> kernel_wf i s'"
proof (cases c)
  case TickInterrupt then show ?thesis using exec_TickInterrupt [OF wf] by simp
next
  case Yield then show ?thesis using wf_switch [OF wf] by auto
next
  case (Delay n) then show ?thesis using vTaskDelay_wf [OF wf] a by (auto simp: may_block_def)
next
  case (DelayUntil w n)
  then have "uxSchedulerSuspended s = 0" "pxCurrentTCB s \<noteq> Some i" "n \<noteq> 0" using a by (simp_all add: may_block_def)
  from xTaskDelayUntil_wf [OF wf this, of w] show ?thesis using DelayUntil by auto
next
  case (Suspend h)
  then obtain t where "tcb_of_handle h s = Some t" "alive s t" "t \<noteq> i"
    "pxCurrentTCB s = Some t \<longrightarrow> uxSchedulerSuspended s = 0" using a by (auto elim: handle_okE)
  then show ?thesis using vTaskSuspend_wf [OF wf] Suspend by auto
next
  case (Resume t) then show ?thesis using vTaskResume_wf [OF wf] by auto
next
  case (ResumeFromISR t)
  obtain r s' where "xTaskResumeFromISR t s = Some (r, s')" "kernel_wf i s'"
    using xTaskResumeFromISR_wf [OF wf] by blast
  then show ?thesis using ResumeFromISR by simp
next
  case (Delete h)
  then obtain t where t: "tcb_of_handle h s = Some t" "alive s t" "t \<noteq> i"
    "uxSchedulerSuspended s = 0" "uxCurrentNumberOfTasks s \<noteq> 1" using a by (auto elim: handle_okE)
  then show ?thesis using vTaskDelete_wf [OF wf t] Delete by auto
next
  case (PrioritySet h p)
  then obtain t where t: "tcb_of_handle h s = Some t" "alive s t" "p < configMAX_PRIORITIES"
    using a by (auto elim: handle_okE)
  then show ?thesis using vTaskPrioritySet_wf [OF wf t] PrioritySet by auto
next
  case (AbortDelay t)
  then obtain r s' where "xTaskAbortDelay t s = Some (r, s')" "kernel_wf i s'"
    using xTaskAbortDelay_wf [OF wf] a by (auto simp only: allowed.simps) blast
  then show ?thesis using AbortDelay by simp
next
  case SuspendAll then show ?thesis using wf_suspend_all [OF wf] by simp
next
  case ResumeAll
  then obtain y s' where "xTaskResumeAll s = Some (y, s')" "kernel_wf i s'"
    using wf_resume_all [OF wf] a by auto
  then show ?thesis using ResumeAll by simp
next
  case (WaitForEvent e n)
  then obtain t where t: "pxCurrentTCB s = Some t" "t \<noteq> i" "n \<noteq> 0" "container s (EventItem t) = None"
    using a by (auto split: option.splits)
  then show ?thesis using vTaskPlaceOnEventList_wf [OF wf t] WaitForEvent by auto
next
  case (SignalEvent e)
  then have "\<not> is_empty (EventList e) s" using a by simp
  then obtain r s' where "xTaskRemoveFromEventList e s = Some (r, s')" "kernel_wf i s'"
    using xTaskRemoveFromEventList_wf [OF wf] by blast
  then show ?thesis using SignalEvent by simp
next
  case (Notify t x b)
  then have "alive s t" "ucNotifyState (tcbs s t) = WaitingNotification \<Longrightarrow> container s (EventItem t) = None"
    using a by (simp_all add: may_notify_def)
  then obtain r v s' where "xTaskGenericNotify t x b s = Some (r, v, s')" "kernel_wf i s'"
    using xTaskGenericNotify_wf [OF wf] by blast
  then show ?thesis using Notify by simp
next
  case (NotifyFromISR t x b)
  then have "alive s t" "ucNotifyState (tcbs s t) = WaitingNotification \<Longrightarrow> container s (EventItem t) = None"
    using a by (simp_all add: may_notify_def)
  then obtain r y v s' where "xTaskGenericNotifyFromISR t x b s = Some (r, y, v, s')" "kernel_wf i s'"
    using xTaskGenericNotifyFromISR_wf [OF wf] by blast
  then show ?thesis using NotifyFromISR by simp
next
  case (NotifyWait m n) then show ?thesis using exec_NotifyWait [OF wf] a by simp
qed

fun run_calls :: "kernel_call list \<Rightarrow> kernel \<Rightarrow> kernel option" where
  "run_calls [] s = Some s"
| "run_calls (c # cs) s = do { s \<leftarrow> exec c s; run_calls cs s }"

text \<open>Every call is allowed in the state in which it is made.\<close>

fun admissible :: "tid \<Rightarrow> kernel_call list \<Rightarrow> kernel \<Rightarrow> bool" where
  "admissible i [] s \<longleftrightarrow> True"
| "admissible i (c # cs) s \<longleftrightarrow> allowed i c s \<and>
     (case exec c s of None \<Rightarrow> True | Some s' \<Rightarrow> admissible i cs s')"


definition demo_calls :: "kernel_call list" where
  "demo_calls = [NotifyWait 0 5, Delay 2, TickInterrupt, WaitForEvent 0 7, Yield, TickInterrupt, SuspendAll,
     NotifyFromISR 1 5 eSetBits, TickInterrupt, SignalEvent 0, ResumeAll, PrioritySet None 1, Suspend (Some 2),
     Resume 2, AbortDelay 3, Delete (Some 3)]"


section \<open>The lists of the scheduler and the list code\<close>

text \<open>
  Every change the scheduler makes to its lists is one of these. \<open>on_kernel\<close> makes it on the
  abstract lists of the kernel state, with the condition the scheduler meets (an item is only
  inserted when it is in no list, only a list that is not empty is walked), and \<open>on_store\<close>
  calls the functions of \<^verbatim>\<open>list.c\<close>.
\<close>

datatype list_call = InsertEnd lid item | Insert lid item | Remove item | NextEntry lid

fun on_kernel :: "list_call \<Rightarrow> kernel \<Rightarrow> kernel option" where
  "on_kernel (InsertEnd l i) s = (if container s i = None then Some (insert_end l i s) else None)"
| "on_kernel (Insert l i) s = (if container s i = None then Some (insert_value l i s) else None)"
| "on_kernel (Remove i) s = list_remove i s"
| "on_kernel (NextEntry l) s = (if is_empty l s then None else Some (snd (next_entry l s)))"

fun on_store :: "list_call \<Rightarrow> (item, lid) store \<Rightarrow> (item, lid) store option" where
  "on_store (InsertEnd l i) st = Some (vListInsertEnd l i st)"
| "on_store (Insert l i) st = vListInsert l i st"
| "on_store (Remove i) st = map_option snd (uxListRemove i st)"
| "on_store (NextEntry l) st = Some (snd (listGET_OWNER_OF_NEXT_ENTRY l st))"

primrec seq :: "('c \<Rightarrow> 's \<Rightarrow> 's option) \<Rightarrow> 'c list \<Rightarrow> 's \<Rightarrow> 's option" where
  "seq f [] s = Some s"
| "seq f (c # cs) s = do { s \<leftarrow> f c s; seq f cs s }"

lemma list_call_refines:
  assumes r: "refines addr st s" and ok: "lists_ok s" and c: "on_kernel c s = Some s'"
  shows "\<exists>st'. on_store c st = Some st' \<and> refines addr st' s' \<and> lists_ok s'"
proof (cases c)
  case (InsertEnd l i)
  then show ?thesis
    using c refines_insert_end [OF r ok, of i l] lists_ok_insert_end [OF ok, of i l] by (auto split: if_splits)
next
  case (Insert l i)
  then show ?thesis
    using c refines_insert_value [OF r ok, of i l] lists_ok_insert_value [OF ok, of i l] by (auto split: if_splits)
next
  case (Remove i)
  then show ?thesis
    using c refines_remove [OF r ok, of i s'] lists_ok_remove [OF ok, of i s'] by auto
next
  case (NextEntry l)
  then show ?thesis
    using c refines_next [OF r ok, of l] lists_ok_next [OF ok, of l] by (auto split: if_splits)
qed


definition empty_store :: "(item, lid) store" where
  "empty_store = \<lparr>nodes = \<lambda>n. \<lparr>xItemValue = (case n of Item _ \<Rightarrow> 0 | ListEnd _ \<Rightarrow> portMAX_DELAY), pxNext = n,
       pxPrevious = n, pvOwner = (case n of Item i \<Rightarrow> of_nat (owner_of i) | ListEnd _ \<Rightarrow> 0), pxContainer = None\<rparr>,
     lists = \<lambda>l. \<lparr>uxNumberOfItems = 0, pxIndex = ListEnd l\<rparr>\<rparr>"

definition empty_kernel :: kernel where
  "empty_kernel = demo_kernel\<lparr>klists := \<lambda>_. kl_empty, container := \<lambda>_. None, item_value := \<lambda>_. 0\<rparr>"

lemma empty_refines: "refines of_nat empty_store empty_kernel" "lists_ok empty_kernel"
proof -
  have "repr empty_store l kl_empty" for l
    by (simp add: repr_def empty_store_def kl_empty_def kl_wf_def front_def index_node_def)
  then show "refines of_nat empty_store empty_kernel"
    by (simp add: refines_def reprs_def empty_kernel_def) (simp add: empty_store_def)
  show "lists_ok empty_kernel" by (simp add: lists_ok_def empty_kernel_def kl_empty_def kl_wf_def)
qed


section \<open>Timeouts\<close>

text \<open>The ticks since the start: the tick count and the number of times it has overflowed.\<close>

definition uptime :: "kernel \<Rightarrow> nat" where
  "uptime s = unat (xNumOfOverflows s) * 2 ^ 32 + unat (xTickCount s)"

definition waiting_in :: "kernel \<Rightarrow> bool" where
  "waiting_in s \<longleftrightarrow> (\<exists>c. pxCurrentTCB s = Some c \<and> \<not> ucDelayAborted (tcbs s c))"

text \<open>A blocked call checks its timeout each time it runs again, until it has expired.\<close>

fun check_all :: "TimeOut_t \<Rightarrow> word32 \<Rightarrow> kernel list \<Rightarrow> bool option" where
  "check_all timeout n [] = Some False"
| "check_all timeout n (s # ss) = do {
     (out, timeout, n, _) \<leftarrow> xTaskCheckForTimeOut timeout n s;
     if out then Some True else check_all timeout n ss }"

lemma unat_less_32: "unat (w :: word32) < 2 ^ 32"
  using unsigned_less [of w] by simp

lemma uptime_elapsed:
  assumes e: "uptime s = uptime s0 + e" "e < 2 ^ 32"
  shows "unat (xTickCount s - xTickCount s0) = e"
    "xNumOfOverflows s \<noteq> xNumOfOverflows s0 \<Longrightarrow> xTickCount s < xTickCount s0"
proof -
  let ?a = "unat (xNumOfOverflows s)" and ?b = "unat (xNumOfOverflows s0)"
  let ?t = "unat (xTickCount s)" and ?u = "unat (xTickCount s0)"
  have eq: "?a * 2 ^ 32 + ?t = ?b * 2 ^ 32 + ?u + e" using e(1) by (simp add: uptime_def)
  have lt: "?t < 2 ^ 32" "?u < 2 ^ 32" by (rule unat_less_32)+
  have "?t = (?a * 2 ^ 32 + ?t) mod 2 ^ 32" using lt by simp
  also have "\<dots> = (?u + e) mod 2 ^ 32" unfolding eq by (simp add: add.assoc)
  finally have m: "?t = (?u + e) mod 2 ^ 32" .
  have "xTickCount s = xTickCount s0 + of_nat e"
    using m by (simp add: word_unat_eq_iff unat_word_ariths unat_of_nat mod_simps)
  then show "unat (xTickCount s - xTickCount s0) = e" using e(2) by (simp add: unat_of_nat)
  show "xTickCount s < xTickCount s0" if "xNumOfOverflows s \<noteq> xNumOfOverflows s0"
  proof (rule ccontr)
    assume "\<not> xTickCount s < xTickCount s0"
    then have "?u \<le> ?t" by (simp add: word_less_nat_alt)
    moreover have "?a \<noteq> ?b" using that by (simp add: word_unat_eq_iff)
    moreover have "Suc ?a * 2 ^ 32 \<le> ?b * 2 ^ 32 \<or> Suc ?b * 2 ^ 32 \<le> ?a * 2 ^ 32"
      using \<open>?a \<noteq> ?b\<close> by (metis Suc_leI mult_le_mono1 nat_neq_iff)
    ultimately show False using eq lt e(2) by auto
  qed
qed

lemma xTaskCheckForTimeOut_exact:
  assumes w: "waiting_in s" and n: "n \<noteq> portMAX_DELAY" and e: "uptime s = uptime s0 + e" "e < 2 ^ 32"
  shows "xTaskCheckForTimeOut (vTaskInternalSetTimeOutState s0) n s =
    (if unat n \<le> e then Some (True, vTaskInternalSetTimeOutState s0, 0, s)
     else Some (False, vTaskInternalSetTimeOutState s, n - of_nat e, s))"
proof -
  obtain c where c: "pxCurrentTCB s = Some c" "\<not> ucDelayAborted (tcbs s c)" using w by (auto simp: waiting_in_def)
  note el = uptime_elapsed [OF e]
  have d: "xTickCount s - xTickCount s0 = of_nat e" by (simp add: el(1) [symmetric])
  have "xTickCount s - xTickCount s0 < n \<longleftrightarrow> \<not> unat n \<le> e" using el(1) by (simp add: word_less_nat_alt not_le)
  then show ?thesis
    using c n el(2) d by (auto simp: xTaskCheckForTimeOut_def vTaskInternalSetTimeOutState_def Let_def not_le [symmetric])
qed

text \<open>
  C20. A blocked call that re-checks its timeout at any sequence of times, less than 2^32
  ticks apart, is told that it has expired at the first of them that is at least the
  requested number of ticks after the start, across overflows of the tick count, and never
  before.
\<close>

theorem timeout_exact:
  assumes "n \<noteq> portMAX_DELAY" "\<forall>s \<in> set ss. waiting_in s"
    "successively (\<lambda>s s'. uptime s \<le> uptime s' \<and> uptime s' < uptime s + 2 ^ 32) (s0 # ss)"
  shows "check_all (vTaskInternalSetTimeOutState s0) n ss = Some (\<exists>s \<in> set ss. uptime s0 + unat n \<le> uptime s)"
  using assms
proof (induction ss arbitrary: s0 n)
  case (Cons s ss)
  obtain e where e: "uptime s = uptime s0 + e" "e < 2 ^ 32"
    using Cons.prems(3) le_Suc_ex [of "uptime s0" "uptime s"] by auto
  have chk: "xTaskCheckForTimeOut (vTaskInternalSetTimeOutState s0) n s =
    (if unat n \<le> e then Some (True, vTaskInternalSetTimeOutState s0, 0, s)
     else Some (False, vTaskInternalSetTimeOutState s, n - of_nat e, s))"
    by (rule xTaskCheckForTimeOut_exact [OF _ Cons.prems(1) e]) (use Cons.prems in simp)
  show ?case
  proof (cases "unat n \<le> e")
    case True then show ?thesis using chk e(1) by simp
  next
    case False
    have u: "unat (n - of_nat e) = unat n - e"
      using False e(2) by (simp add: unat_sub_if' unat_of_nat)
    have "n - of_nat e \<noteq> portMAX_DELAY"
      using u False Cons.prems(1) unat_less_32 [of n] by (auto simp: word_unat_eq_iff)
    then have "check_all (vTaskInternalSetTimeOutState s) (n - of_nat e) ss =
        Some (\<exists>s' \<in> set ss. uptime s + unat (n - of_nat e) \<le> uptime s')"
      using Cons.prems by (intro Cons.IH) simp_all
    moreover have "uptime s + unat (n - of_nat e) = uptime s0 + unat n" using u False e(1) by simp
    ultimately have "check_all (vTaskInternalSetTimeOutState s) (n - of_nat e) ss =
        Some (\<exists>s' \<in> set ss. uptime s0 + unat n \<le> uptime s')" by (simp only:)
    then show ?thesis using chk False e(1) by simp
  qed
qed simp

definition later :: "word32 \<Rightarrow> word32 \<Rightarrow> kernel" where
  "later v t = demo_kernel\<lparr>xNumOfOverflows := v, xTickCount := t\<rparr>"

theorem timeout_exact_witness:
  "check_all (vTaskInternalSetTimeOutState (later 0 0xFFFFFFF0)) 0x20
     [later 0 0xFFFFFFF8, later 1 2, later 1 0x10] = Some True"
proof -
  have u: "uptime (later 0 0xFFFFFFF0) = 0xFFFFFFF0" "uptime (later 0 0xFFFFFFF8) = 0xFFFFFFF8"
    "uptime (later 1 2) = 0x100000002" "uptime (later 1 0x10) = 0x100000010"
    by (simp_all add: uptime_def later_def)
  have "waiting_in (later v t)" for v t by (simp add: waiting_in_def later_def demo_kernel_def demo_tcb_def)
  then show ?thesis
    using timeout_exact [of "0x20" "[later 0 0xFFFFFFF8, later 1 2, later 1 0x10]" "later 0 0xFFFFFFF0"]
    by (simp add: u del: check_all.simps)
qed

end
