(* ===== verification/System_Start.thy ===== *)
theory System_Start
  imports Task_Properties
begin

text \<open>
  From the variables of \<^verbatim>\<open>tasks.c\<close> as C initialises them to the running system: any number of
  tasks is created, then \<^verbatim>\<open>vTaskStartScheduler\<close> adds the idle task and starts the highest priority.
\<close>

section \<open>Starting the system\<close>

text \<open>
  The kernel's variables as C initialises them, before any task exists. The lists of no
  existing priority and the event lists, which their owners initialise, are empty.
\<close>

definition unborn :: "kernel \<Rightarrow> bool" where
  "unborn s \<longleftrightarrow> pxCurrentTCB s = None \<and> uxCurrentNumberOfTasks s = 0 \<and> \<not> xSchedulerRunning s \<and>
     uxSchedulerSuspended s = 0 \<and> uxTopReadyPriority s = 0 \<and> (\<forall>i. container s i = None) \<and>
     (\<forall>e. klists s (EventList e) = kl_empty) \<and>
     (\<forall>p \<ge> configMAX_PRIORITIES. klists s (ReadyList p) = kl_empty)"

primrec create_all :: "(tid \<times> word32) list \<Rightarrow> kernel \<Rightarrow> kernel option" where
  "create_all [] s = Some s"
| "create_all (x # xs) s = do {
     s \<leftarrow> create_all xs s;
     (r, s) \<leftarrow> xTaskCreate (Some (fst x)) (snd x) s;
     if r then Some s else None }"

text \<open>The tasks \<open>ts\<close> have been created, the latest first, and the scheduler has not been started.\<close>

definition booting :: "(tid \<times> word32) list \<Rightarrow> kernel \<Rightarrow> bool" where
  "booting ts s \<longleftrightarrow> core_ok s \<and> \<not> xSchedulerRunning s \<and> uxSchedulerSuspended s = 0 \<and>
     uxCurrentNumberOfTasks s = of_nat (length ts) \<and>
     (\<forall>t. container s (StateItem t) = map_option ReadyList (map_of ts t) \<and> container s (EventItem t) = None) \<and>
     (\<forall>t p. map_of ts t = Some p \<longrightarrow> uxPriority (tcbs s t) = p) \<and>
     (\<exists>c p. pxCurrentTCB s = Some c \<and> map_of ts c = Some p \<and> (\<forall>t q. map_of ts t = Some q \<longrightarrow> q \<le> p))"

lemma ReadyList_fold_init:
  "klists (fold (\<lambda>p. init_list (ReadyList (of_nat p))) ps s) l =
     (if l \<in> (\<lambda>p. ReadyList (of_nat p)) ` set ps then kl_empty else klists s l)"
  by (induction ps arbitrary: s) (auto simp: init_list_def)

lemma fold_init_frame:
  "\<exists>f. fold (\<lambda>p. init_list (ReadyList (of_nat p))) ps s = s\<lparr>klists := f\<rparr>"
proof (induction ps arbitrary: s)
  case Nil
  show ?case by (intro exI [of _ "klists s"]) simp
next
  case (Cons p ps)
  from Cons.IH [of "init_list (ReadyList (of_nat p)) s"] show ?case by (auto simp: init_list_def)
qed

lemma prvInitialiseTaskLists_eq:
  assumes "\<forall>e. klists s (EventList e) = kl_empty" "\<forall>p \<ge> configMAX_PRIORITIES. klists s (ReadyList p) = kl_empty"
  shows "prvInitialiseTaskLists s = s\<lparr>klists := \<lambda>_. kl_empty, pxDelayedTaskList := DelayedTaskList1,
    pxOverflowDelayedTaskList := DelayedTaskList2\<rparr>"
proof -
  obtain f where f: "fold (\<lambda>p. init_list (ReadyList (of_nat p))) [0..<unat configMAX_PRIORITIES] s = s\<lparr>klists := f\<rparr>"
    using fold_init_frame by blast
  have fl: "f l = (if l \<in> (\<lambda>p. ReadyList (of_nat p)) ` {0..<unat configMAX_PRIORITIES} then kl_empty else klists s l)" for l
    using ReadyList_fold_init [of "[0..<unat configMAX_PRIORITIES]" s l] unfolding f by simp
  have "f (ReadyList p) = kl_empty" for p
  proof (cases "p < configMAX_PRIORITIES")
    case True
    then have "ReadyList p = ReadyList (of_nat (unat p))" "unat p \<in> {0..<unat configMAX_PRIORITIES}"
      by (simp_all add: word_less_nat_alt)
    then show ?thesis unfolding fl by (metis image_eqI)
  next
    case False then show ?thesis using assms(2) by (simp add: fl)
  qed
  moreover have "f (EventList e) = kl_empty" for e using assms(1) by (simp add: fl)
  ultimately have "f l = kl_empty" if "l \<notin> {DelayedTaskList1, DelayedTaskList2, PendingReadyList,
      TasksWaitingTermination, SuspendedTaskList}" for l
    using that by (cases l) auto
  then show ?thesis
    by (auto simp: prvInitialiseTaskLists_def f init_list_def fun_eq_iff)
qed

lemma prvInitialiseNewTask_eq:
  assumes p: "p < configMAX_PRIORITIES"
  obtains s1 where "prvInitialiseNewTask p t s = Some s1" "klists s1 = klists s"
    "container s1 = (container s)(StateItem t := None, EventItem t := None)" "uxPriority (tcbs s1 t) = p"
    "\<And>u. u \<noteq> t \<Longrightarrow> tcbs s1 u = tcbs s u" "pxCurrentTCB s1 = pxCurrentTCB s" "xSchedulerRunning s1 = xSchedulerRunning s"
    "uxSchedulerSuspended s1 = uxSchedulerSuspended s" "uxTopReadyPriority s1 = uxTopReadyPriority s"
    "uxCurrentNumberOfTasks s1 = uxCurrentNumberOfTasks s" "pxDelayedTaskList s1 = pxDelayedTaskList s"
    "pxOverflowDelayedTaskList s1 = pxOverflowDelayedTaskList s" "\<And>u. item_value s1 (StateItem u) = item_value s (StateItem u)"
  using p by (simp add: prvInitialiseNewTask_def Let_def set_value_def not_le [symmetric])

lemma booting_add:
  assumes tn: "torn t s" and ev: "\<And>u. container s (EventItem u) = None"
    and st: "\<And>u. u \<noteq> t \<Longrightarrow> container s (StateItem u) = map_option ReadyList (map_of ts u)"
    and pr: "\<And>u q. u \<noteq> t \<Longrightarrow> map_of ts u = Some q \<Longrightarrow> uxPriority (tcbs s u) = q" "uxPriority (tcbs s t) = p"
    and f: "\<not> xSchedulerRunning s" "uxSchedulerSuspended s = 0" "uxCurrentNumberOfTasks s = of_nat (Suc (length ts))"
    and cur: "\<exists>c r. pxCurrentTCB s = Some c \<and> map_of ((t, p) # ts) c = Some r \<and>
        (\<forall>u q. map_of ((t, p) # ts) u = Some q \<longrightarrow> q \<le> r)"
  shows "booting ((t, p) # ts) (prvAddTaskToReadyList t s)"
proof -
  have "core_ok (prvAddTaskToReadyList t s)" by (rule torn_ready [OF tn]) (simp add: ev)
  then show ?thesis using ev st pr f cur by (simp add: booting_def prvAddTaskToReadyList_frame)
qed

lemma create_first:
  assumes u: "unborn s" and p: "p < configMAX_PRIORITIES"
  shows "\<exists>s'. xTaskCreate (Some t) p s = Some (True, s') \<and> booting [(t, p)] s'"
proof -
  obtain s1 where s1: "prvInitialiseNewTask p t s = Some s1" "klists s1 = klists s"
    "container s1 = (container s)(StateItem t := None, EventItem t := None)" "uxPriority (tcbs s1 t) = p"
    "pxCurrentTCB s1 = pxCurrentTCB s" "xSchedulerRunning s1 = xSchedulerRunning s"
    "uxSchedulerSuspended s1 = uxSchedulerSuspended s" "uxTopReadyPriority s1 = uxTopReadyPriority s"
    "uxCurrentNumberOfTasks s1 = uxCurrentNumberOfTasks s"
    by (rule prvInitialiseNewTask_eq [OF p, of t s])
  have cn: "container s1 = (\<lambda>_. None)" using u s1(3) by (auto simp: unborn_def)
  let ?s = "s1\<lparr>uxCurrentNumberOfTasks := 1, pxCurrentTCB := Some t, klists := \<lambda>_. kl_empty,
    pxDelayedTaskList := DelayedTaskList1, pxOverflowDelayedTaskList := DelayedTaskList2,
    uxTaskNumber := uxTaskNumber s1 + 1\<rparr>"
  have add: "prvAddNewTaskToReadyList t s1 = Some (prvAddTaskToReadyList t ?s)"
    using u s1 by (simp add: prvAddNewTaskToReadyList_def unborn_def prvInitialiseTaskLists_eq prvAddTaskToReadyList_frame)
  have "torn t ?s"
    using u s1(4,8) p cn
    by (simp add: torn_def lists_ok_def kl_wf_def kl_empty_def delayed_pair_def delayed_sorted_def
        task_ok_def unborn_def configMAX_PRIORITIES_def)
  then have "booting [(t, p)] (prvAddTaskToReadyList t ?s)"
    using u s1 cn by (intro booting_add) (auto simp: unborn_def)
  then show ?thesis using s1(1) add by (simp add: xTaskCreate_def)
qed

lemma create_next:
  assumes b: "booting ts s" and p: "p < configMAX_PRIORITIES" and t: "map_of ts t = None"
  shows "\<exists>s'. xTaskCreate (Some t) p s = Some (True, s') \<and> booting ((t, p) # ts) s'"
proof -
  obtain s1 where s1: "prvInitialiseNewTask p t s = Some s1" "klists s1 = klists s"
    "container s1 = (container s)(StateItem t := None, EventItem t := None)" "uxPriority (tcbs s1 t) = p"
    "\<And>u. u \<noteq> t \<Longrightarrow> tcbs s1 u = tcbs s u" "pxCurrentTCB s1 = pxCurrentTCB s" "xSchedulerRunning s1 = xSchedulerRunning s"
    "uxSchedulerSuspended s1 = uxSchedulerSuspended s" "uxTopReadyPriority s1 = uxTopReadyPriority s"
    "uxCurrentNumberOfTasks s1 = uxCurrentNumberOfTasks s" "pxDelayedTaskList s1 = pxDelayedTaskList s"
    "pxOverflowDelayedTaskList s1 = pxOverflowDelayedTaskList s" "\<And>u. item_value s1 (StateItem u) = item_value s (StateItem u)"
    using prvInitialiseNewTask_eq [OF p, of t s] by blast
  have cn: "container s1 = container s" using b t s1(3) by (auto simp: booting_def)
  obtain c r where c: "pxCurrentTCB s = Some c" "map_of ts c = Some r" "\<And>u q. map_of ts u = Some q \<Longrightarrow> q \<le> r"
    and pc: "uxPriority (tcbs s c) = r" using b by (auto simp: booting_def)
  have "c \<noteq> t" using c(2) t by auto
  define s2 where "s2 = (if r \<le> p
    then s1\<lparr>uxCurrentNumberOfTasks := uxCurrentNumberOfTasks s1 + 1, pxCurrentTCB := Some t, uxTaskNumber := uxTaskNumber s1 + 1\<rparr>
    else s1\<lparr>uxCurrentNumberOfTasks := uxCurrentNumberOfTasks s1 + 1, uxTaskNumber := uxTaskNumber s1 + 1\<rparr>)"
  have add: "prvAddNewTaskToReadyList t s1 = Some (prvAddTaskToReadyList t s2)"
    using b s1(4,6,7) s1(5) [OF \<open>c \<noteq> t\<close>] c(1) pc
    by (simp add: prvAddNewTaskToReadyList_def booting_def s2_def prvAddTaskToReadyList_frame)
  have core: "core_ok s" using b by (simp add: booting_def)
  have "task_ok s1 u" if "u \<noteq> t" for u
    using core_okD(4) [OF core, of u] that by (simp add: task_ok_def cn s1)
  moreover have "delayed_sorted s1"
  proof -
    have "map (item_value s1) (kitems (klists s l)) = map (item_value s) (kitems (klists s l))"
      if "l \<in> {DelayedTaskList1, DelayedTaskList2}" for l
      using core_ok_items [OF core, of l] that s1(13) by fastforce
    from this [of DelayedTaskList1] this [of DelayedTaskList2] show ?thesis
      using core_okD(3) [OF core] s1(2) by (simp add: delayed_sorted_def del: map_eq_conv)
  qed
  ultimately have "torn t s1"
    using b core_okD(1,2,5) [OF core] p t
    by (simp add: torn_def lists_ok_def delayed_pair_def booting_def cn s1)
  then have "torn t s2" by (simp add: s2_def)
  moreover have "\<exists>c' r'. pxCurrentTCB s2 = Some c' \<and> map_of ((t, p) # ts) c' = Some r' \<and>
      (\<forall>u q. map_of ((t, p) # ts) u = Some q \<longrightarrow> q \<le> r')"
    using c \<open>c \<noteq> t\<close> s1(6) by (cases "r \<le> p") (force simp: s2_def)+
  ultimately have "booting ((t, p) # ts) (prvAddTaskToReadyList t s2)"
    using b s1 by (intro booting_add) (auto simp: booting_def s2_def cn)
  then show ?thesis using s1(1) add by (simp add: xTaskCreate_def)
qed

lemma create_all_booting:
  assumes "unborn s" "distinct (map fst ts)" "\<forall>x \<in> set ts. snd x < configMAX_PRIORITIES" "ts \<noteq> []"
  shows "\<exists>s'. create_all ts s = Some s' \<and> booting ts s'"
  using assms(2-4)
proof (induction ts)
  case (Cons x ts)
  show ?case
  proof (cases "ts = []")
    case True
    then show ?thesis using create_first [OF assms(1), of "snd x" "fst x"] Cons.prems by auto
  next
    case False
    then obtain s1 where s1: "create_all ts s = Some s1" "booting ts s1" using Cons by auto
    have "map_of ts (fst x) = None" using Cons.prems(1) by (simp add: map_of_eq_None_iff)
    then show ?thesis using create_next [OF s1(2), of "snd x" "fst x"] Cons.prems s1(1) by auto
  qed
qed simp

definition started :: "kernel \<Rightarrow> kernel" where
  "started s = s\<lparr>xNextTaskUnblockTime := portMAX_DELAY, xSchedulerRunning := True, xTickCount := 0\<rparr>"

lemma start_booting:
  assumes "unborn s" "distinct (i # map fst ts)" "\<forall>x \<in> set ts. snd x < configMAX_PRIORITIES"
  obtains s1 s' where "create_all ts s = Some s1" "create_all ((i, 0) # ts) s = Some s'" "booting ((i, 0) # ts) s'"
    "vTaskStartScheduler (Some i) s1 = Some (started s')"
proof -
  have d: "distinct (map fst ((i, 0) # ts))" "\<forall>x \<in> set ((i, 0) # ts). snd x < configMAX_PRIORITIES"
    using assms(2,3) by (simp_all add: configMAX_PRIORITIES_def)
  obtain s' where s': "create_all ((i, 0) # ts) s = Some s'" "booting ((i, 0) # ts) s'"
    using create_all_booting [OF assms(1) d] by blast
  then obtain s1 where s1: "create_all ts s = Some s1" "xTaskCreate (Some i) 0 s1 = Some (True, s')"
    by (auto split: bind_splits if_splits)
  have "vTaskStartScheduler (Some i) s1 = Some (started s')"
    using s1(2) by (simp add: vTaskStartScheduler_def started_def)
  then show thesis using that s' s1(1) by blast
qed

lemma booting_containers: "booting ts s \<Longrightarrow> container s (StateItem t) = map_option ReadyList (map_of ts t)"
  "booting ts s \<Longrightarrow> container s (EventItem t) = None"
  by (simp_all add: booting_def)

lemma started_wf:
  assumes b: "booting ((i, 0) # ts) s" and n: "Suc (length ts) < 2 ^ 32"
  shows "kernel_wf i (started s)"
proof -
  obtain c p where c: "pxCurrentTCB s = Some c" "map_of ((i, 0) # ts) c = Some p" using b unfolding booting_def by blast
  note cn = booting_containers(1) [OF b]
  have "unat (of_nat (Suc (length ts)) :: word32) \<noteq> 0" using n by (simp only: unat_of_nat) simp
  then have n: "uxCurrentNumberOfTasks s \<noteq> 0" using b by (auto simp: booting_def)
  have nd: "container s (StateItem t) \<noteq> Some (pxDelayedTaskList s)"
      "container s (StateItem t) \<noteq> Some (pxOverflowDelayedTaskList s)" for t
    using delayed_pairD(1,2) [of s] b core_okD(2) [of s] unfolding cn by (auto simp: booting_def)
  have "core_ok s" using b by (simp add: booting_def)
  then have "sched_ok (started s)" using nd by (simp add: sched_ok_def delays_ok_def overflow_ok_def started_def)
  moreover have "alive s c" using cn [of c] c(2) by (simp add: alive_def del: map_of.simps)
  moreover have "is_ready s i" using cn [of i] by (simp add: is_ready_def)
  ultimately show ?thesis using c(1) n by (simp add: kernel_wf_def alive_def is_ready_def started_def)
qed

text \<open>
  C18. From the zeroed variables, creating any tasks with distinct handles and valid
  priorities and starting the scheduler gives a well-formed kernel in which every task is
  in the ready list of its priority and the task to run first has the highest priority.
\<close>

theorem boot_starts_highest:
  assumes "unborn s" "distinct (i # map fst ts)" "\<forall>x \<in> set ts. snd x < configMAX_PRIORITIES" "Suc (length ts) < 2 ^ 32"
  shows "\<exists>s1 s2 c p. create_all ts s = Some s1 \<and> vTaskStartScheduler (Some i) s1 = Some s2 \<and> kernel_wf i s2 \<and>
    pxCurrentTCB s2 = Some c \<and> (c, p) \<in> set ((i, 0) # ts) \<and> (\<forall>x \<in> set ts. snd x \<le> p) \<and>
    (\<forall>(t, q) \<in> set ((i, 0) # ts). container s2 (StateItem t) = Some (ReadyList q))"
proof -
  let ?ts = "(i, 0) # ts"
  have d: "distinct (map fst ?ts)" using assms(2) by simp
  obtain s1 s' where s1: "create_all ts s = Some s1" "booting ?ts s'" "vTaskStartScheduler (Some i) s1 = Some (started s')"
    by (rule start_booting [OF assms(1-3)])
  obtain c p where c: "pxCurrentTCB s' = Some c" "map_of ?ts c = Some p" "\<forall>t q. map_of ?ts t = Some q \<longrightarrow> q \<le> p"
    using s1(2) unfolding booting_def by blast
  have in_map: "map_of ?ts (fst x) = Some (snd x)" if "x \<in> set ?ts" for x
    using map_of_eq_Some_iff [OF d, of "fst x" "snd x"] that by simp
  have "\<forall>x \<in> set ?ts. snd x \<le> p" using c(3) in_map by blast
  moreover have "(c, p) \<in> set ?ts" using c(2) by (rule map_of_SomeD)
  moreover have "\<forall>x \<in> set ?ts. container (started s') (StateItem (fst x)) = Some (ReadyList (snd x))"
    using in_map booting_containers(1) [OF s1(2)] by (simp add: started_def del: map_of.simps)
  ultimately show ?thesis using s1(1,3) started_wf [OF s1(2) assms(4)] c(1)
    by (intro exI [of _ s1] exI [of _ "started s'"] exI [of _ c] exI [of _ p]) (auto simp: started_def)
qed

definition zeroed_kernel :: kernel where
  "zeroed_kernel = demo_kernel\<lparr>klists := \<lambda>_. kl_empty, container := \<lambda>_. None, pxCurrentTCB := None,
     uxCurrentNumberOfTasks := 0, uxTopReadyPriority := 0, xSchedulerRunning := False, xTickCount := 0\<rparr>"

theorem boot_starts_highest_witness:
  "\<exists>s1 s2 c p. create_all [(2, 3), (1, 3), (3, 1)] zeroed_kernel = Some s1 \<and> vTaskStartScheduler (Some 0) s1 = Some s2 \<and>
    kernel_wf 0 s2 \<and> pxCurrentTCB s2 = Some c \<and> (c, p) \<in> set [(0, 0), (2, 3), (1, 3), (3, 1 :: word32)] \<and>
    (\<forall>x \<in> set [(2 :: tid, 3), (1, 3), (3, 1)]. snd x \<le> p) \<and>
    (\<forall>(t, q) \<in> set [(0, 0), (2, 3), (1, 3), (3, 1)]. container s2 (StateItem t) = Some (ReadyList q))"
  by (rule boot_starts_highest)
    (simp_all add: unborn_def zeroed_kernel_def demo_kernel_def configMAX_PRIORITIES_def)

end
