(* ===== verification/Queue_System_Start.thy ===== *)
theory Queue_System_Start
  imports Queue_System_Attempt Queue_Properties System_Start
begin

text \<open>
  A system from its start: queues, semaphores, mutexes and tasks are created and the scheduler is
  started. The system that results meets the invariant, with the objects as they were declared.
\<close>

section \<open>Creating queues\<close>

text \<open>What to create, and the address at which \<^verbatim>\<open>pvPortMalloc\<close> places the structure.\<close>

datatype queue_decl =
    Message_Queue word32 word32 word32 | Counting_Semaphore word32 word32 word32 | Mutex_Semaphore word32

fun create_queue :: "nat \<Rightarrow> queue_decl \<Rightarrow> sys \<Rightarrow> (nat option \<times> sys) option" where
  "create_queue q (Message_Queue a len isz) = xQueueGenericCreate (Some (q, a)) len isz"
| "create_queue q (Counting_Semaphore a most count) = xQueueCreateCountingSemaphore (Some (q, a)) most count"
| "create_queue q (Mutex_Semaphore a) = xQueueCreateMutex (Some (q, a))"

primrec create_queues :: "queue_decl list \<Rightarrow> nat \<Rightarrow> sys \<Rightarrow> sys option" where
  "create_queues [] q s = Some s"
| "create_queues (d # ds) q s = do {
     (h, s) \<leftarrow> create_queue q d s;
     create_queues ds (Suc q) s }"

definition boot :: "queue_decl list \<Rightarrow> (tid \<times> word32) list \<Rightarrow> tid \<Rightarrow> sys \<Rightarrow> conf option" where
  "boot ds ts i s = do {
     s \<leftarrow> create_queues ds 0 s;
     k \<leftarrow> create_all ts (kern s);
     k \<leftarrow> vTaskStartScheduler (Some i) k;
     Some \<lparr>system = s\<lparr>kern := k\<rparr>, calls = (\<lambda>_. None)\<rparr> }"

text \<open>The storage a declaration takes, whether it fits, and the object it declares.\<close>

fun decl_storage :: "queue_decl \<Rightarrow> nat set" where
  "decl_storage (Message_Queue a len isz) = {unat a + 72..<unat a + 72 + unat len * unat isz}"
| "decl_storage d = {}"

fun decl_ok :: "queue_decl \<Rightarrow> bool" where
  "decl_ok (Message_Queue a len isz) \<longleftrightarrow> len \<noteq> 0 \<and> isz \<noteq> 0 \<and> unat isz \<le> unat a + 72 \<and>
     unat a + 72 + unat len * unat isz < 2 ^ 32"
| "decl_ok (Counting_Semaphore a most count) \<longleftrightarrow> a \<noteq> 0 \<and> most \<noteq> 0 \<and> count \<le> most"
| "decl_ok (Mutex_Semaphore a) \<longleftrightarrow> a \<noteq> 0"

fun decl_object :: "queue_decl \<Rightarrow> queue_obj" where
  "decl_object (Message_Queue a len isz) = Items (unat len) []"
| "decl_object (Counting_Semaphore a most count) = Count (unat most) (unat count)"
| "decl_object (Mutex_Semaphore a) = Owner None"

definition decls_ok :: "queue_decl list \<Rightarrow> bool" where
  "decls_ok ds \<longleftrightarrow> (\<forall>d \<in> set ds. decl_ok d) \<and>
     (\<forall>j < length ds. \<forall>l < j. decl_storage (ds ! j) \<inter> decl_storage (ds ! l) = {}) \<and> length ds < 2 ^ 32"

text \<open>Creating a queue only sets its structure when its event lists are empty already.\<close>

definition fresh_queue :: "queue_decl \<Rightarrow> memory \<Rightarrow> Queue_t \<Rightarrow> bool" where
  "fresh_queue d m Q \<longleftrightarrow> obj_rel (m, Q) (decl_object d) \<and> cTxLock Q = queueUNLOCKED \<and> cRxLock Q = queueUNLOCKED \<and>
     (\<forall>a. owns Q a \<longrightarrow> unat a \<in> decl_storage d)"

lemma init_empty_list: "klists k l = kl_empty \<Longrightarrow> init_list l k = k"
  by (simp add: init_list_def fun_upd_idem)

lemma new_queue_shape:
  assumes r: "prvInitialiseNewQueue len isz st a q s = Some s'" and e: "\<And>l. klists (kern s) (EventList l) = kl_empty"
  shows "s' = s\<lparr>queues := (queues s)(q := queues s' q)\<rparr>" "cTxLock (queues s' q) = queueUNLOCKED"
    "cRxLock (queues s' q) = queueUNLOCKED" "uxLength (queues s' q) = len" "uxItemSize (queues s' q) = isz"
    "uxMessagesWaiting (queues s' q) = 0" "pcHead (queues s' q) = (if isz = 0 then a else st)"
    "xMutexHolder (queues s' q) = None" "pcTail (queues s' q) = (if isz = 0 then a else st) + len * isz"
proof -
  let ?a = "if isz = 0 then a else st"
  have s': "s' = s\<lparr>queues := (queues s)(q := (queues s q)\<lparr>pcHead := ?a, uxLength := len, uxItemSize := isz,
      pcTail := ?a + len * isz, uxMessagesWaiting := 0, pcWriteTo := ?a, pcReadFrom := ?a + (len - 1) * isz,
      cRxLock := queueUNLOCKED, cTxLock := queueUNLOCKED, xMutexHolder := None, uxRecursiveCallCount := 0\<rparr>)\<rparr>"
    using r unfolding prvInitialiseNewQueue_def xQueueGenericReset_def Let_def
    by (simp add: upd_queue_def init_empty_list e split: if_splits)
  then show "s' = s\<lparr>queues := (queues s)(q := queues s' q)\<rparr>" by simp
  show "cTxLock (queues s' q) = queueUNLOCKED"
    "cRxLock (queues s' q) = queueUNLOCKED" "uxLength (queues s' q) = len" "uxItemSize (queues s' q) = isz"
    "uxMessagesWaiting (queues s' q) = 0" "pcHead (queues s' q) = ?a"
    "xMutexHolder (queues s' q) = None" "pcTail (queues s' q) = ?a + len * isz"
    unfolding s' by simp_all
qed

lemma fresh_message_queue:
  assumes d: "decl_ok (Message_Queue a len isz)" and e: "\<And>l. klists (kern s) (EventList l) = kl_empty"
  shows "\<exists>Q. xQueueGenericCreate (Some (q, a)) len isz s = Some (Some q, s\<lparr>queues := (queues s)(q := Q)\<rparr>) \<and>
    fresh_queue (Message_Queue a len isz) (memry s) Q"
proof -
  have fit: "len \<noteq> 0" "isz \<noteq> 0" "unat isz \<le> unat a + 72" "unat a + 72 + unat len * unat isz < 2 ^ 32" using d by simp_all
  have st: "unat (a + 72) = unat a + 72" using unat_plus_of_nat [of a 72] fit(4) by simp
  have prod: "unat (len * isz) = unat len * unat isz" using fit(4) by (simp add: unat_mult_lem [THEN iffD1])
  have ds: "unat isz \<le> 0xFFFFFFFF div unat len"
    using fit(1,4) by (simp add: less_eq_div_iff_mult_less_eq unat_gt_0 mult.commute)
  have g: "0 < len" "isz \<le> 0xFFFFFFFF div len" "len * isz \<le> 0xFFFFFFFF - sizeof_Queue_t"
    using fit(1,4) ds by (simp_all add: word_le_nat_alt word_gt_0 unat_div prod)
  have "1 \<le> unat len" using g(1) by (simp add: word_less_nat_alt)
  then have "1 \<le> len" by (simp add: word_le_nat_alt)
  then obtain s' where s': "prvInitialiseNewQueue len isz (a + 72) a q s = Some s'"
    using g(2) by (simp add: prvInitialiseNewQueue_def xQueueGenericReset_def upd_queue_def Let_def)
  note sh = new_queue_shape [OF s' e]
  have room: "isz \<le> a + 72" "unat (a + 72) + unat len * unat isz < 2 ^ 32"
    using fit(3,4) by (simp_all add: word_le_nat_alt st)
  note h = new_queue_holds [OF s' fit(2) room]
  have on: "of_nat (unat len * unat isz) = len * isz" by simp
  have top: "unat (a + 72 + len * isz) = unat a + 72 + unat len * unat isz"
    using unat_plus_of_nat [of "a + 72" "unat len * unat isz"] room(2) st unfolding on by linarith
  have "unat x \<in> decl_storage (Message_Queue a len isz)" if "owns (queues s' q) x" for x
  proof -
    have "unat (a + 72) \<le> unat x" "unat x < unat (a + 72 + len * isz)"
      using that sh(7,9) fit(2) by (simp_all add: owns_def in_storage_def word_le_nat_alt word_less_nat_alt)
    then show ?thesis unfolding top st by simp
  qed
  then have "fresh_queue (Message_Queue a len isz) (memry s) (queues s' q)"
    using h(1,2,6) sh(2,3) by (simp add: fresh_queue_def)
  moreover have "xQueueGenericCreate (Some (q, a)) len isz s = Some (Some q, s')"
    using g s' by (simp add: xQueueGenericCreate_def)
  ultimately show ?thesis using sh(1) by metis
qed

lemma fresh_semaphore:
  assumes "len \<noteq> 0" and e: "\<And>l. klists (kern s) (EventList l) = kl_empty"
  shows "\<exists>Q. xQueueGenericCreate (Some (q, a)) len 0 s = Some (Some q, s\<lparr>queues := (queues s)(q := Q)\<rparr>) \<and>
    uxLength Q = len \<and> uxItemSize Q = 0 \<and> uxMessagesWaiting Q = 0 \<and> pcHead Q = a \<and> xMutexHolder Q = None \<and>
    cTxLock Q = queueUNLOCKED \<and> cRxLock Q = queueUNLOCKED"
proof -
  have l: "0 < len" "1 \<le> len" using assms(1) by (simp_all add: word_gt_0 word_le_nat_alt unat_gt_0 Suc_le_eq)
  then obtain s' where s': "prvInitialiseNewQueue len 0 (a + 72) a q s = Some s'"
    by (simp add: prvInitialiseNewQueue_def xQueueGenericReset_def upd_queue_def Let_def)
  note sh = new_queue_shape [OF s' e]
  have "xQueueGenericCreate (Some (q, a)) len 0 s = Some (Some q, s')"
    using l s' by (simp add: xQueueGenericCreate_def)
  then show ?thesis using sh by (intro exI [of _ "queues s' q"]) auto
qed

lemma create_queue_ok:
  assumes d: "decl_ok d" and e: "\<And>l. klists (kern s) (EventList l) = kl_empty"
  shows "\<exists>Q. create_queue q d s = Some (Some q, s\<lparr>queues := (queues s)(q := Q)\<rparr>) \<and> fresh_queue d (memry s) Q"
proof (cases d)
  case (Message_Queue a len isz)
  then show ?thesis using fresh_message_queue [OF _ e] d by auto
next
  case (Counting_Semaphore a most count)
  then have c: "a \<noteq> 0" "most \<noteq> 0" "count \<le> most" using d by simp_all
  obtain Q where Q: "xQueueGenericCreate (Some (q, a)) most 0 s = Some (Some q, s\<lparr>queues := (queues s)(q := Q)\<rparr>)"
    "uxLength Q = most" "uxItemSize Q = 0" "pcHead Q = a" "cTxLock Q = queueUNLOCKED" "cRxLock Q = queueUNLOCKED"
    using fresh_semaphore [OF c(2) e, of q a] by blast
  have "fresh_queue d (memry s) (Q\<lparr>uxMessagesWaiting := count\<rparr>)"
    using Q(2-6) c by (simp add: Counting_Semaphore fresh_queue_def is_mutex_def word_le_nat_alt owns_def)
  then show ?thesis using Q(1) c(2,3)
    by (intro exI [of _ "Q\<lparr>uxMessagesWaiting := count\<rparr>"])
      (simp add: Counting_Semaphore xQueueCreateCountingSemaphore_def upd_queue_def)
next
  case (Mutex_Semaphore a)
  obtain Q where Q: "xQueueGenericCreate (Some (q, a)) 1 0 s = Some (Some q, s\<lparr>queues := (queues s)(q := Q)\<rparr>)"
    "uxLength Q = 1" "uxItemSize Q = 0" "uxMessagesWaiting Q = 0" "cTxLock Q = queueUNLOCKED" "cRxLock Q = queueUNLOCKED"
    using fresh_semaphore [OF _ e, of 1 q a] by auto
  let ?Q = "Q\<lparr>pcHead := 0, uxRecursiveCallCount := 0, xMutexHolder := None, uxMessagesWaiting := 1\<rparr>"
  have "fresh_queue d (memry s) ?Q"
    using Q(2-6) by (simp add: Mutex_Semaphore fresh_queue_def is_mutex_def owns_def)
  moreover have "create_queue q d s = Some (Some q, s\<lparr>queues := (queues s)(q := ?Q)\<rparr>)"
    using Q e by (auto simp: Mutex_Semaphore xQueueCreateMutex_def xTaskSuspendedCannotWait_def prvInitialiseMutex_def send_now_def upd_queue_def
        new_call_def prvCopyDataToQueue_def is_mutex_def Let_def is_empty_def kl_empty_def
        queueYIELD_IF_USING_PREEMPTION_def xTaskPriorityDisinherit_def)
  ultimately show ?thesis by blast
qed

lemma create_queues_ok:
  assumes "\<forall>d \<in> set ds. decl_ok d" and e: "\<And>l. klists (kern s) (EventList l) = kl_empty"
  shows "\<exists>Qs. create_queues ds q s = Some (s\<lparr>queues := Qs\<rparr>) \<and> (\<forall>p < q. Qs p = queues s p) \<and>
    (\<forall>j < length ds. fresh_queue (ds ! j) (memry s) (Qs (q + j)))"
  using assms
proof (induction ds arbitrary: q s)
  case Nil
  show ?case by (intro exI [of _ "queues s"]) simp
next
  case (Cons d ds)
  obtain Q where Q: "create_queue q d s = Some (Some q, s\<lparr>queues := (queues s)(q := Q)\<rparr>)" "fresh_queue d (memry s) Q"
    using create_queue_ok [of d s q] Cons.prems by auto
  let ?s = "s\<lparr>queues := (queues s)(q := Q)\<rparr>"
  obtain Qs where Qs: "create_queues ds (Suc q) ?s = Some (?s\<lparr>queues := Qs\<rparr>)"
    "\<forall>p < Suc q. Qs p = queues ?s p" "\<forall>j < length ds. fresh_queue (ds ! j) (memry ?s) (Qs (Suc q + j))"
    using Cons.IH [of ?s "Suc q"] Cons.prems by auto
  have "fresh_queue ((d # ds) ! j) (memry s) (Qs (q + j))" if "j < length (d # ds)" for j
    using that Q(2) Qs(2,3) by (cases j) auto
  then show ?case using Q(1) Qs(1,2) by (intro exI [of _ Qs]) simp
qed

section \<open>The tasks\<close>

text \<open>What creating a task sets besides its lists.\<close>

definition primed :: "(tid \<times> word32) list \<Rightarrow> kernel \<Rightarrow> bool" where
  "primed ts k \<longleftrightarrow> (\<forall>t. held k t = 0) \<and> (\<forall>t p. map_of ts t = Some p \<longrightarrow>
     base_priority k t = p \<and> item_value k (EventItem t) = configMAX_PRIORITIES - p)"

lemma init_lists_frame:
  "\<exists>f. prvInitialiseTaskLists k = k\<lparr>klists := f, pxDelayedTaskList := DelayedTaskList1, pxOverflowDelayedTaskList := DelayedTaskList2\<rparr>"
  using fold_init_frame [of "[0..<unat configMAX_PRIORITIES]" k]
  by (auto simp: prvInitialiseTaskLists_def init_list_def Let_def)

lemma create_primed:
  assumes c: "xTaskCreate (Some t) p k = Some (r, k')" and nr: "\<not> xSchedulerRunning k" and pr: "primed ts k"
  shows "primed ((t, p) # ts) k'" "\<not> xSchedulerRunning k'"
proof -
  let ?tcb = "\<lparr>uxPriority = p, uxBasePriority = p, uxMutexesHeld = 0, ulNotifiedValue = 0,
      ucNotifyState = NotWaitingNotification, ucDelayAborted = False\<rparr>"
  obtain f where f: "prvInitialiseTaskLists x = x\<lparr>klists := f x, pxDelayedTaskList := DelayedTaskList1,
      pxOverflowDelayedTaskList := DelayedTaskList2\<rparr>" for x
    using init_lists_frame by metis
  have "tcbs k' = (tcbs k)(t := ?tcb) \<and> xSchedulerRunning k' = xSchedulerRunning k \<and>
      item_value k' = (item_value k)(EventItem t := configMAX_PRIORITIES - p)"
    using c nr by (auto simp: xTaskCreate_def prvInitialiseNewTask_def prvAddNewTaskToReadyList_def set_value_def Let_def f
        prvAddTaskToReadyList_frame split: if_splits option.splits bind_splits)
  then show "primed ((t, p) # ts) k'" "\<not> xSchedulerRunning k'"
    using pr nr by (auto simp: primed_def held_def base_priority_def)
qed

lemma create_all_primed:
  assumes "create_all ts k = Some k'" "\<not> xSchedulerRunning k" "\<forall>t. held k t = 0"
  shows "primed ts k' \<and> \<not> xSchedulerRunning k'"
  using assms(1)
proof (induction ts arbitrary: k')
  case Nil
  then show ?case using assms(2,3) by (simp add: primed_def)
next
  case (Cons x ts)
  then obtain k1 where k1: "create_all ts k = Some k1" "xTaskCreate (Some (fst x)) (snd x) k1 = Some (True, k')"
    by (auto split: bind_splits if_splits)
  show ?case using create_primed [OF k1(2), of ts] Cons.IH [OF k1(1)] by simp
qed

lemma started_good:
  assumes b: "booting ((i, 0) # ts) k" and pr: "primed ((i, 0) # ts) k"
    and p: "\<forall>x \<in> set ts. snd x < configMAX_PRIORITIES" and n: "Suc (length ts) \<le> 127"
  shows "good i (started k)" "uxSchedulerSuspended (started k) = 0" "running_ready (started k)" "\<forall>t. held (started k) t = 0"
proof -
  let ?ts = "(i, 0) # ts"
  note cn = booting_containers [OF b]
  have "unat (of_nat (Suc (length ts)) :: word32) = Suc (length ts)" using n by (simp only: unat_of_nat) simp
  then have "of_nat (Suc (length ts)) \<le> (127 :: word32)" using n by (simp only: word_le_nat_alt) simp
  then have num: "uxCurrentNumberOfTasks k \<le> 127" using b by (simp add: booting_def)
  have key: "event_key (item_value k (EventItem t)) \<and> base_priority k t < configMAX_PRIORITIES"
    if at: "container k (StateItem t) \<noteq> None" for t
  proof -
    obtain q where q: "map_of ?ts t = Some q" using at unfolding cn(1) by (cases "map_of ?ts t") (simp_all del: map_of.simps)
    have "q < configMAX_PRIORITIES" using map_of_SomeD [OF q] p by (auto simp: configMAX_PRIORITIES_def)
    then show ?thesis using pr q event_key_priority unfolding primed_def by metis
  qed
  have "container k (StateItem t) \<noteq> Some TasksWaitingTermination" for t by (simp add: cn)
  then have "base_ok i (started k)"
    using started_wf [OF b] n num key by (auto simp: base_ok_def started_def base_priority_def)
  moreover have "no_pending (started k)" using cn(2) by (simp add: no_pending_def started_def)
  ultimately show "good i (started k)" by (simp add: good_def)
  show "uxSchedulerSuspended (started k) = 0" using b by (simp add: booting_def started_def)
  show "\<forall>t. held (started k) t = 0" using pr by (simp add: primed_def started_def held_def)
  obtain c q where "pxCurrentTCB k = Some c" "map_of ?ts c = Some q" using b unfolding booting_def by blast
  then show "running_ready (started k)"
    using cn(1) [of c] by (simp add: running_ready_def is_ready_def started_def del: map_of.simps)
qed

section \<open>The system\<close>

definition declared :: "queue_decl list \<Rightarrow> nat \<Rightarrow> queue_obj" where
  "declared ds q = decl_object (ds ! q)"

lemma declared_free [simp]: "declared ds q \<noteq> Owner (Some t)"
  by (cases "ds ! q") (simp_all add: declared_def)

definition ready_to_boot :: "queue_decl list \<Rightarrow> (tid \<times> word32) list \<Rightarrow> tid \<Rightarrow> sys \<Rightarrow> bool" where
  "ready_to_boot ds ts i s \<longleftrightarrow> unborn (kern s) \<and> (\<forall>t. uxMutexesHeld (tcbs (kern s) t) = 0) \<and>
     distinct (i # map fst ts) \<and> (\<forall>x \<in> set ts. snd x < configMAX_PRIORITIES) \<and> length ts < 127 \<and> decls_ok ds"

lemma fresh_system:
  assumes g: "good i k" "uxSchedulerSuspended k = 0" "running_ready k" "\<forall>t. held k t = 0"
    and fr: "\<forall>j < length ds. fresh_queue (ds ! j) m (Qs j)" and ds: "decls_ok ds"
  shows "conf_rel i (length ds) (declared ds) \<lparr>system = \<lparr>kern = k, memry = m, queues = Qs\<rparr>, calls = (\<lambda>_. None)\<rparr>"
proof -
  let ?n = "length ds"
  have "apart ?n Qs"
    unfolding apart_def
  proof (intro allI impI)
    fix q p a assume qp: "q < ?n" "p < ?n" "owns (Qs q) a \<and> owns (Qs p) a"
    then have "unat a \<in> decl_storage (ds ! q) \<inter> decl_storage (ds ! p)" using fr by (auto simp: fresh_queue_def)
    then show "q = p" using ds qp(1,2) unfolding decls_ok_def by (metis disjoint_iff empty_iff linorder_neqE_nat)
  qed
  then have q: "queues_rel ?n (declared ds) \<lparr>kern = k, memry = m, queues = Qs\<rparr>"
    using fr by (simp add: queues_rel_def fresh_queue_def declared_def lock_ok_def)
  have "owned ?n (declared ds) t = {}" for t by (simp add: owned_def)
  then have "holders_ok ?n (declared ds) k" using g(4) by (simp add: holders_ok_def)
  then have "sys_rel i ?n (declared ds) \<lparr>kern = k, memry = m, queues = Qs\<rparr>"
    using g(1) q ds by (simp add: sys_rel_def decls_ok_def)
  moreover have "is_ready k t \<and> container k (EventItem t) = None" if "pxCurrentTCB k = Some t" for t
    using good_ready_free [OF g(1)] g(2,3) that by (auto simp: running_ready_def)
  ultimately show ?thesis
    using g(2) fr by (auto simp: conf_rel_def running_at_def fresh_queue_def)
qed

lemma boot_ok:
  assumes "ready_to_boot ds ts i s"
  shows "\<exists>c. boot ds ts i s = Some c \<and> conf_rel i (length ds) (declared ds) c"
proof -
  have r: "unborn (kern s)" "\<forall>t. held (kern s) t = 0" "distinct (i # map fst ts)"
    "\<forall>x \<in> set ts. snd x < configMAX_PRIORITIES" "Suc (length ts) \<le> 127" "decls_ok ds" "\<forall>d \<in> set ds. decl_ok d"
    using assms by (simp_all add: ready_to_boot_def held_def decls_ok_def)
  obtain Qs where Qs: "create_queues ds 0 s = Some (s\<lparr>queues := Qs\<rparr>)" "\<forall>j < length ds. fresh_queue (ds ! j) (memry s) (Qs j)"
    using create_queues_ok [OF r(7), of s 0] r(1) by (auto simp: unborn_def)
  obtain s1 k where k: "create_all ts (kern s) = Some s1" "create_all ((i, 0) # ts) (kern s) = Some k"
    "booting ((i, 0) # ts) k" "vTaskStartScheduler (Some i) s1 = Some (started k)"
    by (rule start_booting [OF r(1,3,4)])
  have "primed ((i, 0) # ts) k" using create_all_primed [OF k(2) _ r(2)] r(1) by (simp add: unborn_def)
  note g = started_good [OF k(3) this r(4,5)]
  have "boot ds ts i s = Some \<lparr>system = \<lparr>kern = started k, memry = memry s, queues = Qs\<rparr>, calls = (\<lambda>_. None)\<rparr>"
    using Qs(1) k(1,4) by (simp add: boot_def)
  then show ?thesis using fresh_system [OF g Qs(2) r(6)] by blast
qed

end
