(* ===== verification/Queue_System_Properties.thy ===== *)
theory Queue_System_Properties
  imports Queue_System_Start "HOL-Library.Sublist"
begin

text \<open>
  What the tasks of a system get from its queues, semaphores and mutexes, whatever the order in
  which tasks, ticks and interrupts run.
\<close>

lemma run_ok:
  assumes "conf_rel i n A c" "all_permitted i n es c"
  shows "\<exists>outs c' A'. run_events es c = Some (outs, c') \<and> spec_run outs A = Some A' \<and> conf_rel i n A' c'"
  using assms
proof (induction es arbitrary: A c)
  case Nil
  then show ?case by auto
next
  case (Cons e es)
  obtain out c1 A1 where s: "sys_step e c = Some (out, c1)" "conf_rel i n A1 c1" "outcome_ok out A A1"
    using sys_step_ok [OF Cons.prems(1), of e] Cons.prems(2) by (auto simp: step_ok_def)
  obtain outs c' A' where r: "run_events es c1 = Some (outs, c')" "spec_run outs A1 = Some A'" "conf_rel i n A' c'"
    using Cons.IH [OF s(2)] Cons.prems(2) s(1) by auto
  have "spec_run (case out of None \<Rightarrow> outs | Some x \<Rightarrow> x # outs) A = Some A'"
    using s(3) r(2) by (auto simp: outcome_ok_def split: option.splits prod.splits if_splits)
  then show ?case using s(1) r(1,3) by (auto split: option.splits)
qed

lemma boot_run_ok:
  assumes "ready_to_boot ds ts i s" "boot ds ts i s = Some c" "all_permitted i (length ds) es c"
    "run_events es c = Some (outs, c')"
  shows "\<exists>A'. spec_run outs (declared ds) = Some A'"
  using boot_ok [OF assms(1)] run_ok [of i "length ds" "declared ds" c es] assms(2-4) by auto

section \<open>Runs of the objects\<close>

lemma spec_run_append:
  "spec_run (xs @ ys) A = (case spec_run xs A of None \<Rightarrow> None | Some B \<Rightarrow> spec_run ys B)"
  by (induction xs arbitrary: A) (auto split: prod.splits)

lemma spec_step_kind: "spec_step t opn (Owner h) = (r, ob) \<Longrightarrow> \<exists>h'. ob = Owner h'"
  by (cases opn) (auto split: if_splits)

lemma mutex_stays:
  "spec_run xs A = Some B \<Longrightarrow> A m = Owner h \<Longrightarrow> \<exists>h'. B m = Owner h'"
proof (induction xs arbitrary: A h)
  case (Cons x xs)
  obtain t q opn r ob where x: "x = (t, q, opn, r)" "spec_step t opn (A q) = (r, ob)" "spec_run xs (A(q := ob)) = Some B"
    using Cons.prems(1) by (cases x) (auto split: prod.splits if_splits)
  have "\<exists>h'. (A(q := ob)) m = Owner h'" using Cons.prems(2) x(2) spec_step_kind by (cases "q = m") auto
  then show ?case using Cons.IH [OF x(3)] by blast
qed simp

lemma owner_stays:
  "spec_run xs A = Some B \<Longrightarrow> A m = Owner (Some t) \<Longrightarrow>
   \<forall>pos x. (Some t, m, Put pos x, True, None) \<notin> set xs \<Longrightarrow> B m = Owner (Some t)"
proof (induction xs arbitrary: A)
  case (Cons x xs)
  obtain u q opn r ob where x: "x = (u, q, opn, r)" "spec_step u opn (A q) = (r, ob)" "spec_run xs (A(q := ob)) = Some B"
    using Cons.prems(1) by (cases x) (auto split: prod.splits if_splits)
  have "(A(q := ob)) m = Owner (Some t)"
    using x(1,2) Cons.prems(2,3) by (cases "q = m"; cases opn) (auto split: if_splits)
  then show ?case using Cons.IH [OF x(3)] Cons.prems(3) by simp
qed simp

text \<open>The items that were sent to a queue, and those that were received from it, in order.\<close>

fun sent :: "nat \<Rightarrow> outcome list \<Rightarrow> byte list list" where
  "sent q ((t, p, Put pos x, True, y) # outs) = (if p = q then x # sent q outs else sent q outs)"
| "sent q (out # outs) = sent q outs"
| "sent q [] = []"

fun received :: "nat \<Rightarrow> outcome list \<Rightarrow> byte list list" where
  "received q ((t, p, Get, True, Some x) # outs) = (if p = q then x # received q outs else received q outs)"
| "received q (out # outs) = received q outs"
| "received q [] = []"

definition only_to_back :: "nat \<Rightarrow> outcome list \<Rightarrow> bool" where
  "only_to_back q outs \<longleftrightarrow> (\<forall>t x r. (t, q, Put queueSEND_TO_FRONT x, r) \<notin> set outs \<and> (t, q, Put queueOVERWRITE x, r) \<notin> set outs)"

lemma queue_content:
  "spec_run outs A = Some B \<Longrightarrow> A q = Items c xs \<Longrightarrow> length xs \<le> c \<Longrightarrow> only_to_back q outs \<Longrightarrow>
   \<exists>ys. B q = Items c ys \<and> length ys \<le> c \<and> xs @ sent q outs = received q outs @ ys"
proof (induction outs arbitrary: A xs)
  case (Cons out outs)
  obtain u p opn r ob where x: "out = (u, p, opn, r)" "spec_step u opn (A p) = (r, ob)" "spec_run outs (A(p := ob)) = Some B"
    using Cons.prems(1) by (cases out) (auto split: prod.splits if_splits)
  have ends: "only_to_back q outs" using Cons.prems(4) by (auto simp: only_to_back_def)
  show ?case
  proof (cases "p = q")
    case False
    then have same: "sent q (out # outs) = sent q outs" "received q (out # outs) = received q outs"
      using x(1) by (cases opn; cases "fst r"; cases "snd r"; cases r; simp)+
    show ?thesis unfolding same using False Cons.prems(2,3) by (intro Cons.IH [OF x(3) _ _ ends]) auto
  next
    case True
    note IH = Cons.IH [OF x(3) _ _ ends]
    show ?thesis
    proof (cases opn)
      case (Put pos y)
      have "pos = queueSEND_TO_BACK"
        using Cons.prems(4) True x(1) Put by (cases pos; cases r) (auto simp: only_to_back_def)
      then show ?thesis
        using True x(1,2) Put Cons.prems(2,3) IH [of xs] IH [of "xs @ [y]"] by (auto split: if_splits)
    next
      case Get
      then show ?thesis
        using True x(1,2) Cons.prems(2,3) IH [of xs] IH [of "tl xs"] by (cases xs) (auto split: if_splits)
    next
      case Peek
      then show ?thesis
        using True x(1,2) Cons.prems(2,3) IH [of xs] by (cases xs) (auto split: if_splits)
    qed
  qed
qed simp

section \<open>A run\<close>

definition demo_decls :: "queue_decl list" where
  "demo_decls = [Message_Queue 0x1000 2 1, Mutex_Semaphore 0x2000]"

definition demo_tasks :: "(tid \<times> word32) list" where
  "demo_tasks = [(2, 3), (1, 3)]"

definition demo_start :: sys where
  "demo_start = demo_sys\<lparr>kern := zeroed_kernel\<rparr>"

definition demo_conf :: conf where
  "demo_conf = the (boot demo_decls demo_tasks 0 demo_start)"

definition demo_events :: "event list" where
  "demo_events = [Start (Take_Call 1) 0, Advance, Advance, Isr_Send 0 [7] queueSEND_TO_BACK,
     Start (Send_Call 1 [] queueSEND_TO_BACK) 0, Advance, Advance, Tick, Start (Take_Call 1) 0, Advance, Advance,
     Isr_Send 0 [8] queueSEND_TO_BACK, Start (Receive_Call 0) 5, Advance, Advance]"

lemma demo_ready: "ready_to_boot demo_decls demo_tasks 0 demo_start"
proof -
  have "unborn (kern demo_start)" by (simp add: demo_start_def unborn_def zeroed_kernel_def demo_kernel_def)
  moreover have "\<forall>t. uxMutexesHeld (tcbs (kern demo_start) t) = 0"
    by (simp add: demo_start_def zeroed_kernel_def demo_kernel_def demo_tcb_def)
  moreover have "decls_ok demo_decls" by (auto simp: decls_ok_def demo_decls_def less_Suc_eq)
  ultimately show ?thesis by (simp add: ready_to_boot_def demo_tasks_def demo_decls_def configMAX_PRIORITIES_def)
qed

lemma demo_boots: "boot demo_decls demo_tasks 0 demo_start = Some demo_conf"
  using boot_ok [OF demo_ready] by (auto simp: demo_conf_def)

lemma demo_permitted: "all_permitted 0 (length demo_decls) demo_events demo_conf"
  by code_simp

lemma demo_outcomes: "map_option fst (run_events demo_events demo_conf) = Some
    [(Some 2, 1, Get, True, None), (None, 0, Put queueSEND_TO_BACK [7], True, None),
     (Some 2, 1, Put queueSEND_TO_BACK [], True, None), (Some 1, 1, Get, True, None),
     (None, 0, Put queueSEND_TO_BACK [8], True, None), (Some 1, 0, Get, True, Some [7])]"
  by code_simp

section \<open>Properties\<close>







end
