(* ===== verification/Event_Groups.thy ===== *)
theory Event_Groups
  imports Task_Control
begin

unbundle bit_operations_syntax

text \<open>
  Event groups (\<^verbatim>\<open>event_groups.c\<close>) on top of the scheduler. The state adds the bits of every
  group to the kernel; the tasks that wait for bits of group \<open>g\<close> are in the kernel's event list
  \<open>g\<close>, in no order, with the bits they wait for in the value of their event items.

  As with queues, the two functions that block are step functions over their program points;
  what C does with the scheduler suspended is one step. The variants for interrupts, which
  hand the work to the timer task, are left out.
\<close>

record groups =
  gkern :: kernel
  uxEventBits :: "nat \<Rightarrow> word32"

abbreviation eventCLEAR_EVENTS_ON_EXIT_BIT :: word32 where "eventCLEAR_EVENTS_ON_EXIT_BIT \<equiv> 0x01000000"
abbreviation eventUNBLOCKED_DUE_TO_BIT_SET :: word32 where "eventUNBLOCKED_DUE_TO_BIT_SET \<equiv> 0x02000000"
abbreviation eventWAIT_FOR_ALL_BITS :: word32 where "eventWAIT_FOR_ALL_BITS \<equiv> 0x04000000"
abbreviation eventEVENT_BITS_CONTROL_BYTES :: word32 where "eventEVENT_BITS_CONTROL_BYTES \<equiv> 0xFF000000"

definition upd_bits :: "nat \<Rightarrow> (word32 \<Rightarrow> word32) \<Rightarrow> groups \<Rightarrow> groups" where
  "upd_bits g f s = s\<lparr>uxEventBits := (uxEventBits s)(g := f (uxEventBits s g))\<rparr>"

text \<open>\<open>new\<close> is the handle of the group, \<open>None\<close> when \<^verbatim>\<open>pvPortMalloc\<close> had no room.\<close>

definition xEventGroupCreate :: "nat option \<Rightarrow> groups \<Rightarrow> nat option \<times> groups" where
  "xEventGroupCreate new s = (case new of None \<Rightarrow> (None, s)
     | Some g \<Rightarrow> (Some g, upd_bits g (\<lambda>_. 0) (s\<lparr>gkern := init_list (EventList g) (gkern s)\<rparr>)))"

definition prvTestWaitCondition :: "word32 \<Rightarrow> word32 \<Rightarrow> bool \<Rightarrow> bool" where
  "prvTestWaitCondition uxCurrentEventBits uxBitsToWaitFor xWaitForAllBits \<longleftrightarrow>
     (if \<not> xWaitForAllBits then uxCurrentEventBits AND uxBitsToWaitFor \<noteq> 0
      else uxCurrentEventBits AND uxBitsToWaitFor = uxBitsToWaitFor)"

section \<open>Setting and clearing bits\<close>

text \<open>Whether the item value of a waiting task matches the bits of the group.\<close>

definition xMatchFound :: "word32 \<Rightarrow> word32 \<Rightarrow> bool" where
  "xMatchFound uxItemValue bits \<longleftrightarrow>
     (let uxControlBits = uxItemValue AND eventEVENT_BITS_CONTROL_BYTES;
          uxBitsWaitedFor = uxItemValue AND NOT eventEVENT_BITS_CONTROL_BYTES
      in if uxControlBits AND eventWAIT_FOR_ALL_BITS = 0 then uxBitsWaitedFor AND bits \<noteq> 0
         else uxBitsWaitedFor AND bits = uxBitsWaitedFor)"

text \<open>
  The loop over the waiting tasks. It reads the successor of an item before it removes the item,
  so it visits the items that the list had at its start.
\<close>

primrec set_bits_loop :: "nat \<Rightarrow> item list \<Rightarrow> word32 \<Rightarrow> groups \<Rightarrow> (word32 \<times> groups) option" where
  "set_bits_loop g [] uxBitsToClear s = Some (uxBitsToClear, s)"
| "set_bits_loop g (pxListItem # rest) uxBitsToClear s =
     (let uxItemValue = item_value (gkern s) pxListItem
      in if xMatchFound uxItemValue (uxEventBits s g) then do {
           let uxBitsToClear = (if uxItemValue AND eventEVENT_BITS_CONTROL_BYTES AND eventCLEAR_EVENTS_ON_EXIT_BIT \<noteq> 0
                                then uxBitsToClear OR (uxItemValue AND NOT eventEVENT_BITS_CONTROL_BYTES) else uxBitsToClear);
           k \<leftarrow> vTaskRemoveFromUnorderedEventList (owner_of pxListItem)
                  (uxEventBits s g OR eventUNBLOCKED_DUE_TO_BIT_SET) (gkern s);
           set_bits_loop g rest uxBitsToClear (s\<lparr>gkern := k\<rparr>) }
         else set_bits_loop g rest uxBitsToClear s)"

definition xEventGroupSetBits :: "nat \<Rightarrow> word32 \<Rightarrow> groups \<Rightarrow> (word32 \<times> groups) option" where
  "xEventGroupSetBits g uxBitsToSet s =
     (if uxBitsToSet AND eventEVENT_BITS_CONTROL_BYTES \<noteq> 0 then None
      else do {
        let s = s\<lparr>gkern := vTaskSuspendAll (gkern s)\<rparr>;
        let s = upd_bits g (\<lambda>bits. bits OR uxBitsToSet) s;
        (uxBitsToClear, s) \<leftarrow> set_bits_loop g (kitems (klists (gkern s) (EventList g))) 0 s;
        let s = upd_bits g (\<lambda>bits. bits AND NOT uxBitsToClear) s;
        let uxReturnBits = uxEventBits s g;
        (_, k) \<leftarrow> xTaskResumeAll (gkern s);
        Some (uxReturnBits, s\<lparr>gkern := k\<rparr>) })"

definition xEventGroupClearBits :: "nat \<Rightarrow> word32 \<Rightarrow> groups \<Rightarrow> (word32 \<times> groups) option" where
  "xEventGroupClearBits g uxBitsToClear s =
     (if uxBitsToClear AND eventEVENT_BITS_CONTROL_BYTES \<noteq> 0 then None
      else Some (uxEventBits s g, upd_bits g (\<lambda>bits. bits AND NOT uxBitsToClear) s))"

definition xEventGroupGetBitsFromISR :: "nat \<Rightarrow> groups \<Rightarrow> word32" where
  "xEventGroupGetBitsFromISR g s = uxEventBits s g"

definition vEventGroupSetBitsCallback :: "nat \<Rightarrow> word32 \<Rightarrow> groups \<Rightarrow> groups option" where
  "vEventGroupSetBitsCallback g ulBitsToSet s = map_option snd (xEventGroupSetBits g ulBitsToSet s)"

definition vEventGroupClearBitsCallback :: "nat \<Rightarrow> word32 \<Rightarrow> groups \<Rightarrow> groups option" where
  "vEventGroupClearBitsCallback g ulBitsToClear s = map_option snd (xEventGroupClearBits g ulBitsToClear s)"

text \<open>Deleting a group releases all its waiting tasks; its memory is the heap's again.\<close>

partial_function (option) delete_loop :: "nat \<Rightarrow> kernel \<Rightarrow> kernel option" where
  "delete_loop g k =
     (if is_empty (EventList g) k then Some k
      else do {
        k \<leftarrow> vTaskRemoveFromUnorderedEventList (head_entry (EventList g) k) eventUNBLOCKED_DUE_TO_BIT_SET k;
        delete_loop g k })"

declare delete_loop.simps [code]

definition vEventGroupDelete :: "nat \<Rightarrow> groups \<Rightarrow> groups option" where
  "vEventGroupDelete g s = do {
     k \<leftarrow> delete_loop g (vTaskSuspendAll (gkern s));
     (_, k) \<leftarrow> xTaskResumeAll k;
     Some (s\<lparr>gkern := k\<rparr>) }"

section \<open>Waiting\<close>

text \<open>
  After \<open>Group_Enter\<close> a call that waits yields (unless resuming the scheduler did), collects what
  its event item holds when it runs again, and, if its time is up, looks at the group once more.
  A return carries the bits and \<^verbatim>\<open>xTimeoutOccurred\<close>.
\<close>

datatype group_phase = Group_Enter | Group_Yield | Group_Collect | Group_Expired

datatype group_progress = Group_Return word32 bool | Group_Continue group_phase

definition group_cannot_wait :: "word32 \<Rightarrow> word32 \<Rightarrow> groups \<Rightarrow> bool" where
  "group_cannot_wait uxBitsToWaitFor xTicksToWait s \<longleftrightarrow>
     uxBitsToWaitFor AND eventEVENT_BITS_CONTROL_BYTES \<noteq> 0 \<or> uxBitsToWaitFor = 0 \<or>
     uxSchedulerSuspended (gkern s) \<noteq> 0 \<and> xTicksToWait \<noteq> 0"

text \<open>The end of the suspended section; \<open>decided\<close> is the return value of a call that does not wait.\<close>

definition resume_and_wait :: "(word32 \<times> bool) option \<Rightarrow> groups \<Rightarrow> (group_progress \<times> groups) option" where
  "resume_and_wait decided s = do {
     (xAlreadyYielded, k) \<leftarrow> xTaskResumeAll (gkern s);
     Some (case decided of Some (uxReturn, xTimeoutOccurred) \<Rightarrow> Group_Return uxReturn xTimeoutOccurred
           | None \<Rightarrow> Group_Continue (if xAlreadyYielded then Group_Collect else Group_Yield),
           s\<lparr>gkern := k\<rparr>) }"

definition block_for_bits :: "nat \<Rightarrow> word32 \<Rightarrow> word32 \<Rightarrow> groups \<Rightarrow> groups option" where
  "block_for_bits g uxItemValue xTicksToWait s =
     map_option (\<lambda>k. s\<lparr>gkern := k\<rparr>) (vTaskPlaceOnUnorderedEventList g uxItemValue xTicksToWait (gkern s))"

text \<open>The end of a call that waited.\<close>

fun group_woken :: "nat \<Rightarrow> word32 \<Rightarrow> bool \<Rightarrow> bool \<Rightarrow> group_phase \<Rightarrow> groups \<Rightarrow> (group_progress \<times> groups) option" where
  "group_woken g uxBitsToWaitFor xClearOnExit xWaitForAllBits Group_Yield s =
     map_option (\<lambda>k. (Group_Continue Group_Collect, s\<lparr>gkern := k\<rparr>)) (portYIELD_WITHIN_API (gkern s))"
| "group_woken g uxBitsToWaitFor xClearOnExit xWaitForAllBits Group_Collect s = do {
     (uxReturn, k) \<leftarrow> uxTaskResetEventItemValue (gkern s);
     Some (if uxReturn AND eventUNBLOCKED_DUE_TO_BIT_SET = 0 then Group_Continue Group_Expired
           else Group_Return (uxReturn AND NOT eventEVENT_BITS_CONTROL_BYTES) False, s\<lparr>gkern := k\<rparr>) }"
| "group_woken g uxBitsToWaitFor xClearOnExit xWaitForAllBits Group_Expired s =
     (let uxReturn = uxEventBits s g
      in Some (Group_Return (uxReturn AND NOT eventEVENT_BITS_CONTROL_BYTES) True,
               if prvTestWaitCondition uxReturn uxBitsToWaitFor xWaitForAllBits \<and> xClearOnExit
               then upd_bits g (\<lambda>bits. bits AND NOT uxBitsToWaitFor) s else s))"
| "group_woken g uxBitsToWaitFor xClearOnExit xWaitForAllBits Group_Enter s = None"

fun xEventGroupWaitBits ::
  "nat \<Rightarrow> word32 \<Rightarrow> bool \<Rightarrow> bool \<Rightarrow> word32 \<Rightarrow> group_phase \<Rightarrow> groups \<Rightarrow> (group_progress \<times> groups) option" where
  "xEventGroupWaitBits g uxBitsToWaitFor xClearOnExit xWaitForAllBits xTicksToWait Group_Enter s =
     (if group_cannot_wait uxBitsToWaitFor xTicksToWait s then None
      else
        let s = s\<lparr>gkern := vTaskSuspendAll (gkern s)\<rparr>;
            uxCurrentEventBits = uxEventBits s g
        in if prvTestWaitCondition uxCurrentEventBits uxBitsToWaitFor xWaitForAllBits
           then resume_and_wait (Some (uxCurrentEventBits, False))
                  (if xClearOnExit then upd_bits g (\<lambda>bits. bits AND NOT uxBitsToWaitFor) s else s)
           else if xTicksToWait = 0 then resume_and_wait (Some (uxCurrentEventBits, True)) s
           else do {
             let uxControlBits = (if xClearOnExit then eventCLEAR_EVENTS_ON_EXIT_BIT else 0) OR
                                 (if xWaitForAllBits then eventWAIT_FOR_ALL_BITS else 0);
             s \<leftarrow> block_for_bits g (uxBitsToWaitFor OR uxControlBits) xTicksToWait s;
             resume_and_wait None s })"
| "xEventGroupWaitBits g uxBitsToWaitFor xClearOnExit xWaitForAllBits xTicksToWait ph s =
     group_woken g uxBitsToWaitFor xClearOnExit xWaitForAllBits ph s"

fun xEventGroupSync ::
  "nat \<Rightarrow> word32 \<Rightarrow> word32 \<Rightarrow> word32 \<Rightarrow> group_phase \<Rightarrow> groups \<Rightarrow> (group_progress \<times> groups) option" where
  "xEventGroupSync g uxBitsToSet uxBitsToWaitFor xTicksToWait Group_Enter s =
     (if group_cannot_wait uxBitsToWaitFor xTicksToWait s then None
      else do {
        let s = s\<lparr>gkern := vTaskSuspendAll (gkern s)\<rparr>;
        let uxOriginalBitValue = uxEventBits s g;
        (_, s) \<leftarrow> xEventGroupSetBits g uxBitsToSet s;
        if (uxOriginalBitValue OR uxBitsToSet) AND uxBitsToWaitFor = uxBitsToWaitFor
        then resume_and_wait (Some (uxOriginalBitValue OR uxBitsToSet, False))
               (upd_bits g (\<lambda>bits. bits AND NOT uxBitsToWaitFor) s)
        else if xTicksToWait \<noteq> 0 then do {
          s \<leftarrow> block_for_bits g (uxBitsToWaitFor OR eventCLEAR_EVENTS_ON_EXIT_BIT OR eventWAIT_FOR_ALL_BITS) xTicksToWait s;
          resume_and_wait None s }
        else resume_and_wait (Some (uxEventBits s g, True)) s })"
| "xEventGroupSync g uxBitsToSet uxBitsToWaitFor xTicksToWait ph s = group_woken g uxBitsToWaitFor True True ph s"

end
