(* ===== verification/Group_Kernel.thy ===== *)
theory Group_Kernel
  imports Kernel_Steady Event_Groups
begin

text \<open>
  What the kernel operations that event groups use do to event items: their values, which hold
  the bits that tasks wait for, and the lists they are in.
\<close>

section \<open>Operations that leave event items alone\<close>

text \<open>No event item is written, and event items only leave lists.\<close>

definition events_kept :: "kernel \<Rightarrow> kernel \<Rightarrow> bool" where
  "events_kept k k' \<longleftrightarrow> (\<forall>t. item_value k' (EventItem t) = item_value k (EventItem t)) \<and> unjoined k k' \<and>
     (\<forall>t. container k (EventItem t) = None \<longrightarrow> container k' (EventItem t) = None)"

abbreviation untouched :: "kernel \<Rightarrow> kernel \<Rightarrow> bool" where
  "untouched \<equiv> steadily (\<lambda>_. False) True"

lemma untouched_events: "untouched k k' \<Longrightarrow> events_kept k k'"
  by (simp add: steadily_def written_def events_kept_def)

lemma events_kept_refl [simp]: "events_kept k k"
  by (simp add: events_kept_def unjoined_def)

lemma events_kept_trans: "events_kept k k1 \<Longrightarrow> events_kept k1 k2 \<Longrightarrow> events_kept k k2"
  unfolding events_kept_def unjoined_def by (elim conjE, intro conjI allI) (simp, blast, blast)

lemma events_keptD:
  assumes "events_kept k k'"
  shows "item_value k' (EventItem t) = item_value k (EventItem t)"
    "container k' (EventItem t) = Some (EventList e) \<Longrightarrow> container k (EventItem t) = Some (EventList e)"
    "container k (EventItem t) = None \<Longrightarrow> container k' (EventItem t) = None"
  using assms by (auto simp: events_kept_def unjoined_def)

definition calm :: "tid \<Rightarrow> kernel \<Rightarrow> bool" where
  "calm i k \<longleftrightarrow> kernel_wf i k \<and> (uxSchedulerSuspended k = 0 \<longrightarrow> no_pending k)"

lemma calmD: "calm i k \<Longrightarrow> kernel_wf i k" "calm i k \<Longrightarrow> uxSchedulerSuspended k = 0 \<Longrightarrow> no_pending k"
  by (simp_all add: calm_def)

lemma calm_current: "calm i k \<Longrightarrow> \<exists>c. pxCurrentTCB k = Some c"
  by (auto simp: calm_def kernel_wf_def)

lemma calm_ready_free:
  assumes c: "calm i k" and s: "uxSchedulerSuspended k = 0" and r: "is_ready k t"
  shows "container k (EventItem t) = None"
proof (rule ccontr)
  assume "container k (EventItem t) \<noteq> None"
  then obtain l where l: "container k (EventItem t) = Some l" by blast
  have "task_ok k t" using calmD(1) [OF c] by (simp add: kernel_wf_def sched_ok_def core_ok_def)
  then have "l = PendingReadyList" using l r by (auto simp: task_ok_def is_ready_def)
  then show False using calmD(2) [OF c s] l by (simp add: no_pending_def)
qed

lemma calm_untouched:
  "calm i k \<Longrightarrow> kernel_wf i k' \<Longrightarrow> untouched k k' \<Longrightarrow> uxSchedulerSuspended k' = uxSchedulerSuspended k \<Longrightarrow> calm i k'"
  using no_pending_steady by (auto simp: calm_def)

lemma runs_highest_ready: "runs_highest k \<Longrightarrow> running_ready k"
  by (auto simp: running_ready_def runs_highest_def is_ready_def)

lemma calm_switch:
  assumes c: "calm i k" and sus: "uxSchedulerSuspended k = 0"
  shows "\<exists>k'. vTaskSwitchContext k = Some k' \<and> calm i k' \<and> untouched k k' \<and> uxSchedulerSuspended k' = 0 \<and> running_ready k'"
proof -
  obtain k' where k': "vTaskSwitchContext k = Some k'" "kernel_wf i k'" "same_tasks k k'" "runs_highest k'"
    using wf_switch [OF calmD(1) [OF c], of "{}"] sus by blast
  have st: "untouched k k'" by (rule steady_switch [OF k'(1)])
  have su: "uxSchedulerSuspended k' = uxSchedulerSuspended k" using k'(3) by (simp add: same_tasks_def)
  show ?thesis using calm_untouched [OF c k'(2) st su] k'(1) st su sus runs_highest_ready [OF k'(4)] by auto
qed

lemma calm_resume:
  assumes wf: "kernel_wf i k" and sus: "uxSchedulerSuspended k = 1"
  shows "\<exists>y k'. xTaskResumeAll k = Some (y, k') \<and> calm i k' \<and> untouched k k' \<and> uxSchedulerSuspended k' = 0 \<and>
    (if y then running_ready k' else pxCurrentTCB k' = pxCurrentTCB k)"
proof -
  obtain y k' where r: "xTaskResumeAll k = Some (y, k')" "kernel_wf i k'" "uxSchedulerSuspended k' = 0"
    "y \<longrightarrow> runs_highest k'" "\<not> y \<longrightarrow> pxCurrentTCB k' = pxCurrentTCB k"
    using wf_resume_all [OF wf] sus by auto
  have n: "uxCurrentNumberOfTasks k \<noteq> 0" using wf by (simp add: kernel_wf_def)
  have st: "untouched k k'" by (rule steady_resume [OF r(1) sus n])
  have "no_pending k'" by (rule resume_no_pending [OF r(1) sus wf])
  then show ?thesis using r st runs_highest_ready by (auto simp: calm_def)
qed

lemma calm_tick:
  assumes c: "calm i k" and sus: "uxSchedulerSuspended k = 0"
  shows "\<exists>r k'. xTaskIncrementTick k = Some (r, k') \<and> calm i k' \<and> untouched k k' \<and> uxSchedulerSuspended k' = 0 \<and>
    pxCurrentTCB k' = pxCurrentTCB k"
proof -
  obtain r k' where t: "xTaskIncrementTick k = Some (r, k')" "kernel_wf i k'" "uxSchedulerSuspended k' = 0"
    "pxCurrentTCB k' = pxCurrentTCB k" using wf_tick [OF calmD(1) [OF c] sus] by blast
  have st: "untouched k k'" by (rule steady_tick [OF t(1)])
  show ?thesis using calm_untouched [OF c t(2) st] t st sus by auto
qed

lemma suspend_frame:
  "item_value (vTaskSuspendAll k) = item_value k" "container (vTaskSuspendAll k) = container k"
  "klists (vTaskSuspendAll k) = klists k" "tcbs (vTaskSuspendAll k) = tcbs k"
  "pxCurrentTCB (vTaskSuspendAll k) = pxCurrentTCB k"
  "uxSchedulerSuspended (vTaskSuspendAll k) = uxSchedulerSuspended k + 1" "is_ready (vTaskSuspendAll k) t = is_ready k t"
  by (simp_all add: vTaskSuspendAll_def is_ready_def)

section \<open>The running task waits\<close>

lemma park_values:
  assumes s: "prvAddCurrentTaskToDelayedList n indef k = Some k'" shows "item_value k' (EventItem u) = item_value k (EventItem u)"
proof -
  obtain t where t: "pxCurrentTCB k = Some t"
    using s by (auto simp: prvAddCurrentTaskToDelayedList_def split: bind_splits)
  obtain k1 where r: "list_remove (StateItem t) (upd_tcb t (ucDelayAborted_update (\<lambda>_. False)) k) = Some k1"
    using s t by (auto simp: prvAddCurrentTaskToDelayedList_def Let_def split: bind_splits)
  show ?thesis
    using s t r list_remove_frame [OF r]
    by (auto simp: prvAddCurrentTaskToDelayedList_def Let_def frame_simps upd_tcb_def split: if_splits)
qed

lemma calm_delay:
  assumes c: "calm i k" and sus: "uxSchedulerSuspended k = 0" and t: "pxCurrentTCB k = Some t" "t \<noteq> i"
  shows "\<exists>k'. vTaskDelay n k = Some k' \<and> calm i k' \<and> events_kept k k' \<and> uxSchedulerSuspended k' = 0 \<and> running_ready k'"
proof (cases "n = 0")
  case True
  then show ?thesis using calm_switch [OF c sus] untouched_events by (auto simp: vTaskDelay_def)
next
  case False
  let ?k = "vTaskSuspendAll k"
  obtain k1 where k1: "prvAddCurrentTaskToDelayedList n False ?k = Some k1" "kernel_wf i k1" "parked t n False ?k k1"
    using wf_park [OF wf_suspend_all [OF calmD(1) [OF c]] _ t(2) False] t by (auto simp: suspend_frame)
  have su1: "uxSchedulerSuspended k1 = 1" using k1(3) sus by (simp add: parked_def suspend_frame)
  have ev: "events_kept k k1"
    using park_values [OF k1(1)] k1(3) by (auto simp: events_kept_def unjoined_def suspend_frame parked_def)
  obtain y k2 where k2: "xTaskResumeAll k1 = Some (y, k2)" "calm i k2" "untouched k1 k2" "uxSchedulerSuspended k2 = 0"
    "if y then running_ready k2 else pxCurrentTCB k2 = pxCurrentTCB k1" using calm_resume [OF k1(2) su1] by blast
  obtain k3 where k3: "(if y then Some k2 else vTaskSwitchContext k2) = Some k3" "calm i k3" "events_kept k2 k3"
    "uxSchedulerSuspended k3 = 0" "running_ready k3"
    using calm_switch [OF k2(2,4)] k2 untouched_events by (cases y) auto
  have "vTaskDelay n k = Some k3" using False sus k1(1) k2(1) k3(1) by (simp add: vTaskDelay_def word_gt_0 suspend_frame)
  then show ?thesis
    using k3 events_kept_trans [OF events_kept_trans [OF ev untouched_events [OF k2(3)]] k3(3)] by blast
qed

text \<open>Waiting for bits: the event item holds them and joins the list of the group.\<close>

lemma place_unordered:
  assumes wf: "kernel_wf i k" and sus: "uxSchedulerSuspended k \<noteq> 0" and t: "pxCurrentTCB k = Some t" "t \<noteq> i"
    and n: "n \<noteq> 0" and e: "container k (EventItem t) = None"
  shows "\<exists>k'. vTaskPlaceOnUnorderedEventList l v n k = Some k' \<and> kernel_wf i k' \<and>
    uxSchedulerSuspended k' = uxSchedulerSuspended k \<and> pxCurrentTCB k' = Some t \<and>
    container k' (EventItem t) = Some (EventList l) \<and> item_value k' (EventItem t) = v OR taskEVENT_LIST_ITEM_VALUE_IN_USE \<and>
    (\<forall>u. u \<noteq> t \<longrightarrow> container k' (EventItem u) = container k (EventItem u) \<and>
       item_value k' (EventItem u) = item_value k (EventItem u))"
proof -
  let ?k = "set_value (EventItem t) (v OR taskEVENT_LIST_ITEM_VALUE_IN_USE) k"
  let ?j = "insert_end (EventList l) (EventItem t) ?k"
  have "kernel_wf i ?k"
    using wf event_value_ok(2) by (auto simp: kernel_wf_def alive_def is_ready_def set_value_def)
  moreover have "pxCurrentTCB ?k = Some t" "container ?k (EventItem t) = None" using t e by (simp_all add: set_value_def)
  ultimately obtain k' where k': "prvAddCurrentTaskToDelayedList n True ?j = Some k'" "kernel_wf i k'" "parked t n True ?j k'"
    "container k' (EventItem t) = Some (EventList l)"
    using park_on_event [of i ?k t n "EventList l" ?j True] t(2) n by auto
  have "vTaskPlaceOnUnorderedEventList l v n k = Some k'"
    using sus t(1) k'(1) by (simp add: vTaskPlaceOnUnorderedEventList_def Let_def)
  moreover have "item_value k' (EventItem u) = item_value ?k (EventItem u)" for u
    using park_values [OF k'(1)] by (simp add: insert_end_def)
  ultimately show ?thesis using k'(2-4) by (auto simp: parked_def insert_end_def set_value_def)
qed

lemma reset_item_value:
  assumes c: "calm i k" and t: "pxCurrentTCB k = Some t"
  shows "\<exists>k'. uxTaskResetEventItemValue k = Some (item_value k (EventItem t), k') \<and> calm i k' \<and>
    container k' = container k \<and> (\<forall>u. u \<noteq> t \<longrightarrow> item_value k' (EventItem u) = item_value k (EventItem u)) \<and>
    pxCurrentTCB k' = pxCurrentTCB k \<and> uxSchedulerSuspended k' = uxSchedulerSuspended k"
  using c t event_value_ok(2)
  by (auto simp: uxTaskResetEventItemValue_def calm_def kernel_wf_def no_pending_def alive_def is_ready_def set_value_def)

section \<open>Releasing a task\<close>

lemma remove_unordered:
  assumes wf: "kernel_wf i k" and sus: "uxSchedulerSuspended k \<noteq> 0" and l: "container k (EventItem t) = Some (EventList l)"
  shows "\<exists>k'. vTaskRemoveFromUnorderedEventList t v k = Some k' \<and> kernel_wf i k' \<and>
    container k' = (container k)(EventItem t := None, StateItem t := Some (ReadyList (uxPriority (tcbs k t)))) \<and>
    item_value k' = (item_value k)(EventItem t := v OR taskEVENT_LIST_ITEM_VALUE_IN_USE) \<and> tcbs k' = tcbs k \<and>
    pxCurrentTCB k' = pxCurrentTCB k \<and> uxSchedulerSuspended k' = uxSchedulerSuspended k \<and> xPendedTicks k' = xPendedTicks k"
proof -
  let ?k = "set_value (EventItem t) (v OR taskEVENT_LIST_ITEM_VALUE_IN_USE) k"
  have wf0: "kernel_wf i ?k"
    using wf event_value_ok(2) by (auto simp: kernel_wf_def alive_def is_ready_def set_value_def)
  have e0: "container ?k (EventItem t) = Some (EventList l)" using l by (simp add: set_value_def)
  then obtain k1 where r1: "list_remove (EventItem t) ?k = Some k1" using list_remove_some [of ?k "EventItem t"] by auto
  note f1 = list_remove_frame [OF r1] list_remove_container [OF r1]
  have wf1: "kernel_wf i k1" by (rule wf_remove_event [OF wf0 r1])
  have ok1: "sched_ok k1" using wf1 by (simp add: kernel_wf_def)
  have "task_ok ?k t" using wf0 by (simp add: kernel_wf_def sched_ok_def core_ok_def)
  then have st: "container k1 (StateItem t) \<noteq> None" using e0 by (auto simp: task_ok_def f1)
  obtain k2 where r2: "list_remove (StateItem t) k1 = Some k2" "readied t k1 (prvAddTaskToReadyList t k2)"
    using make_ready [OF ok1 st] by (auto simp: f1)
  note f2 = list_remove_frame [OF r2(1)] list_remove_container [OF r2(1)]
  let ?k3 = "prvAddTaskToReadyList t k2"
  have wf3: "kernel_wf i ?k3" by (rule wf_readied [OF wf1 r2(2)])
  obtain y k' where k': "pend_yield_for t ?k3 = Some (y, k')" "kernel_wf i k'" "same_tasks ?k3 k'" "pxCurrentTCB k' = pxCurrentTCB ?k3"
    using wf_pend_yield [OF wf3] by blast
  have "vTaskRemoveFromUnorderedEventList t v k = Some k'"
    using sus r1 r2(1) k'(1) by (simp add: vTaskRemoveFromUnorderedEventList_def Let_def)
  moreover have "container k' = container ?k3 \<and> item_value k' = item_value ?k3 \<and> tcbs k' = tcbs ?k3 \<and>
      uxSchedulerSuspended k' = uxSchedulerSuspended ?k3 \<and> xPendedTicks k' = xPendedTicks ?k3"
    using k'(3) by (simp add: same_tasks_def)
  ultimately show ?thesis using k'(2,4)
    by (simp add: prvAddTaskToReadyList_frame f1 f2 fun_upd_twist) (simp add: set_value_def fun_eq_iff)
qed

end
