(* ===== verification/Group_Bits.thy ===== *)
theory Group_Bits
  imports Group_Kernel
begin

text \<open>
  What setting bits does: exactly the tasks whose condition the new bits meet are released, all
  with the same bits, and then the bits that they wanted cleared are cleared.
\<close>

definition wanted :: "word32 \<Rightarrow> word32" where
  "wanted v = v AND NOT eventEVENT_BITS_CONTROL_BYTES"

definition clears :: "word32 \<Rightarrow> bool" where
  "clears v \<longleftrightarrow> v AND eventEVENT_BITS_CONTROL_BYTES AND eventCLEAR_EVENTS_ON_EXIT_BIT \<noteq> 0"

definition waits_for :: "kernel \<Rightarrow> nat \<Rightarrow> tid \<Rightarrow> bool" where
  "waits_for k g t \<longleftrightarrow> container k (EventItem t) = Some (EventList g)"

abbreviation release_value :: "word32 \<Rightarrow> word32" where
  "release_value bits \<equiv> bits OR eventUNBLOCKED_DUE_TO_BIT_SET OR taskEVENT_LIST_ITEM_VALUE_IN_USE"

text \<open>The tasks of \<open>W\<close> are made ready, and their event items hold \<open>v\<close>.\<close>

definition released :: "tid set \<Rightarrow> word32 \<Rightarrow> kernel \<Rightarrow> kernel \<Rightarrow> bool" where
  "released W v k k' \<longleftrightarrow>
     (\<forall>t. container k' (EventItem t) = (if t \<in> W then None else container k (EventItem t)) \<and>
          container k' (StateItem t) = (if t \<in> W then Some (ReadyList (uxPriority (tcbs k t))) else container k (StateItem t)) \<and>
          item_value k' (EventItem t) = (if t \<in> W then v else item_value k (EventItem t))) \<and>
     tcbs k' = tcbs k \<and> pxCurrentTCB k' = pxCurrentTCB k \<and> uxSchedulerSuspended k' = uxSchedulerSuspended k \<and>
     xPendedTicks k' = xPendedTicks k"

lemma released_none: "released {} v k k"
  by (simp add: released_def)

lemma released_trans: "released {t} v k k1 \<Longrightarrow> released W v k1 k2 \<Longrightarrow> released (insert t W) v k k2"
  by (auto simp: released_def)

lemma releasedD:
  assumes "released W v k k'"
  shows "container k' (EventItem t) = (if t \<in> W then None else container k (EventItem t))"
    "container k' (StateItem t) = (if t \<in> W then Some (ReadyList (uxPriority (tcbs k t))) else container k (StateItem t))"
    "item_value k' (EventItem t) = (if t \<in> W then v else item_value k (EventItem t))"
    "tcbs k' = tcbs k" "pxCurrentTCB k' = pxCurrentTCB k" "uxSchedulerSuspended k' = uxSchedulerSuspended k"
    "xPendedTicks k' = xPendedTicks k" "is_ready k t \<Longrightarrow> is_ready k' t"
  using assms by (simp_all add: released_def is_ready_def)

definition matched :: "item list \<Rightarrow> word32 \<Rightarrow> kernel \<Rightarrow> tid set" where
  "matched its bits k = {t. EventItem t \<in> set its \<and> xMatchFound (item_value k (EventItem t)) bits}"

text \<open>\<open>c\<close> holds the bits that tasks of \<open>W\<close> asked to be cleared.\<close>

definition to_clear :: "tid set \<Rightarrow> kernel \<Rightarrow> word32 \<Rightarrow> bool" where
  "to_clear W k c \<longleftrightarrow> (\<forall>j. bit c j \<longleftrightarrow> (\<exists>t \<in> W. clears (item_value k (EventItem t)) \<and> bit (wanted (item_value k (EventItem t))) j))"

lemma to_clear_insert:
  assumes "to_clear W k c"
  shows "to_clear (insert t W) k (if clears (item_value k (EventItem t)) then wanted (item_value k (EventItem t)) OR c else c)"
  using assms by (auto simp: to_clear_def bit_or_iff)

lemma to_clear_cong:
  "(\<And>t. t \<in> W \<Longrightarrow> item_value k' (EventItem t) = item_value k (EventItem t)) \<Longrightarrow> to_clear W k' c = to_clear W k c"
  by (simp add: to_clear_def cong: bex_cong)

lemma set_bits_loop_ok:
  assumes "kernel_wf i (gkern s)" "uxSchedulerSuspended (gkern s) \<noteq> 0" "distinct its"
    "\<forall>it \<in> set its. \<exists>t. it = EventItem t \<and> waits_for (gkern s) g t"
  shows "\<exists>c k'. (\<forall>a. set_bits_loop g its a s = Some (a OR c, s\<lparr>gkern := k'\<rparr>)) \<and> kernel_wf i k' \<and>
    released (matched its (uxEventBits s g) (gkern s))
      (release_value (uxEventBits s g)) (gkern s) k' \<and>
    to_clear (matched its (uxEventBits s g) (gkern s)) (gkern s) c"
  using assms
proof (induction its arbitrary: s)
  case Nil
  have "matched [] (uxEventBits s g) (gkern s) = {}" by (simp add: matched_def)
  then show ?case using Nil released_none
    by (intro exI [of _ 0] exI [of _ "gkern s"]) (simp add: to_clear_def)
next
  case (Cons it its)
  let ?k = "gkern s" and ?b = "uxEventBits s g"
  let ?v = "release_value ?b"
  obtain t where t: "it = EventItem t" "container ?k (EventItem t) = Some (EventList g)"
    using Cons.prems(4) by (auto simp: waits_for_def)
  show ?case
  proof (cases "xMatchFound (item_value ?k it) ?b")
    case False
    then have "matched (it # its) ?b ?k = matched its ?b ?k" by (auto simp: matched_def t(1))
    then show ?thesis using Cons.IH [of s] Cons.prems False by simp
  next
    case True
    obtain k1 where k1: "vTaskRemoveFromUnorderedEventList t (?b OR eventUNBLOCKED_DUE_TO_BIT_SET) ?k = Some k1" "kernel_wf i k1"
      "container k1 = (container ?k)(EventItem t := None, StateItem t := Some (ReadyList (uxPriority (tcbs ?k t))))"
      "item_value k1 = (item_value ?k)(EventItem t := ?v)" "tcbs k1 = tcbs ?k" "pxCurrentTCB k1 = pxCurrentTCB ?k"
      "uxSchedulerSuspended k1 = uxSchedulerSuspended ?k" "xPendedTicks k1 = xPendedTicks ?k"
      using remove_unordered [OF Cons.prems(1,2) t(2), of "?b OR eventUNBLOCKED_DUE_TO_BIT_SET"] by (auto simp: or.assoc)
    have rel: "released {t} ?v ?k k1" using k1(3-8) by (simp add: released_def)
    have nt: "EventItem t \<notin> set its" using Cons.prems(3) t(1) by simp
    let ?s = "s\<lparr>gkern := k1\<rparr>"
    have iv: "item_value k1 (EventItem u) = item_value ?k (EventItem u)" if "EventItem u \<in> set its" for u
      using that nt by (auto simp: k1(4))
    have W: "matched its ?b k1 = matched its ?b ?k" using iv by (auto simp: matched_def)
    have "\<forall>it \<in> set its. \<exists>u. it = EventItem u \<and> waits_for (gkern ?s) g u"
    proof
      fix it' assume "it' \<in> set its"
      then obtain u where u: "it' = EventItem u" "waits_for ?k g u" "u \<noteq> t" using Cons.prems(4) nt by auto
      then show "\<exists>u. it' = EventItem u \<and> waits_for (gkern ?s) g u" by (simp add: waits_for_def k1(3))
    qed
    then obtain c k' where k': "\<forall>a. set_bits_loop g its a ?s = Some (a OR c, s\<lparr>gkern := k'\<rparr>)" "kernel_wf i k'"
      "released (matched its ?b ?k) ?v k1 k'" "to_clear (matched its ?b ?k) k1 c"
      using Cons.IH [of ?s] Cons.prems(2,3) k1(2,7) by (auto simp: W)
    have M: "matched (it # its) ?b ?k = insert t (matched its ?b ?k)" using True by (auto simp: matched_def t(1))
    let ?c = "if clears (item_value ?k (EventItem t)) then wanted (item_value ?k (EventItem t)) OR c else c"
    have "to_clear (matched its ?b ?k) ?k c" using k'(4) to_clear_cong [of "matched its ?b ?k" k1 ?k c] iv
      by (simp add: matched_def)
    then have "to_clear (insert t (matched its ?b ?k)) ?k ?c" by (rule to_clear_insert)
    moreover have "set_bits_loop g (it # its) a s = Some (a OR ?c, s\<lparr>gkern := k'\<rparr>)" for a
      using True k1(1) k'(1) by (simp add: t(1) clears_def wanted_def or.assoc)
    ultimately show ?thesis using k'(2) released_trans [OF rel k'(3)] unfolding M
      by (intro exI [of _ ?c] exI [of _ k']) simp
  qed
qed

text \<open>The tasks that setting \<open>b\<close> releases, and the bits of the group after it.\<close>

definition woken_by :: "nat \<Rightarrow> word32 \<Rightarrow> groups \<Rightarrow> tid set" where
  "woken_by g b s = {t. waits_for (gkern s) g t \<and> xMatchFound (item_value (gkern s) (EventItem t)) (uxEventBits s g OR b)}"

definition bits_after :: "nat \<Rightarrow> word32 \<Rightarrow> groups \<Rightarrow> word32 \<Rightarrow> bool" where
  "bits_after g b s r \<longleftrightarrow> (\<forall>j. bit r j \<longleftrightarrow> bit (uxEventBits s g OR b) j \<and>
     \<not> (\<exists>t \<in> woken_by g b s. clears (item_value (gkern s) (EventItem t)) \<and> bit (wanted (item_value (gkern s) (EventItem t))) j))"

lemma event_list_items:
  assumes wf: "kernel_wf i k"
  shows "distinct (kitems (klists k (EventList g)))"
    "set (kitems (klists k (EventList g))) = EventItem ` {t. waits_for k g t}"
proof -
  have core: "core_ok k" using wf by (simp add: kernel_wf_def sched_ok_def)
  show "distinct (kitems (klists k (EventList g)))"
    using lists_okD(1) [OF core_okD(1) [OF core]] by (simp add: kl_wf_def)
  show "set (kitems (klists k (EventList g))) = EventItem ` {t. waits_for k g t}"
    using lists_okD(2) [OF core_okD(1) [OF core], of _ "EventList g"] core_ok_event_items [OF core, of "EventList g"]
    by (auto simp: waits_for_def image_iff)
qed

lemma set_bits_core:
  assumes wf: "kernel_wf i (gkern s)" and b: "b AND eventEVENT_BITS_CONTROL_BYTES = 0"
    and sus: "uxSchedulerSuspended (gkern s) + 1 \<noteq> 0"
  shows "\<exists>k1 r. xEventGroupSetBits g b s =
      map_option (\<lambda>(y, k). (r, s\<lparr>gkern := k, uxEventBits := (uxEventBits s)(g := r)\<rparr>)) (xTaskResumeAll k1) \<and>
    kernel_wf i k1 \<and> bits_after g b s r \<and>
    released (woken_by g b s) (release_value (uxEventBits s g OR b))
      (vTaskSuspendAll (gkern s)) k1"
proof -
  let ?k = "vTaskSuspendAll (gkern s)" and ?n = "uxEventBits s g OR b"
  let ?s = "upd_bits g (\<lambda>bits. bits OR b) (s\<lparr>gkern := ?k\<rparr>)"
  let ?its = "kitems (klists ?k (EventList g))"
  have wf': "kernel_wf i (gkern ?s)" using wf_suspend_all [OF wf] by (simp add: upd_bits_def)
  have its: "distinct ?its" "\<forall>it \<in> set ?its. \<exists>t. it = EventItem t \<and> waits_for (gkern ?s) g t"
    using event_list_items [OF wf', of g] by (auto simp: upd_bits_def)
  have W: "matched ?its (uxEventBits ?s g) (gkern ?s) = woken_by g b s"
    using event_list_items(2) [OF wf, of g] by (auto simp: matched_def woken_by_def upd_bits_def suspend_frame)
  obtain c k1 where l: "set_bits_loop g ?its 0 ?s = Some (c, ?s\<lparr>gkern := k1\<rparr>)" "kernel_wf i k1"
    "released (woken_by g b s) (release_value ?n) ?k k1"
    "to_clear (woken_by g b s) ?k c"
    using set_bits_loop_ok [OF wf' _ its, unfolded W] sus by (auto simp: upd_bits_def suspend_frame)
  let ?r = "?n AND NOT c"
  have cl: "bit c j \<longleftrightarrow> (\<exists>t \<in> woken_by g b s. clears (item_value (gkern s) (EventItem t)) \<and>
      bit (wanted (item_value (gkern s) (EventItem t))) j)" for j
    using l(4) by (simp add: to_clear_def suspend_frame)
  have "bits_after g b s ?r"
    unfolding bits_after_def
  proof
    fix j
    show "bit ?r j \<longleftrightarrow> bit ?n j \<and> \<not> (\<exists>t \<in> woken_by g b s. clears (item_value (gkern s) (EventItem t)) \<and>
        bit (wanted (item_value (gkern s) (EventItem t))) j)"
      using cl [of j] by (auto simp: bit_and_iff bit_not_iff_eq dest: bit_imp_le_length)
  qed
  moreover have "xEventGroupSetBits g b s =
      map_option (\<lambda>(y, k). (?r, s\<lparr>gkern := k, uxEventBits := (uxEventBits s)(g := ?r)\<rparr>)) (xTaskResumeAll k1)"
    using b l(1) by (cases "xTaskResumeAll k1") (auto simp: xEventGroupSetBits_def Let_def upd_bits_def)
  ultimately show ?thesis using l(2,3) by blast
qed

end
