(* ===== verification/Group_System.thy ===== *)
theory Group_System
  imports Group_Bits System_Start
begin

text \<open>
  A system of tasks that wait for event bits. As with queues, every task has at most one call in
  progress, which the running task advances step by step, and other tasks and ticks come between
  the steps. A call that returns produces an outcome.
\<close>

section \<open>The system\<close>

text \<open>What a task waits for: the group, whether it sets bits first, the bits, and the options.\<close>

datatype group_call = Wait_Bits nat word32 bool bool | Sync_Bits nat word32 word32

fun call_group :: "group_call \<Rightarrow> nat" where
  "call_group (Wait_Bits g w cl al) = g"
| "call_group (Sync_Bits g b w) = g"

fun awaited :: "group_call \<Rightarrow> word32" where
  "awaited (Wait_Bits g w cl al) = w"
| "awaited (Sync_Bits g b w) = w"

fun wants_clear :: "group_call \<Rightarrow> bool" where
  "wants_clear (Wait_Bits g w cl al) \<longleftrightarrow> cl"
| "wants_clear (Sync_Bits g b w) \<longleftrightarrow> True"

fun wants_all :: "group_call \<Rightarrow> bool" where
  "wants_all (Wait_Bits g w cl al) \<longleftrightarrow> al"
| "wants_all (Sync_Bits g b w) \<longleftrightarrow> True"

fun group_call_step :: "group_call \<Rightarrow> word32 \<Rightarrow> group_phase \<Rightarrow> groups \<Rightarrow> (group_progress \<times> groups) option" where
  "group_call_step (Wait_Bits g w cl al) ticks = xEventGroupWaitBits g w cl al ticks"
| "group_call_step (Sync_Bits g b w) ticks = xEventGroupSync g b w ticks"

record gconf =
  gsys :: groups
  gcalls :: "tid \<Rightarrow> (group_call \<times> word32 \<times> group_phase) option"

datatype group_event =
    Begin_Call group_call word32 | Step_Call | Set_Bits nat word32 | Clear_Bits nat word32
  | Group_Tick | Group_Reschedule | Group_Sleep word32

text \<open>The caller, its call, the bits that were returned, and whether the time was up.\<close>

type_synonym group_outcome = "tid \<times> group_call \<times> word32 \<times> bool"

definition on_gkern :: "(kernel \<Rightarrow> kernel option) \<Rightarrow> gconf \<Rightarrow> gconf option" where
  "on_gkern f c = map_option (\<lambda>k. c\<lparr>gsys := (gsys c)\<lparr>gkern := k\<rparr>\<rparr>) (f (gkern (gsys c)))"

fun group_step :: "group_event \<Rightarrow> gconf \<Rightarrow> (group_outcome option \<times> gconf) option" where
  "group_step (Begin_Call call ticks) c = do {
     t \<leftarrow> pxCurrentTCB (gkern (gsys c));
     Some (None, c\<lparr>gcalls := (gcalls c)(t \<mapsto> (call, ticks, Group_Enter))\<rparr>) }"
| "group_step Step_Call c = do {
     t \<leftarrow> pxCurrentTCB (gkern (gsys c));
     (call, ticks, ph) \<leftarrow> gcalls c t;
     (r, s) \<leftarrow> group_call_step call ticks ph (gsys c);
     Some (case r of
         Group_Return v timeout \<Rightarrow> (Some (t, call, v, timeout), c\<lparr>gsys := s, gcalls := (gcalls c)(t := None)\<rparr>)
       | Group_Continue ph \<Rightarrow> (None, c\<lparr>gsys := s, gcalls := (gcalls c)(t \<mapsto> (call, ticks, ph))\<rparr>)) }"
| "group_step (Set_Bits g b) c = map_option (\<lambda>(_, s). (None, c\<lparr>gsys := s\<rparr>)) (xEventGroupSetBits g b (gsys c))"
| "group_step (Clear_Bits g b) c = map_option (\<lambda>(_, s). (None, c\<lparr>gsys := s\<rparr>)) (xEventGroupClearBits g b (gsys c))"
| "group_step Group_Tick c =
     map_option (Pair None) (on_gkern (\<lambda>k. do {
       (required, k) \<leftarrow> xTaskIncrementTick k;
       if required then vTaskSwitchContext k else Some k }) c)"
| "group_step Group_Reschedule c = map_option (Pair None) (on_gkern portYIELD_WITHIN_API c)"
| "group_step (Group_Sleep n) c = map_option (Pair None) (on_gkern (vTaskDelay n) c)"

primrec group_run :: "group_event list \<Rightarrow> gconf \<Rightarrow> (group_outcome list \<times> gconf) option" where
  "group_run [] c = Some ([], c)"
| "group_run (e # es) c = do {
     (out, c) \<leftarrow> group_step e c;
     (outs, c) \<leftarrow> group_run es c;
     Some (case out of None \<Rightarrow> outs | Some x \<Rightarrow> x # outs, c) }"

text \<open>
  What the API allows: at least one bit is waited for, no control bits are used, there are \<open>n\<close>
  groups, and the idle task \<open>i\<close> does not wait.
\<close>

definition plain :: "word32 \<Rightarrow> bool" where
  "plain b \<longleftrightarrow> b AND eventEVENT_BITS_CONTROL_BYTES = 0"

fun group_call_ok :: "nat \<Rightarrow> group_call \<Rightarrow> bool" where
  "group_call_ok n (Wait_Bits g w cl al) \<longleftrightarrow> g < n \<and> plain w \<and> w \<noteq> 0"
| "group_call_ok n (Sync_Bits g b w) \<longleftrightarrow> g < n \<and> plain b \<and> plain w \<and> w \<noteq> 0"

fun group_permitted :: "tid \<Rightarrow> nat \<Rightarrow> group_event \<Rightarrow> gconf \<Rightarrow> bool" where
  "group_permitted i n (Begin_Call call ticks) c \<longleftrightarrow> (case pxCurrentTCB (gkern (gsys c)) of None \<Rightarrow> False
     | Some t \<Rightarrow> gcalls c t = None \<and> (t = i \<longrightarrow> ticks = 0) \<and> group_call_ok n call)"
| "group_permitted i n Step_Call c \<longleftrightarrow>
     (case pxCurrentTCB (gkern (gsys c)) of None \<Rightarrow> False | Some t \<Rightarrow> gcalls c t \<noteq> None)"
| "group_permitted i n (Set_Bits g b) c \<longleftrightarrow> g < n \<and> plain b \<and>
     (case pxCurrentTCB (gkern (gsys c)) of None \<Rightarrow> False | Some t \<Rightarrow> gcalls c t = None)"
| "group_permitted i n (Clear_Bits g b) c \<longleftrightarrow> g < n \<and> plain b \<and>
     (case pxCurrentTCB (gkern (gsys c)) of None \<Rightarrow> False | Some t \<Rightarrow> gcalls c t = None)"
| "group_permitted i n Group_Tick c \<longleftrightarrow> True"
| "group_permitted i n Group_Reschedule c \<longleftrightarrow>
     (case pxCurrentTCB (gkern (gsys c)) of None \<Rightarrow> False | Some t \<Rightarrow> gcalls c t = None)"
| "group_permitted i n (Group_Sleep d) c \<longleftrightarrow>
     (case pxCurrentTCB (gkern (gsys c)) of None \<Rightarrow> False | Some t \<Rightarrow> gcalls c t = None \<and> t \<noteq> i)"

fun group_all_permitted :: "tid \<Rightarrow> nat \<Rightarrow> group_event list \<Rightarrow> gconf \<Rightarrow> bool" where
  "group_all_permitted i n [] c \<longleftrightarrow> True"
| "group_all_permitted i n (e # es) c \<longleftrightarrow> group_permitted i n e c \<and>
     (case group_step e c of None \<Rightarrow> True | Some (out, c') \<Rightarrow> group_all_permitted i n es c')"

text \<open>The condition of a call, and the value its event item has while it waits.\<close>

definition met :: "group_call \<Rightarrow> word32 \<Rightarrow> bool" where
  "met call bits \<longleftrightarrow> prvTestWaitCondition bits (awaited call) (wants_all call)"

definition wait_word :: "group_call \<Rightarrow> word32" where
  "wait_word call = awaited call OR (if wants_clear call then eventCLEAR_EVENTS_ON_EXIT_BIT else 0) OR
     (if wants_all call then eventWAIT_FOR_ALL_BITS else 0) OR taskEVENT_LIST_ITEM_VALUE_IN_USE"

section \<open>Bits and conditions\<close>

lemma same_bits: "(x :: word32) = y \<longleftrightarrow> (\<forall>j. bit x j \<longleftrightarrow> bit y j)"
  by (auto intro: bit_eqI)

lemma no_bits: "(x :: word32) = 0 \<longleftrightarrow> (\<forall>j. \<not> bit x j)"
  unfolding same_bits by simp

lemma plain_bits: "plain b \<longleftrightarrow> (\<forall>j. bit b j \<longrightarrow> \<not> bit eventEVENT_BITS_CONTROL_BYTES j)"
  unfolding plain_def no_bits bit_and_iff by blast

lemma bit_clear: "bit (a AND NOT (x :: word32)) j \<longleftrightarrow> bit a j \<and> \<not> bit x j"
  by (auto simp: bit_and_iff bit_not_iff_eq dest: bit_imp_le_length)

lemma plain_not: "plain b \<Longrightarrow> b AND NOT eventEVENT_BITS_CONTROL_BYTES = b"
  unfolding plain_bits same_bits bit_clear by blast

lemma plain_part:
  assumes p: "plain b" and c: "c AND eventEVENT_BITS_CONTROL_BYTES = c" shows "b AND c = 0"
proof -
  have "\<not> bit c j" if "bit b j" for j
    using p that c unfolding plain_bits by (metis bit_and_iff)
  then show ?thesis unfolding no_bits bit_and_iff by blast
qed

lemma plain_call: "group_call_ok n call \<Longrightarrow> plain (awaited call)" "group_call_ok n call \<Longrightarrow> awaited call \<noteq> 0"
  "group_call_ok n call \<Longrightarrow> call_group call < n"
  by (cases call; simp)+

lemma wait_word_facts:
  assumes "plain (awaited call)"
  shows "xMatchFound (wait_word call) bits \<longleftrightarrow> met call bits" "wanted (wait_word call) = awaited call"
    "clears (wait_word call) \<longleftrightarrow> wants_clear call" "wait_word call AND eventUNBLOCKED_DUE_TO_BIT_SET = 0"
proof -
  have a: "awaited call AND eventEVENT_BITS_CONTROL_BYTES = 0" using assms by (simp add: plain_def)
  have n: "awaited call AND NOT eventEVENT_BITS_CONTROL_BYTES = awaited call" by (rule plain_not [OF assms])
  show w: "wanted (wait_word call) = awaited call"
    unfolding wanted_def wait_word_def bit.conj_disj_distrib2 n by simp
  have c: "wait_word call AND eventEVENT_BITS_CONTROL_BYTES = (if wants_clear call then eventCLEAR_EVENTS_ON_EXIT_BIT else 0) OR
     (if wants_all call then eventWAIT_FOR_ALL_BITS else 0) OR taskEVENT_LIST_ITEM_VALUE_IN_USE"
    unfolding wait_word_def bit.conj_disj_distrib2 a by simp
  show "xMatchFound (wait_word call) bits \<longleftrightarrow> met call bits"
    unfolding xMatchFound_def met_def prvTestWaitCondition_def Let_def c wanted_def [symmetric] w
    by (simp add: and.commute)
  show "clears (wait_word call) \<longleftrightarrow> wants_clear call"
    unfolding clears_def and.assoc [symmetric] c by simp
  show "wait_word call AND eventUNBLOCKED_DUE_TO_BIT_SET = 0"
    unfolding wait_word_def bit.conj_disj_distrib2 plain_part [OF assms, of eventUNBLOCKED_DUE_TO_BIT_SET, simplified] by simp
qed

text \<open>A condition is monotone in the bits.\<close>

definition within :: "word32 \<Rightarrow> word32 \<Rightarrow> bool" where
  "within a b \<longleftrightarrow> (\<forall>j. bit a j \<longrightarrow> bit b j)"

lemma met_bits: "met call b \<longleftrightarrow> (if wants_all call then \<forall>j. bit (awaited call) j \<longrightarrow> bit b j
    else \<exists>j. bit (awaited call) j \<and> bit b j)"
  unfolding met_def prvTestWaitCondition_def no_bits same_bits bit_and_iff by auto

lemma met_mono: "within a b \<Longrightarrow> met call a \<Longrightarrow> met call b"
  unfolding within_def met_bits by (auto split: if_splits)

lemma within_clear [simp]: "within (a AND NOT x) a"
  by (simp add: within_def bit_clear)

lemma plain_or: "plain a \<Longrightarrow> plain b \<Longrightarrow> plain (a OR b)"
  by (auto simp: plain_bits bit_or_iff)

lemma plain_within: "within a b \<Longrightarrow> plain b \<Longrightarrow> plain a"
  unfolding within_def plain_bits by blast

lemma plain_masked [simp]: "plain (x AND NOT eventEVENT_BITS_CONTROL_BYTES)"
  unfolding plain_bits bit_clear by blast

lemma release_value_facts:
  assumes "plain b"
  shows "wanted (release_value b) = b" "release_value b AND eventUNBLOCKED_DUE_TO_BIT_SET \<noteq> 0"
proof -
  have n: "b AND NOT eventEVENT_BITS_CONTROL_BYTES = b" by (rule plain_not [OF assms])
  show "wanted (release_value b) = b" unfolding wanted_def bit.conj_disj_distrib2 n by simp
  show "release_value b AND eventUNBLOCKED_DUE_TO_BIT_SET \<noteq> 0"
    unfolding bit.conj_disj_distrib2 plain_part [OF assms, of eventUNBLOCKED_DUE_TO_BIT_SET, simplified] by simp
qed

end
