(* ===== verification/Group_System_Inv.thy ===== *)
theory Group_System_Inv
  imports Group_System
begin

text \<open>
  The invariant of a system of tasks that wait for event bits, and its preservation by every step:
  a task is in the list of a group only while its condition is not met.
\<close>

section \<open>The waiting tasks\<close>

abbreviation mid_wait :: "group_phase \<Rightarrow> bool" where
  "mid_wait ph \<equiv> ph = Group_Yield \<or> ph = Group_Collect"

text \<open>The value that a task finds in its event item: its condition was met, or it timed out.\<close>

definition honest :: "group_call \<Rightarrow> word32 \<Rightarrow> bool" where
  "honest call v \<longleftrightarrow> v AND eventUNBLOCKED_DUE_TO_BIT_SET = 0 \<or> met call (wanted v)"

definition wait_inv :: "nat \<Rightarrow> (tid \<Rightarrow> (group_call \<times> word32 \<times> group_phase) option) \<Rightarrow> kernel \<Rightarrow> (nat \<Rightarrow> word32) \<Rightarrow> bool" where
  "wait_inv n C k B \<longleftrightarrow> (\<forall>g < n. plain (B g)) \<and>
     (\<forall>t call ticks ph. C t = Some (call, ticks, ph) \<longrightarrow> group_call_ok n call) \<and>
     (\<forall>t g. waits_for k g t \<longrightarrow> (\<exists>call ticks ph. C t = Some (call, ticks, ph) \<and> mid_wait ph \<and> g = call_group call \<and>
        item_value k (EventItem t) = wait_word call \<and> \<not> met call (B g))) \<and>
     (\<forall>t call ticks ph. C t = Some (call, ticks, ph) \<and> mid_wait ph \<and> (\<forall>g. \<not> waits_for k g t) \<longrightarrow>
        honest call (item_value k (EventItem t)))"

lemma wait_invD:
  assumes "wait_inv n C k B"
  shows "g < n \<Longrightarrow> plain (B g)" "C t = Some (call, ticks, ph) \<Longrightarrow> group_call_ok n call"
    "waits_for k g t \<Longrightarrow> \<exists>call ticks ph. C t = Some (call, ticks, ph) \<and> mid_wait ph \<and> g = call_group call \<and>
        item_value k (EventItem t) = wait_word call \<and> \<not> met call (B g)"
    "C t = Some (call, ticks, ph) \<Longrightarrow> mid_wait ph \<Longrightarrow> \<forall>g. \<not> waits_for k g t \<Longrightarrow> honest call (item_value k (EventItem t))"
  using assms unfolding wait_inv_def by blast+

lemma waiting_call:
  assumes "wait_inv n C k B" "waits_for k g t" "C t = Some (call, ticks, ph)"
  shows "mid_wait ph" "g = call_group call" "item_value k (EventItem t) = wait_word call" "\<not> met call (B g)"
  using wait_invD(3) [OF assms(1,2)] assms(3) by auto

lemma wait_word_honest: "group_call_ok n call \<Longrightarrow> honest call (wait_word call)"
  using wait_word_facts(4) [OF plain_call(1)] by (simp add: honest_def)

lemma wait_inv_events:
  assumes w: "wait_inv n C k B" and e: "events_kept k k'" shows "wait_inv n C k' B"
  unfolding wait_inv_def
proof (intro conjI allI impI)
  note ek = events_keptD [OF e]
  have listed: "waits_for k g t" if "waits_for k' g t" for g t using that ek(2) by (simp add: waits_for_def)
  show "plain (B g)" if "g < n" for g using wait_invD(1) [OF w that] .
  show "group_call_ok n call" if "C t = Some (call, ticks, ph)" for t call ticks ph using wait_invD(2) [OF w that] .
  show "\<exists>call ticks ph. C t = Some (call, ticks, ph) \<and> mid_wait ph \<and> g = call_group call \<and>
        item_value k' (EventItem t) = wait_word call \<and> \<not> met call (B g)" if "waits_for k' g t" for t g
    using wait_invD(3) [OF w listed [OF that]] by (simp add: ek(1))
  fix t call ticks ph assume c: "C t = Some (call, ticks, ph) \<and> mid_wait ph \<and> (\<forall>g. \<not> waits_for k' g t)"
  show "honest call (item_value k' (EventItem t))"
  proof (cases "\<exists>g. waits_for k g t")
    case True
    then have "item_value k (EventItem t) = wait_word call" using waiting_call(3) [OF w] c by blast
    then show ?thesis using wait_word_honest [OF wait_invD(2) [OF w, of t call ticks ph]] c by (simp add: ek(1))
  next
    case False
    then show ?thesis using wait_invD(4) [OF w, of t call ticks ph] c by (simp add: ek(1))
  qed
qed

lemma wait_inv_fewer_bits:
  assumes w: "wait_inv n C k B" and s: "\<And>g. within (B' g) (B g)" shows "wait_inv n C k B'"
  unfolding wait_inv_def
proof (intro conjI allI impI)
  show "plain (B' g)" if "g < n" for g by (rule plain_within [OF s wait_invD(1) [OF w that]])
  show "group_call_ok n call" if "C t = Some (call, ticks, ph)" for t call ticks ph using wait_invD(2) [OF w that] .
  show "\<exists>call ticks ph. C t = Some (call, ticks, ph) \<and> mid_wait ph \<and> g = call_group call \<and>
        item_value k (EventItem t) = wait_word call \<and> \<not> met call (B' g)" if "waits_for k g t" for t g
    using wait_invD(3) [OF w that] met_mono [OF s] by blast
  show "honest call (item_value k (EventItem t))"
    if "C t = Some (call, ticks, ph) \<and> mid_wait ph \<and> (\<forall>g. \<not> waits_for k g t)" for t call ticks ph
    using wait_invD(4) [OF w] that by blast
qed

text \<open>Setting bits: the tasks whose condition is met are released, and find the bits that met it.\<close>

lemma wait_inv_set:
  assumes w: "wait_inv n C (gkern s) (uxEventBits s)" and g: "g < n" and b: "plain b"
    and r: "bits_after g b s r" and k1: "released (woken_by g b s) (release_value (uxEventBits s g OR b)) (vTaskSuspendAll (gkern s)) k1"
  shows "wait_inv n C k1 ((uxEventBits s)(g := r))"
  unfolding wait_inv_def
proof (intro conjI allI impI)
  let ?k = "gkern s" and ?b = "uxEventBits s g OR b" and ?B = "(uxEventBits s)(g := r)"
  have pb: "plain ?b" by (rule plain_or [OF wait_invD(1) [OF w g] b])
  have rb: "within r ?b" using r by (auto simp: within_def bits_after_def)
  have pr: "plain r" by (rule plain_within [OF rb pb])
  note rel = releasedD [OF k1, unfolded suspend_frame]
  have matched: "met call ?b \<longleftrightarrow> t \<in> woken_by g b s"
    if "waits_for ?k g t" "item_value ?k (EventItem t) = wait_word call" "group_call_ok n call" for t call
    using that wait_word_facts(1) [OF plain_call(1) [OF that(3)]] by (simp add: woken_by_def)
  show "plain (?B h)" if "h < n" for h using pr wait_invD(1) [OF w that] by simp
  show "group_call_ok n call" if "C t = Some (call, ticks, ph)" for t call ticks ph using wait_invD(2) [OF w that] .
  show "\<exists>call ticks ph. C t = Some (call, ticks, ph) \<and> mid_wait ph \<and> h = call_group call \<and>
        item_value k1 (EventItem t) = wait_word call \<and> \<not> met call (?B h)" if h: "waits_for k1 h t" for t h
  proof -
    have nw: "t \<notin> woken_by g b s" and h': "waits_for ?k h t" using h rel(1) [of t] by (auto simp: waits_for_def split: if_splits)
    obtain call ticks ph where c: "C t = Some (call, ticks, ph)" "mid_wait ph" "h = call_group call"
      "item_value ?k (EventItem t) = wait_word call" "\<not> met call (uxEventBits s h)" using wait_invD(3) [OF w h'] by blast
    have "\<not> met call (?B h)"
    proof (cases "h = g")
      case True
      then have "\<not> met call ?b" using matched [OF _ c(4) wait_invD(2) [OF w c(1)]] h' nw by simp
      then show ?thesis using True met_mono [OF rb] by auto
    next
      case False then show ?thesis using c(5) by simp
    qed
    then show ?thesis using c(1-4) nw rel(3) by auto
  qed
  fix t call ticks ph assume c: "C t = Some (call, ticks, ph) \<and> mid_wait ph \<and> (\<forall>h. \<not> waits_for k1 h t)"
  show "honest call (item_value k1 (EventItem t))"
  proof (cases "t \<in> woken_by g b s")
    case True
    then have g: "waits_for ?k g t" by (simp add: woken_by_def)
    then have iv: "item_value ?k (EventItem t) = wait_word call" using waiting_call(3) [OF w g] c by blast
    have "met call ?b" using matched [OF g iv wait_invD(2) [OF w]] c True by blast
    then show ?thesis using True rel(3) release_value_facts(1) [OF pb] by (simp add: honest_def)
  next
    case False
    then have "\<forall>h. \<not> waits_for ?k h t" using c rel(1) [of t] by (auto simp: waits_for_def split: if_splits)
    then show ?thesis using wait_invD(4) [OF w] c False rel(3) by auto
  qed
qed

text \<open>A call that does not wait starts, goes on or ends; a call that waits moves on.\<close>

lemma wait_inv_call:
  assumes w: "wait_inv n C k B" and t: "\<forall>g. \<not> waits_for k g t"
    and new: "\<And>call ticks ph. new = Some (call, ticks, ph) \<Longrightarrow> group_call_ok n call \<and> \<not> mid_wait ph"
  shows "wait_inv n (C(t := new)) k B"
  unfolding wait_inv_def
proof (intro conjI allI impI)
  show "plain (B g)" if "g < n" for g using wait_invD(1) [OF w that] .
  show "group_call_ok n call" if "(C(t := new)) u = Some (call, ticks, ph)" for u call ticks ph
    using that new wait_invD(2) [OF w, of u] by (auto split: if_splits)
  show "\<exists>call ticks ph. (C(t := new)) u = Some (call, ticks, ph) \<and> mid_wait ph \<and> g = call_group call \<and>
        item_value k (EventItem u) = wait_word call \<and> \<not> met call (B g)" if "waits_for k g u" for u g
    using wait_invD(3) [OF w that] t that by auto
  show "honest call (item_value k (EventItem u))"
    if "(C(t := new)) u = Some (call, ticks, ph) \<and> mid_wait ph \<and> (\<forall>g. \<not> waits_for k g u)" for u call ticks ph
    using wait_invD(4) [OF w, of u call ticks ph] new that by (auto split: if_splits)
qed

lemma wait_inv_move:
  assumes w: "wait_inv n C k B" and t: "C t = Some (call, ticks, ph)" "mid_wait ph" and new: "mid_wait ph'"
  shows "wait_inv n (C(t \<mapsto> (call, ticks, ph'))) k B"
  unfolding wait_inv_def
proof (intro conjI allI impI)
  show "plain (B g)" if "g < n" for g using wait_invD(1) [OF w that] .
  show "group_call_ok n c" if "(C(t \<mapsto> (call, ticks, ph'))) u = Some (c, d, p)" for u c d p
    using that t wait_invD(2) [OF w, of u] by (auto split: if_splits)
  show "\<exists>c d p. (C(t \<mapsto> (call, ticks, ph'))) u = Some (c, d, p) \<and> mid_wait p \<and> g = call_group c \<and>
        item_value k (EventItem u) = wait_word c \<and> \<not> met c (B g)" if "waits_for k g u" for u g
    using wait_invD(3) [OF w that] t new by auto
  show "honest c (item_value k (EventItem u))"
    if "(C(t \<mapsto> (call, ticks, ph'))) u = Some (c, d, p) \<and> mid_wait p \<and> (\<forall>g. \<not> waits_for k g u)" for u c d p
    using wait_invD(4) [OF w t] wait_invD(4) [OF w, of u c d p] that by (auto split: if_splits)
qed

text \<open>Another kernel state that agrees on the event items of the tasks that have a call.\<close>

lemma wait_inv_cong:
  assumes w: "wait_inv n C k B" and c: "container k' = container k"
    and v: "\<And>t call ticks ph. C t = Some (call, ticks, ph) \<Longrightarrow> mid_wait ph \<Longrightarrow> item_value k' (EventItem t) = item_value k (EventItem t)"
  shows "wait_inv n C k' B"
proof -
  have [simp]: "waits_for k' = waits_for k" by (simp add: waits_for_def c fun_eq_iff)
  show ?thesis unfolding wait_inv_def
  proof (intro conjI allI impI)
    show "plain (B g)" if "g < n" for g using wait_invD(1) [OF w that] .
    show "group_call_ok n call" if "C t = Some (call, ticks, ph)" for t call ticks ph using wait_invD(2) [OF w that] .
    show "\<exists>call ticks ph. C t = Some (call, ticks, ph) \<and> mid_wait ph \<and> g = call_group call \<and>
          item_value k' (EventItem t) = wait_word call \<and> \<not> met call (B g)" if "waits_for k' g t" for t g
      using wait_invD(3) [OF w, of g t] that v by auto
    show "honest call (item_value k' (EventItem t))"
      if "C t = Some (call, ticks, ph) \<and> mid_wait ph \<and> (\<forall>g. \<not> waits_for k' g t)" for t call ticks ph
      using wait_invD(4) [OF w, of t call ticks ph] that v by auto
  qed
qed

text \<open>The running task joins the list of a group.\<close>

lemma wait_inv_join:
  assumes w: "wait_inv n C k B" and call: "group_call_ok n call" "\<not> met call (B (call_group call))" "mid_wait ph"
    and k': "waits_for k' (call_group call) t" "item_value k' (EventItem t) = wait_word call"
      "\<And>u. u \<noteq> t \<Longrightarrow> container k' (EventItem u) = container k (EventItem u) \<and> item_value k' (EventItem u) = item_value k (EventItem u)"
  shows "wait_inv n (C(t \<mapsto> (call, ticks, ph))) k' B"
proof -
  have o: "waits_for k' g u \<longleftrightarrow> waits_for k g u" if "u \<noteq> t" for g u using k'(3) that by (simp add: waits_for_def)
  have h: "g = call_group call" if "waits_for k' g t" for g using k'(1) that by (simp add: waits_for_def)
  show ?thesis unfolding wait_inv_def
  proof (intro conjI allI impI)
    show "plain (B g)" if "g < n" for g using wait_invD(1) [OF w that] .
    show "group_call_ok n c" if "(C(t \<mapsto> (call, ticks, ph))) u = Some (c, d, p)" for u c d p
      using that call(1) wait_invD(2) [OF w, of u] by (auto split: if_splits)
    show "\<exists>c d p. (C(t \<mapsto> (call, ticks, ph))) u = Some (c, d, p) \<and> mid_wait p \<and> g = call_group c \<and>
          item_value k' (EventItem u) = wait_word c \<and> \<not> met c (B g)" if u: "waits_for k' g u" for u g
    proof (cases "u = t")
      case True
      then have "g = call_group call" using h u by blast
      then show ?thesis using True k'(2) call(2,3) by (simp only: fun_upd_same) blast
    next
      case False
      then show ?thesis using wait_invD(3) [OF w, of g u] u o [OF False] k'(3) [OF False] by simp
    qed
    show "honest c (item_value k' (EventItem u))"
      if "(C(t \<mapsto> (call, ticks, ph))) u = Some (c, d, p) \<and> mid_wait p \<and> (\<forall>g. \<not> waits_for k' g u)" for u c d p
    proof (cases "u = t")
      case True
      then show ?thesis using that k'(1) by blast
    next
      case False
      then show ?thesis using wait_invD(4) [OF w, of u c d p] that o [OF False] k'(3) [OF False] by simp
    qed
  qed
qed

section \<open>The invariant of the system\<close>

definition group_rel :: "tid \<Rightarrow> nat \<Rightarrow> gconf \<Rightarrow> bool" where
  "group_rel i n c \<longleftrightarrow> calm i (gkern (gsys c)) \<and> uxSchedulerSuspended (gkern (gsys c)) = 0 \<and>
     wait_inv n (gcalls c) (gkern (gsys c)) (uxEventBits (gsys c)) \<and>
     (running_ready (gkern (gsys c)) \<or>
      (\<exists>t call ticks. pxCurrentTCB (gkern (gsys c)) = Some t \<and> gcalls c t = Some (call, ticks, Group_Yield))) \<and>
     (\<forall>call ticks ph. gcalls c i = Some (call, ticks, ph) \<longrightarrow> ticks = 0 \<and> ph = Group_Enter)"

lemma group_relD:
  assumes "group_rel i n c"
  shows "calm i (gkern (gsys c))" "uxSchedulerSuspended (gkern (gsys c)) = 0" "kernel_wf i (gkern (gsys c))"
    "wait_inv n (gcalls c) (gkern (gsys c)) (uxEventBits (gsys c))"
    "pxCurrentTCB (gkern (gsys c)) = Some t \<Longrightarrow> (\<And>call ticks. gcalls c t \<noteq> Some (call, ticks, Group_Yield)) \<Longrightarrow>
      is_ready (gkern (gsys c)) t"
    "gcalls c i = Some (call, ticks, ph) \<Longrightarrow> ticks = 0 \<and> ph = Group_Enter"
  using assms by (auto simp: group_rel_def running_ready_def calm_def)

lemma running_free:
  assumes g: "group_rel i n c" and t: "pxCurrentTCB (gkern (gsys c)) = Some t"
    and y: "\<And>call ticks. gcalls c t \<noteq> Some (call, ticks, Group_Yield)"
  shows "container (gkern (gsys c)) (EventItem t) = None" "\<forall>g. \<not> waits_for (gkern (gsys c)) g t"
proof -
  show "container (gkern (gsys c)) (EventItem t) = None"
    by (rule calm_ready_free [OF group_relD(1,2) [OF g] group_relD(5) [OF g t y]])
  then show "\<forall>g. \<not> waits_for (gkern (gsys c)) g t" by (simp add: waits_for_def)
qed

text \<open>Every outcome tells the truth.\<close>

definition truthful :: "group_outcome \<Rightarrow> bool" where
  "truthful = (\<lambda>(t, call, v, timeout). plain v \<and> (\<not> timeout \<longrightarrow> met call v))"

definition group_step_ok :: "tid \<Rightarrow> nat \<Rightarrow> (group_outcome option \<times> gconf) option \<Rightarrow> bool" where
  "group_step_ok i n res \<longleftrightarrow> (\<exists>out c. res = Some (out, c) \<and> group_rel i n c \<and> (\<forall>x. out = Some x \<longrightarrow> truthful x))"

lemma group_step_okI:
  "res = Some (out, c) \<Longrightarrow> group_rel i n c \<Longrightarrow> (\<And>x. out = Some x \<Longrightarrow> truthful x) \<Longrightarrow> group_step_ok i n res"
  by (auto simp: group_step_ok_def)

end
