(* ===== verification/Group_System_Steps.thy ===== *)
theory Group_System_Steps
  imports Group_System_Inv
begin

text \<open>Every permitted step of a system of tasks that wait for event bits keeps its invariant.\<close>

section \<open>Steps of the environment\<close>

text \<open>A step that changes the kernel only, and leaves event items alone.\<close>

lemma group_rel_kernel:
  assumes g: "group_rel i n c" and k: "calm i k" "uxSchedulerSuspended k = 0" "events_kept (gkern (gsys c)) k"
    and r: "running_ready k \<or> pxCurrentTCB k = pxCurrentTCB (gkern (gsys c)) \<and> untouched (gkern (gsys c)) k"
  shows "group_rel i n (c\<lparr>gsys := (gsys c)\<lparr>gkern := k\<rparr>\<rparr>)"
proof -
  have "running_ready k \<or> (\<exists>t call ticks. pxCurrentTCB k = Some t \<and> gcalls c t = Some (call, ticks, Group_Yield))"
  proof (cases "running_ready k")
    case False
    then have k': "pxCurrentTCB k = pxCurrentTCB (gkern (gsys c))" "untouched (gkern (gsys c)) k" using r by blast+
    have "\<not> running_ready (gkern (gsys c))" using False k' steadyD(5) [OF k'(2)] by (auto simp: running_ready_def)
    then show ?thesis using g k'(1) by (simp add: group_rel_def)
  qed simp
  then show ?thesis
    using g k wait_inv_events [OF group_relD(4) [OF g] k(3)] by (simp add: group_rel_def)
qed

lemma group_tick_ok:
  assumes g: "group_rel i n c" shows "group_step_ok i n (group_step Group_Tick c)"
proof -
  obtain r k1 where k1: "xTaskIncrementTick (gkern (gsys c)) = Some (r, k1)" "calm i k1" "untouched (gkern (gsys c)) k1"
    "uxSchedulerSuspended k1 = 0" "pxCurrentTCB k1 = pxCurrentTCB (gkern (gsys c))"
    using calm_tick [OF group_relD(1,2) [OF g]] by blast
  obtain k2 where k2: "(if r then vTaskSwitchContext k1 else Some k1) = Some k2" "calm i k2" "uxSchedulerSuspended k2 = 0"
    "untouched (gkern (gsys c)) k2" "running_ready k2 \<or> pxCurrentTCB k2 = pxCurrentTCB (gkern (gsys c))"
    using calm_switch [OF k1(2,4)] k1 steady_trans [OF k1(3)] by (cases r) auto
  have "group_step Group_Tick c = Some (None, c\<lparr>gsys := (gsys c)\<lparr>gkern := k2\<rparr>\<rparr>)"
    using k1(1) k2(1) by (simp add: on_gkern_def)
  then show ?thesis
    by (rule group_step_okI) (use group_rel_kernel [OF g k2(2,3) untouched_events [OF k2(4)]] k2(4,5) in auto)
qed

lemma group_reschedule_ok:
  assumes g: "group_rel i n c" shows "group_step_ok i n (group_step Group_Reschedule c)"
proof -
  obtain k where k: "vTaskSwitchContext (gkern (gsys c)) = Some k" "calm i k" "untouched (gkern (gsys c)) k"
    "uxSchedulerSuspended k = 0" "running_ready k" using calm_switch [OF group_relD(1,2) [OF g]] by blast
  then have "group_step Group_Reschedule c = Some (None, c\<lparr>gsys := (gsys c)\<lparr>gkern := k\<rparr>\<rparr>)" by (simp add: on_gkern_def)
  then show ?thesis
    by (rule group_step_okI) (use group_rel_kernel [OF g k(2,4) untouched_events [OF k(3)]] k(5) in auto)
qed

lemma group_sleep_ok:
  assumes g: "group_rel i n c" and p: "group_permitted i n (Group_Sleep d) c"
  shows "group_step_ok i n (group_step (Group_Sleep d) c)"
proof -
  obtain t where t: "pxCurrentTCB (gkern (gsys c)) = Some t" "t \<noteq> i" using p by (auto split: option.splits)
  obtain k where k: "vTaskDelay d (gkern (gsys c)) = Some k" "calm i k" "events_kept (gkern (gsys c)) k"
    "uxSchedulerSuspended k = 0" "running_ready k" using calm_delay [OF group_relD(1,2) [OF g] t] by blast
  then have "group_step (Group_Sleep d) c = Some (None, c\<lparr>gsys := (gsys c)\<lparr>gkern := k\<rparr>\<rparr>)" by (simp add: on_gkern_def)
  then show ?thesis
    by (rule group_step_okI) (use group_rel_kernel [OF g k(2,4,3)] k(5) in auto)
qed

section \<open>Steps of the running task\<close>

lemma group_begin_ok:
  assumes g: "group_rel i n c" and p: "group_permitted i n (Begin_Call call d) c"
  shows "group_step_ok i n (group_step (Begin_Call call d) c)"
proof -
  obtain t where t: "pxCurrentTCB (gkern (gsys c)) = Some t" "gcalls c t = None" "t = i \<longrightarrow> d = 0" "group_call_ok n call"
    using p by (auto split: option.splits)
  have nw: "\<forall>h. \<not> waits_for (gkern (gsys c)) h t" using running_free(2) [OF g t(1)] t(2) by simp
  have "wait_inv n ((gcalls c)(t \<mapsto> (call, d, Group_Enter))) (gkern (gsys c)) (uxEventBits (gsys c))"
    by (rule wait_inv_call [OF group_relD(4) [OF g] nw]) (use t(4) in auto)
  moreover have "is_ready (gkern (gsys c)) t" using group_relD(5) [OF g t(1)] t(2) by simp
  ultimately have "group_rel i n (c\<lparr>gcalls := (gcalls c)(t \<mapsto> (call, d, Group_Enter))\<rparr>)"
    using g t(1,3) by (auto simp: group_rel_def running_ready_def)
  then show ?thesis by (rule group_step_okI [rotated]) (use t(1) in auto)
qed

text \<open>Setting bits when the scheduler is not suspended.\<close>

lemma group_set_ok:
  assumes g: "group_rel i n c" and p: "group_permitted i n (Set_Bits h b) c"
  shows "group_step_ok i n (group_step (Set_Bits h b) c)"
proof -
  let ?s = "gsys c" and ?k = "gkern (gsys c)"
  obtain t where t: "pxCurrentTCB ?k = Some t" "gcalls c t = None" "h < n" "plain b"
    using p by (auto split: option.splits)
  have sus: "uxSchedulerSuspended ?k = 0" by (rule group_relD(2) [OF g])
  obtain k1 r where k1: "xEventGroupSetBits h b ?s =
      map_option (\<lambda>(y, k). (r, ?s\<lparr>gkern := k, uxEventBits := (uxEventBits ?s)(h := r)\<rparr>)) (xTaskResumeAll k1)"
    "kernel_wf i k1" "bits_after h b ?s r"
    "released (woken_by h b ?s) (release_value (uxEventBits ?s h OR b)) (vTaskSuspendAll ?k) k1"
    using set_bits_core [OF group_relD(3) [OF g] _ , of b h] t(4) sus by (auto simp: plain_def)
  note rel = releasedD [OF k1(4), unfolded suspend_frame]
  have w1: "wait_inv n (gcalls c) k1 ((uxEventBits ?s)(h := r))"
    by (rule wait_inv_set [OF group_relD(4) [OF g] t(3,4) k1(3,4)])
  have ready1: "is_ready k1 t" using rel(8) group_relD(5) [OF g t(1)] t(2) by simp
  obtain y k2 where k2: "xTaskResumeAll k1 = Some (y, k2)" "calm i k2" "untouched k1 k2" "uxSchedulerSuspended k2 = 0"
    "if y then running_ready k2 else pxCurrentTCB k2 = pxCurrentTCB k1"
    using calm_resume [OF k1(2)] rel(6) sus by auto
  have "running_ready k2"
    using k2(5) rel(5) t(1) steadyD(5) [OF k2(3) ready1] by (auto simp: running_ready_def split: if_splits)
  moreover have "wait_inv n (gcalls c) k2 ((uxEventBits ?s)(h := r))"
    by (rule wait_inv_events [OF w1 untouched_events [OF k2(3)]])
  ultimately have "group_rel i n (c\<lparr>gsys := ?s\<lparr>gkern := k2, uxEventBits := (uxEventBits ?s)(h := r)\<rparr>\<rparr>)"
    using g k2(2,4) by (simp add: group_rel_def)
  then show ?thesis by (rule group_step_okI [rotated]) (simp_all add: k1(1) k2(1))
qed

lemma group_clear_ok:
  assumes g: "group_rel i n c" and p: "group_permitted i n (Clear_Bits h b) c"
  shows "group_step_ok i n (group_step (Clear_Bits h b) c)"
proof -
  let ?B = "(uxEventBits (gsys c))(h := uxEventBits (gsys c) h AND NOT b)"
  have b: "plain b" using p by simp
  have "wait_inv n (gcalls c) (gkern (gsys c)) ?B"
    by (rule wait_inv_fewer_bits [OF group_relD(4) [OF g]]) (simp add: within_def bit_clear)
  then have "group_rel i n (c\<lparr>gsys := upd_bits h (\<lambda>bits. bits AND NOT b) (gsys c)\<rparr>)"
    using g by (simp add: group_rel_def upd_bits_def)
  then show ?thesis by (rule group_step_okI [rotated]) (use b in \<open>simp_all add: xEventGroupClearBits_def plain_def\<close>)
qed

end
