(* ===== verification/Group_System_Calls.thy ===== *)
theory Group_System_Calls
  imports Group_System_Steps
begin

text \<open>Every step of a call that waits for event bits keeps the invariant.\<close>

text \<open>The running task \<open>t\<close> is inside a call, with the scheduler suspended, and waits for nothing yet.\<close>

definition in_section :: "tid \<Rightarrow> nat \<Rightarrow> gconf \<Rightarrow> tid \<Rightarrow> groups \<Rightarrow> bool" where
  "in_section i n c t s \<longleftrightarrow> kernel_wf i (gkern s) \<and> uxSchedulerSuspended (gkern s) = 1 \<and> pxCurrentTCB (gkern s) = Some t \<and>
     is_ready (gkern s) t \<and> container (gkern s) (EventItem t) = None \<and> wait_inv n (gcalls c) (gkern s) (uxEventBits s) \<and>
     (\<forall>u. gcalls c u = None \<or> u \<noteq> i \<or> u = t \<or> (\<exists>call. gcalls c u = Some (call, 0, Group_Enter)))"

lemma in_sectionD:
  assumes "in_section i n c t s"
  shows "kernel_wf i (gkern s)" "uxSchedulerSuspended (gkern s) = 1" "pxCurrentTCB (gkern s) = Some t"
    "is_ready (gkern s) t" "container (gkern s) (EventItem t) = None" "wait_inv n (gcalls c) (gkern s) (uxEventBits s)"
    "\<forall>h. \<not> waits_for (gkern s) h t" "i \<noteq> t \<Longrightarrow> gcalls c i = Some (call, ticks, ph) \<Longrightarrow> ticks = 0 \<and> ph = Group_Enter"
  using assms by (auto simp: in_section_def waits_for_def)

text \<open>What a step of the call \<open>call\<close> of task \<open>t\<close> may do.\<close>

definition call_ok :: "tid \<Rightarrow> nat \<Rightarrow> gconf \<Rightarrow> tid \<Rightarrow> group_call \<Rightarrow> word32 \<Rightarrow> (group_progress \<times> groups) option \<Rightarrow> bool" where
  "call_ok i n c t call d res \<longleftrightarrow> (\<exists>r s. res = Some (r, s) \<and>
     (case r of Group_Return v timeout \<Rightarrow> truthful (t, call, v, timeout) \<and>
          group_rel i n (c\<lparr>gsys := s, gcalls := (gcalls c)(t := None)\<rparr>)
      | Group_Continue ph \<Rightarrow> group_rel i n (c\<lparr>gsys := s, gcalls := (gcalls c)(t \<mapsto> (call, d, ph))\<rparr>)))"

lemma decided_ok:
  assumes s: "in_section i n c t s" and v: "truthful (t, call, v, timeout)"
  shows "call_ok i n c t call d (resume_and_wait (Some (v, timeout)) s)"
proof -
  note d = in_sectionD [OF s]
  obtain y k where k: "xTaskResumeAll (gkern s) = Some (y, k)" "calm i k" "untouched (gkern s) k" "uxSchedulerSuspended k = 0"
    "if y then running_ready k else pxCurrentTCB k = pxCurrentTCB (gkern s)" using calm_resume [OF d(1,2)] by blast
  have rr: "running_ready k"
    using k(5) d(3) steadyD(5) [OF k(3) d(4)] by (auto simp: running_ready_def split: if_splits)
  have w: "wait_inv n (gcalls c) k (uxEventBits s)" by (rule wait_inv_events [OF d(6) untouched_events [OF k(3)]])
  have "\<forall>h. \<not> waits_for k h t" using steadyD(6) [OF k(3) d(5)] by (simp add: waits_for_def)
  then have "wait_inv n ((gcalls c)(t := None)) k (uxEventBits s)" by (rule wait_inv_call [OF w]) simp
  then have "group_rel i n (c\<lparr>gsys := s\<lparr>gkern := k\<rparr>, gcalls := (gcalls c)(t := None)\<rparr>)"
    using k(2,4) rr d(8) by (auto simp: group_rel_def)
  then show ?thesis using k(1) v by (simp add: call_ok_def resume_and_wait_def)
qed

lemma blocked_ok:
  assumes s: "in_section i n c t s" and t: "t \<noteq> i" and dl: "d \<noteq> 0" and call: "group_call_ok n call"
    and nm: "\<not> met call (uxEventBits s (call_group call))"
    and w: "w OR taskEVENT_LIST_ITEM_VALUE_IN_USE = wait_word call"
  shows "call_ok i n c t call d (do { s \<leftarrow> block_for_bits (call_group call) w d s; resume_and_wait None s })"
proof -
  note e = in_sectionD [OF s]
  obtain k1 where k1: "vTaskPlaceOnUnorderedEventList (call_group call) w d (gkern s) = Some k1" "kernel_wf i k1"
    "uxSchedulerSuspended k1 = uxSchedulerSuspended (gkern s)" "pxCurrentTCB k1 = Some t"
    "container k1 (EventItem t) = Some (EventList (call_group call))"
    "item_value k1 (EventItem t) = w OR taskEVENT_LIST_ITEM_VALUE_IN_USE"
    "\<And>u. u \<noteq> t \<Longrightarrow> container k1 (EventItem u) = container (gkern s) (EventItem u) \<and>
       item_value k1 (EventItem u) = item_value (gkern s) (EventItem u)"
    using place_unordered [OF e(1) _ e(3) t dl e(5), of "call_group call" w] e(2) by auto
  obtain y k2 where k2: "xTaskResumeAll k1 = Some (y, k2)" "calm i k2" "untouched k1 k2" "uxSchedulerSuspended k2 = 0"
    "if y then running_ready k2 else pxCurrentTCB k2 = pxCurrentTCB k1" using calm_resume [OF k1(2)] k1(3) e(2) by auto
  let ?ph = "if y then Group_Collect else Group_Yield"
  have "wait_inv n ((gcalls c)(t \<mapsto> (call, d, ?ph))) k1 (uxEventBits s)"
    by (rule wait_inv_join [OF e(6) call nm]) (use k1 w in \<open>simp_all add: waits_for_def\<close>)
  then have "wait_inv n ((gcalls c)(t \<mapsto> (call, d, ?ph))) k2 (uxEventBits s)"
    by (rule wait_inv_events [OF _ untouched_events [OF k2(3)]])
  then have "group_rel i n (c\<lparr>gsys := s\<lparr>gkern := k2\<rparr>, gcalls := (gcalls c)(t \<mapsto> (call, d, ?ph))\<rparr>)"
    using k2(2,4,5) k1(4) t e(8) by (auto simp: group_rel_def split: if_splits)
  then show ?thesis using k1(1) k2(1) by (simp add: call_ok_def block_for_bits_def resume_and_wait_def)
qed

text \<open>Entering.\<close>

lemma enter_section:
  assumes g: "group_rel i n c" and t: "pxCurrentTCB (gkern (gsys c)) = Some t" "gcalls c t = Some (call, d, Group_Enter)"
  shows "in_section i n c t ((gsys c)\<lparr>gkern := vTaskSuspendAll (gkern (gsys c))\<rparr>)"
proof -
  have y: "gcalls c t \<noteq> Some (call', d', Group_Yield)" for call' d' using t(2) by simp
  have w: "wait_inv n (gcalls c) (vTaskSuspendAll (gkern (gsys c))) (uxEventBits (gsys c))"
    by (rule wait_inv_cong [OF group_relD(4) [OF g]]) (simp_all add: suspend_frame)
  have "gcalls c u = None \<or> u \<noteq> i \<or> u = t \<or> (\<exists>call. gcalls c u = Some (call, 0, Group_Enter))" for u
    using group_relD(6) [OF g] by (cases "gcalls c u"; cases "u = i") auto
  then show ?thesis
    using t(1) w wf_suspend_all [OF group_relD(3) [OF g]] group_relD(2) [OF g] group_relD(5) [OF g t(1) y] running_free(1) [OF g t(1) y]
    by (simp add: in_section_def suspend_frame)
qed

lemma resume_nested: "uxSchedulerSuspended k = 2 \<Longrightarrow> xTaskResumeAll k = Some (False, k\<lparr>uxSchedulerSuspended := 1\<rparr>)"
  by (simp add: xTaskResumeAll_def Let_def)

lemma within_or: "within a (a OR b)"
  by (simp add: within_def bit_or_iff)

lemma set_section:
  assumes s: "in_section i n c t s" and h: "h < n" and b: "plain b"
  shows "\<exists>r s'. xEventGroupSetBits h b s = Some (r, s') \<and> in_section i n c t s' \<and> within (uxEventBits s' h) (uxEventBits s h OR b)"
proof -
  note d = in_sectionD [OF s]
  obtain k1 r where k1: "xEventGroupSetBits h b s =
      map_option (\<lambda>(y, k). (r, s\<lparr>gkern := k, uxEventBits := (uxEventBits s)(h := r)\<rparr>)) (xTaskResumeAll k1)"
    "kernel_wf i k1" "bits_after h b s r"
    "released (woken_by h b s) (release_value (uxEventBits s h OR b)) (vTaskSuspendAll (gkern s)) k1"
    using set_bits_core [OF d(1), of b h] b d(2) by (auto simp: plain_def)
  note rel = releasedD [OF k1(4), unfolded suspend_frame]
  let ?k = "k1\<lparr>uxSchedulerSuspended := 1\<rparr>"
  let ?s = "s\<lparr>gkern := ?k, uxEventBits := (uxEventBits s)(h := r)\<rparr>"
  have w: "wait_inv n (gcalls c) k1 ((uxEventBits s)(h := r))" by (rule wait_inv_set [OF d(6) h b k1(3,4)])
  have w': "wait_inv n (gcalls c) ?k ((uxEventBits s)(h := r))" by (rule wait_inv_cong [OF w]) simp_all
  have "kernel_wf i ?k" using k1(2) by (simp add: kernel_wf_def alive_def is_ready_def)
  moreover have "is_ready ?k t" using rel(8) d(4) by (simp add: is_ready_def)
  moreover have "container ?k (EventItem t) = None" using rel(1) [of t] d(5) by simp
  ultimately have "in_section i n c t ?s" using w' rel(5) d(3) s by (simp add: in_section_def)
  moreover have "xEventGroupSetBits h b s = Some (r, ?s)" using k1(1) resume_nested [of k1] rel(6) d(2) by simp
  moreover have "within r (uxEventBits s h OR b)" using k1(3) by (auto simp: within_def bits_after_def)
  ultimately show ?thesis by auto
qed

lemma clear_section:
  assumes s: "in_section i n c t s" shows "in_section i n c t (upd_bits h (\<lambda>bits. bits AND NOT x) s)"
proof -
  have "wait_inv n (gcalls c) (gkern s) ((uxEventBits s)(h := uxEventBits s h AND NOT x))"
    by (rule wait_inv_fewer_bits [OF in_sectionD(6) [OF s]]) (simp add: within_def bit_clear)
  then show ?thesis using s by (simp add: in_section_def upd_bits_def)
qed

lemma section_plain: "in_section i n c t s \<Longrightarrow> h < n \<Longrightarrow> plain (uxEventBits s h)"
  using wait_invD(1) [OF in_sectionD(6)] .

lemma wait_enter_ok:
  assumes g: "group_rel i n c" and t: "pxCurrentTCB (gkern (gsys c)) = Some t"
    and c: "gcalls c t = Some (call, d, Group_Enter)" and call: "call = Wait_Bits h w cl al"
  shows "call_ok i n c t call d (xEventGroupWaitBits h w cl al d Group_Enter (gsys c))"
proof -
  have ok: "group_call_ok n call" by (rule wait_invD(2) [OF group_relD(4) [OF g] c])
  then have w: "h < n" "plain w" "w \<noteq> 0" by (simp_all add: call)
  let ?s = "(gsys c)\<lparr>gkern := vTaskSuspendAll (gkern (gsys c))\<rparr>" and ?b = "uxEventBits (gsys c) h"
  note sec = enter_section [OF g t c]
  have nw: "\<not> group_cannot_wait w d (gsys c)" using w group_relD(2) [OF g] by (simp add: group_cannot_wait_def plain_def)
  have pb: "plain ?b" by (rule wait_invD(1) [OF group_relD(4) [OF g] w(1)])
  have m: "met call ?b \<longleftrightarrow> prvTestWaitCondition ?b w al" by (simp add: met_def call)
  show ?thesis
  proof (cases "met call ?b \<or> d = 0")
    case True
    let ?s' = "if met call ?b \<and> cl then upd_bits h (\<lambda>bits. bits AND NOT w) ?s else ?s"
    have "in_section i n c t ?s'" using sec clear_section [OF sec, of h w] by auto
    then have "call_ok i n c t call d (resume_and_wait (Some (?b, \<not> met call ?b)) ?s')"
      by (rule decided_ok) (simp add: truthful_def pb)
    then show ?thesis using True nw m by (cases "met call ?b") (simp_all add: Let_def)
  next
    case False
    have ti: "t \<noteq> i" using group_relD(6) [OF g, of call d Group_Enter] c False by auto
    let ?w = "w OR (if cl then eventCLEAR_EVENTS_ON_EXIT_BIT else 0) OR (if al then eventWAIT_FOR_ALL_BITS else 0)"
    have ww: "?w OR taskEVENT_LIST_ITEM_VALUE_IN_USE = wait_word call" by (simp add: wait_word_def call or.assoc)
    have "\<not> met call (uxEventBits ?s (call_group call))" using False by (simp add: call)
    from blocked_ok [OF sec ti _ ok this ww, of d] show ?thesis using False nw m by (simp add: Let_def call)
  qed
qed

lemma sync_enter_ok:
  assumes g: "group_rel i n c" and t: "pxCurrentTCB (gkern (gsys c)) = Some t"
    and c: "gcalls c t = Some (call, d, Group_Enter)" and call: "call = Sync_Bits h b w"
  shows "call_ok i n c t call d (xEventGroupSync h b w d Group_Enter (gsys c))"
proof -
  have ok: "group_call_ok n call" by (rule wait_invD(2) [OF group_relD(4) [OF g] c])
  then have w: "h < n" "plain b" "plain w" "w \<noteq> 0" by (simp_all add: call)
  let ?s = "(gsys c)\<lparr>gkern := vTaskSuspendAll (gkern (gsys c))\<rparr>" and ?b = "uxEventBits (gsys c) h"
  note sec = enter_section [OF g t c]
  have nw: "\<not> group_cannot_wait w d (gsys c)" using w group_relD(2) [OF g] by (simp add: group_cannot_wait_def plain_def)
  have pb: "plain (?b OR b)" by (rule plain_or [OF wait_invD(1) [OF group_relD(4) [OF g] w(1)] w(2)])
  obtain r s where s: "xEventGroupSetBits h b ?s = Some (r, s)" "in_section i n c t s" "within (uxEventBits s h) (?b OR b)"
    using set_section [OF sec w(1,2)] by auto
  have m: "met call (?b OR b) \<longleftrightarrow> (?b OR b) AND w = w" by (simp add: met_def call prvTestWaitCondition_def)
  have ps: "plain (uxEventBits s h)" by (rule section_plain [OF s(2) w(1)])
  consider "met call (?b OR b)" | "\<not> met call (?b OR b)" "d = 0" | "\<not> met call (?b OR b)" "d \<noteq> 0" by blast
  then show ?thesis
  proof cases
    case 1
    have "call_ok i n c t call d (resume_and_wait (Some (?b OR b, False)) (upd_bits h (\<lambda>bits. bits AND NOT w) s))"
      by (rule decided_ok [OF clear_section [OF s(2)]]) (simp add: truthful_def pb 1)
    then show ?thesis using 1 nw m s(1) by (simp add: Let_def)
  next
    case 2
    have "call_ok i n c t call d (resume_and_wait (Some (uxEventBits s h, True)) s)"
      by (rule decided_ok [OF s(2)]) (simp add: truthful_def ps)
    then show ?thesis using 2 nw m s(1) by (simp add: Let_def)
  next
    case 3
    have ti: "t \<noteq> i" using group_relD(6) [OF g, of call d Group_Enter] c 3 by auto
    let ?w = "w OR eventCLEAR_EVENTS_ON_EXIT_BIT OR eventWAIT_FOR_ALL_BITS"
    have ww: "?w OR taskEVENT_LIST_ITEM_VALUE_IN_USE = wait_word call" by (simp add: wait_word_def call or.assoc)
    have "\<not> met call (uxEventBits s (call_group call))" using 3 met_mono [OF s(3)] by (auto simp: call)
    from blocked_ok [OF s(2) ti 3(2) ok this ww] show ?thesis using 3 nw m s(1) by (simp add: Let_def call)
  qed
qed

text \<open>Going on after the wait.\<close>

lemma woken_ok:
  assumes g: "group_rel i n c" and t: "pxCurrentTCB (gkern (gsys c)) = Some t"
    and c: "gcalls c t = Some (call, d, ph)" and ph: "ph \<noteq> Group_Enter"
  shows "call_ok i n c t call d (group_woken (call_group call) (awaited call) (wants_clear call) (wants_all call) ph (gsys c))"
proof -
  let ?s = "gsys c" and ?k = "gkern (gsys c)"
  note w = group_relD(4) [OF g]
  have ok: "group_call_ok n call" by (rule wait_invD(2) [OF w c])
  have ti: "t \<noteq> i" using group_relD(6) [OF g, of call d ph] c ph by auto
  have idle: "\<And>x. gcalls c i = Some x \<Longrightarrow> ((gcalls c)(t := new)) i = Some x" for new using ti by simp
  show ?thesis
  proof (cases ph)
    case Group_Yield
    obtain k where k: "vTaskSwitchContext ?k = Some k" "calm i k" "untouched ?k k" "uxSchedulerSuspended k = 0" "running_ready k"
      using calm_switch [OF group_relD(1,2) [OF g]] by blast
    have "wait_inv n ((gcalls c)(t \<mapsto> (call, d, Group_Collect))) k (uxEventBits ?s)"
      using wait_inv_move [OF wait_inv_events [OF w untouched_events [OF k(3)]] c] Group_Yield by simp
    then have "group_rel i n (c\<lparr>gsys := ?s\<lparr>gkern := k\<rparr>, gcalls := (gcalls c)(t \<mapsto> (call, d, Group_Collect))\<rparr>)"
      using k g ti by (simp add: group_rel_def)
    then show ?thesis using k(1) by (simp add: call_ok_def Group_Yield)
  next
    case Group_Collect
    have y: "gcalls c t \<noteq> Some (call', d', Group_Yield)" for call' d' using c Group_Collect by simp
    note free = running_free [OF g t y]
    have rdy: "is_ready ?k t" by (rule group_relD(5) [OF g t y])
    obtain k where k: "uxTaskResetEventItemValue ?k = Some (item_value ?k (EventItem t), k)" "calm i k" "container k = container ?k"
      "\<And>u. u \<noteq> t \<Longrightarrow> item_value k (EventItem u) = item_value ?k (EventItem u)" "pxCurrentTCB k = pxCurrentTCB ?k"
      "uxSchedulerSuspended k = uxSchedulerSuspended ?k" using reset_item_value [OF group_relD(1) [OF g] t] by blast
    let ?v = "item_value ?k (EventItem t)"
    have h: "honest call ?v" using wait_invD(4) [OF w c] free(2) Group_Collect by simp
    define new where "new = (if ?v AND eventUNBLOCKED_DUE_TO_BIT_SET = 0 then Some (call, d, Group_Expired) else None)"
    have "wait_inv n ((gcalls c)(t := new)) ?k (uxEventBits ?s)"
      by (rule wait_inv_call [OF w free(2)]) (use ok in \<open>auto simp: new_def split: if_splits\<close>)
    then have wi: "wait_inv n ((gcalls c)(t := new)) k (uxEventBits ?s)"
      by (rule wait_inv_cong) (use k(3,4) in \<open>auto simp: new_def split: if_splits\<close>)
    have rr: "running_ready k" using rdy k(3,5) t by (simp add: running_ready_def is_ready_def)
    have gr: "group_rel i n (c\<lparr>gsys := ?s\<lparr>gkern := k\<rparr>, gcalls := (gcalls c)(t := new)\<rparr>)"
      using wi rr k(2,6) g ti by (simp add: group_rel_def)
    show ?thesis
    proof (cases "?v AND eventUNBLOCKED_DUE_TO_BIT_SET = 0")
      case True
      then show ?thesis using gr k(1) by (simp add: call_ok_def Group_Collect new_def)
    next
      case False
      then have "truthful (t, call, ?v AND NOT eventEVENT_BITS_CONTROL_BYTES, False)"
        using h plain_masked [of ?v] by (simp add: truthful_def honest_def wanted_def)
      then show ?thesis using gr k(1) False by (simp add: call_ok_def Group_Collect new_def)
    qed
  next
    case Group_Expired
    have y: "gcalls c t \<noteq> Some (call', d', Group_Yield)" for call' d' using c Group_Expired by simp
    note free = running_free [OF g t y]
    have rr: "running_ready ?k" using group_relD(5) [OF g t y] t by (simp add: running_ready_def)
    have w0: "wait_inv n ((gcalls c)(t := None)) ?k (uxEventBits ?s)" by (rule wait_inv_call [OF w free(2)]) simp
    define s' where "s' = (if prvTestWaitCondition (uxEventBits ?s (call_group call)) (awaited call) (wants_all call) \<and> wants_clear call
        then upd_bits (call_group call) (\<lambda>bits. bits AND NOT (awaited call)) ?s else ?s)"
    have "wait_inv n ((gcalls c)(t := None)) ?k (uxEventBits s')"
      by (rule wait_inv_fewer_bits [OF w0]) (simp add: s'_def upd_bits_def within_def bit_clear)
    moreover have "gkern s' = ?k" by (simp add: s'_def upd_bits_def)
    ultimately have "group_rel i n (c\<lparr>gsys := s', gcalls := (gcalls c)(t := None)\<rparr>)"
      using rr g ti by (simp add: group_rel_def)
    then show ?thesis using plain_masked [of "uxEventBits ?s (call_group call)"]
      by (simp add: call_ok_def Group_Expired s'_def [symmetric] truthful_def Let_def)
  qed (use ph in simp)
qed

lemma group_call_step_ok:
  assumes g: "group_rel i n c" and t: "pxCurrentTCB (gkern (gsys c)) = Some t" and c: "gcalls c t = Some (call, d, ph)"
  shows "call_ok i n c t call d (group_call_step call d ph (gsys c))"
proof (cases "ph = Group_Enter")
  case True
  then show ?thesis using wait_enter_ok [OF g t] sync_enter_ok [OF g t] c by (cases call) simp_all
next
  case False
  then have "group_call_step call d ph (gsys c) =
      group_woken (call_group call) (awaited call) (wants_clear call) (wants_all call) ph (gsys c)"
    by (cases call; cases ph) simp_all
  then show ?thesis using woken_ok [OF g t c False] by simp
qed

lemma group_advance_ok:
  assumes g: "group_rel i n c" and p: "group_permitted i n Step_Call c"
  shows "group_step_ok i n (group_step Step_Call c)"
proof -
  obtain t call d ph where t: "pxCurrentTCB (gkern (gsys c)) = Some t" "gcalls c t = Some (call, d, ph)"
    using p by (auto split: option.splits)
  obtain r s where r: "group_call_step call d ph (gsys c) = Some (r, s)"
    "case r of Group_Return v timeout \<Rightarrow> truthful (t, call, v, timeout) \<and>
          group_rel i n (c\<lparr>gsys := s, gcalls := (gcalls c)(t := None)\<rparr>)
      | Group_Continue ph \<Rightarrow> group_rel i n (c\<lparr>gsys := s, gcalls := (gcalls c)(t \<mapsto> (call, d, ph))\<rparr>)"
    using group_call_step_ok [OF g t] by (auto simp: call_ok_def)
  show ?thesis
  proof (cases r)
    case (Group_Return v timeout)
    then show ?thesis by (intro group_step_okI [of _ "Some (t, call, v, timeout)"]) (use t r in auto)
  next
    case (Group_Continue ph')
    then show ?thesis by (intro group_step_okI [of _ None]) (use t r in auto)
  qed
qed

lemma group_every_step_ok:
  assumes g: "group_rel i n c" and p: "group_permitted i n e c"
  shows "group_step_ok i n (group_step e c)"
proof (cases e)
  case (Begin_Call call d) then show ?thesis using group_begin_ok [OF g] p by blast
next
  case Step_Call then show ?thesis using group_advance_ok [OF g] p by blast
next
  case (Set_Bits h b) then show ?thesis using group_set_ok [OF g] p by blast
next
  case (Clear_Bits h b) then show ?thesis using group_clear_ok [OF g] p by blast
next
  case Group_Tick then show ?thesis using group_tick_ok [OF g] by blast
next
  case Group_Reschedule then show ?thesis using group_reschedule_ok [OF g] by blast
next
  case (Group_Sleep d) then show ?thesis using group_sleep_ok [OF g] p by blast
qed

end
