(* ===== verification/Group_Properties.thy ===== *)
theory Group_Properties
  imports Group_System_Calls
begin

text \<open>
  What tasks get from event groups: setting bits releases exactly the tasks whose condition is
  met, and no task sleeps through bits that it waits for.
\<close>

lemma group_run_ok:
  assumes "group_rel i n c" "group_all_permitted i n es c"
  shows "\<exists>outs c'. group_run es c = Some (outs, c') \<and> group_rel i n c' \<and> (\<forall>x \<in> set outs. truthful x)"
  using assms
proof (induction es arbitrary: c)
  case Nil
  then show ?case by auto
next
  case (Cons e es)
  obtain out c1 where s: "group_step e c = Some (out, c1)" "group_rel i n c1" "\<forall>x. out = Some x \<longrightarrow> truthful x"
    using group_every_step_ok [OF Cons.prems(1), of e] Cons.prems(2) by (auto simp: group_step_ok_def)
  obtain outs c' where r: "group_run es c1 = Some (outs, c')" "group_rel i n c'" "\<forall>x \<in> set outs. truthful x"
    using Cons.IH [OF s(2)] Cons.prems(2) s(1) by auto
  then show ?case using s(1,3) by (auto split: option.splits)
qed

section \<open>Starting\<close>

text \<open>Groups \<open>0\<close> to \<open>n - 1\<close> are created, then the tasks, and the scheduler is started.\<close>

primrec create_groups :: "nat \<Rightarrow> groups \<Rightarrow> groups" where
  "create_groups 0 s = s"
| "create_groups (Suc n) s = snd (xEventGroupCreate (Some n) (create_groups n s))"

definition group_boot :: "nat \<Rightarrow> (tid \<times> word32) list \<Rightarrow> tid \<Rightarrow> groups \<Rightarrow> gconf option" where
  "group_boot n ts i s = do {
     let s = create_groups n s;
     k \<leftarrow> create_all ts (gkern s);
     k \<leftarrow> vTaskStartScheduler (Some i) k;
     Some \<lparr>gsys = s\<lparr>gkern := k\<rparr>, gcalls = (\<lambda>_. None)\<rparr> }"

lemma create_groups_ok:
  "\<forall>e. klists (gkern s) (EventList e) = kl_empty \<Longrightarrow>
   gkern (create_groups n s) = gkern s \<and> (\<forall>g < n. uxEventBits (create_groups n s) g = 0)"
proof (induction n)
  case (Suc n)
  then have "gkern (create_groups n s) = gkern s" "\<forall>g < n. uxEventBits (create_groups n s) g = 0" by blast+
  then show ?case using Suc.prems by (auto simp: xEventGroupCreate_def upd_bits_def init_list_def fun_upd_idem)
qed simp

lemma group_boot_ok:
  assumes u: "unborn (gkern s)" and ts: "distinct (i # map fst ts)" "\<forall>x \<in> set ts. snd x < configMAX_PRIORITIES"
    and n: "Suc (length ts) < 2 ^ 32"
  shows "\<exists>c. group_boot n ts i s = Some c \<and> group_rel i n c"
proof -
  let ?s = "create_groups n s"
  have cg: "gkern ?s = gkern s" "\<forall>g < n. uxEventBits ?s g = 0"
    using create_groups_ok [of s n] u by (auto simp: unborn_def)
  obtain s1 k where k: "create_all ts (gkern s) = Some s1" "booting ((i, 0) # ts) k"
    "vTaskStartScheduler (Some i) s1 = Some (started k)" by (rule start_booting [OF u ts])
  have wf: "kernel_wf i (started k)" by (rule started_wf [OF k(2) n])
  have ev: "container (started k) (EventItem t) = None" for t
    using booting_containers(2) [OF k(2)] by (simp add: started_def)
  have sus: "uxSchedulerSuspended (started k) = 0" using k(2) by (simp add: booting_def started_def)
  obtain c q where c: "pxCurrentTCB k = Some c" "map_of ((i, 0) # ts) c = Some q" using k(2) unfolding booting_def by blast
  then have "running_ready (started k)"
    using booting_containers(1) [OF k(2), of c] by (simp add: running_ready_def is_ready_def started_def del: map_of.simps)
  then have "group_rel i n \<lparr>gsys = ?s\<lparr>gkern := started k\<rparr>, gcalls = (\<lambda>_. None)\<rparr>"
    using wf ev sus cg(2) by (simp add: group_rel_def calm_def no_pending_def wait_inv_def waits_for_def plain_def)
  then show ?thesis using k(1,3) cg(1) by (simp add: group_boot_def Let_def)
qed

section \<open>A kernel with nothing pending\<close>

lemma resume_quiet:
  assumes wf: "kernel_wf i k" and sus: "uxSchedulerSuspended k = 1" and q: "no_pending k" "xPendedTicks k = 0"
  shows "\<exists>y k'. xTaskResumeAll k = Some (y, k') \<and> kernel_wf i k' \<and> same_tasks (k\<lparr>uxSchedulerSuspended := 0\<rparr>) k'"
proof -
  let ?k = "k\<lparr>uxSchedulerSuspended := 0\<rparr>"
  have wf': "kernel_wf i ?k" using wf by (simp add: kernel_wf_def alive_def is_ready_def)
  have core: "core_ok k" using wf by (simp add: kernel_wf_def sched_ok_def)
  have "\<not> (\<exists>x. x \<in> set (kitems (klists k PendingReadyList)))"
  proof
    assume "\<exists>x. x \<in> set (kitems (klists k PendingReadyList))"
    then obtain x where x: "container k x = Some PendingReadyList"
      using lists_okD(2) [OF core_okD(1) [OF core], of _ PendingReadyList] by blast
    then show False using q(1) core_okD(4) [OF core, of "owner_of x"] by (cases x) (auto simp: no_pending_def task_ok_def)
  qed
  then have "is_empty PendingReadyList ?k" by (auto simp: is_empty_def)
  then have d: "drain_pending False ?k = Some (False, ?k)" by (simp add: drain_pending.simps)
  obtain k' where k': "vTaskSwitchContext ?k = Some k'" "kernel_wf i k'" "same_tasks ?k k'" using wf_switch [OF wf'] by blast
  have n: "uxCurrentNumberOfTasks k \<noteq> 0" using wf by (simp add: kernel_wf_def)
  have "same_tasks ?k ?k" by (simp add: same_tasks_def)
  then show ?thesis
    using sus d q(2) n wf' k' by (cases "xYieldPending k") (auto simp: xTaskResumeAll_def Let_def word_gt_0)
qed

lemma no_pending_released: "no_pending k \<Longrightarrow> released W v k k' \<Longrightarrow> no_pending k'"
  by (auto simp: no_pending_def released_def)

text \<open>Deleting a group: the loop ends, with all its waiting tasks released.\<close>

lemma delete_loop_ok:
  assumes "kernel_wf i k" "uxSchedulerSuspended k \<noteq> 0"
  shows "\<exists>k'. delete_loop g k = Some k' \<and> kernel_wf i k' \<and>
    released {t. waits_for k g t} (eventUNBLOCKED_DUE_TO_BIT_SET OR taskEVENT_LIST_ITEM_VALUE_IN_USE) k k'"
  using assms
proof (induction "length (kitems (klists k (EventList g)))" arbitrary: k)
  case 0
  then have "{t. waits_for k g t} = {}" using event_list_items(2) [OF 0(2), of g] by simp
  then show ?case using 0 released_none by (simp add: delete_loop.simps is_empty_def)
next
  case (Suc m)
  let ?its = "kitems (klists k (EventList g))" and ?v = "eventUNBLOCKED_DUE_TO_BIT_SET OR taskEVENT_LIST_ITEM_VALUE_IN_USE"
  note it = event_list_items [OF Suc.prems(1), of g]
  have ne: "?its \<noteq> []" using Suc.hyps(2) by auto
  then obtain t where t: "hd ?its = EventItem t" "waits_for k g t" using it(2) hd_in_set [OF ne] by auto
  obtain k1 where k1: "vTaskRemoveFromUnorderedEventList t eventUNBLOCKED_DUE_TO_BIT_SET k = Some k1" "kernel_wf i k1"
    "container k1 = (container k)(EventItem t := None, StateItem t := Some (ReadyList (uxPriority (tcbs k t))))"
    "item_value k1 = (item_value k)(EventItem t := ?v)" "tcbs k1 = tcbs k" "pxCurrentTCB k1 = pxCurrentTCB k"
    "uxSchedulerSuspended k1 = uxSchedulerSuspended k" "xPendedTicks k1 = xPendedTicks k"
    using remove_unordered [OF Suc.prems(1,2) t(2) [unfolded waits_for_def], of eventUNBLOCKED_DUE_TO_BIT_SET] by blast
  have rel: "released {t} ?v k k1" using k1(3-8) by (simp add: released_def)
  have W: "{u. waits_for k1 g u} = {u. waits_for k g u} - {t}" by (auto simp: waits_for_def k1(3))
  note it1 = event_list_items [OF k1(2), of g]
  have c: "length (kitems (klists j (EventList g))) = card {u. waits_for j g u}" if "kernel_wf i j" for j
    using event_list_items [OF that, of g] by (metis card_image distinct_card inj_on_def item.inject(2))
  have "finite {u. waits_for k g u}" using it(2) by (metis List.finite_set finite_imageD inj_on_def item.inject(2))
  then have "m = length (kitems (klists k1 (EventList g)))"
    using c [OF k1(2)] c [OF Suc.prems(1)] Suc.hyps(2) t(2) by (simp add: W card_Diff_singleton)
  then obtain k' where k': "delete_loop g k1 = Some k'" "kernel_wf i k'" "released {u. waits_for k1 g u} ?v k1 k'"
    using Suc.hyps(1) [of k1] k1(2,7) Suc.prems(2) by auto
  have "insert t {u. waits_for k1 g u} = {u. waits_for k g u}" using t(2) W by auto
  then have "released {u. waits_for k g u} ?v k k'" using released_trans [OF rel k'(3)] by simp
  moreover have "delete_loop g k = Some k'"
    using k1(1) k'(1) t(1) ne by (subst delete_loop.simps) (simp add: is_empty_def head_entry_def)
  ultimately show ?case using k'(2) by blast
qed

section \<open>A run\<close>

definition demo_groups :: groups where
  "demo_groups = \<lparr>gkern = zeroed_kernel, uxEventBits = (\<lambda>_. 0)\<rparr>"

definition demo_group_conf :: gconf where
  "demo_group_conf = the (group_boot 1 [(2, 3), (1, 3)] 0 demo_groups)"

text \<open>Task 2 waits for bits 0 and 1, task 1 sets bit 0, sleeps, a tick passes, and sets bit 1.\<close>

definition demo_group_events :: "group_event list" where
  "demo_group_events = [Begin_Call (Wait_Bits 0 3 True True) 9, Step_Call, Step_Call, Set_Bits 0 1, Group_Tick,
     Set_Bits 0 2, Group_Reschedule, Step_Call, Begin_Call (Sync_Bits 0 4 12) 0, Step_Call]"

lemma demo_group_unborn: "unborn (gkern demo_groups)"
  by (simp add: demo_groups_def unborn_def zeroed_kernel_def demo_kernel_def)

lemma demo_group_permitted: "group_all_permitted 0 1 demo_group_events demo_group_conf"
  by code_simp

lemma demo_group_boots: "group_boot 1 [(2, 3), (1, 3)] 0 demo_groups = Some demo_group_conf"
  using group_boot_ok [OF demo_group_unborn, of 0 "[(2, 3), (1, 3)]" 1]
  by (auto simp: demo_group_conf_def configMAX_PRIORITIES_def)

lemma demo_group_outcomes:
  "map_option fst (group_run demo_group_events demo_group_conf) =
     Some [(2, Wait_Bits 0 3 True True, 3, False), (2, Sync_Bits 0 4 12, 4, True)]"
  by code_simp

section \<open>Properties\<close>

text \<open>
  C6. After booting, in every permitted order of waits, rendezvous, sets, clears, sleeps,
  context switches and ticks, no assertion fails, a task is in the list of a group only
  while the bits of the group do not meet its condition, and a call that returns without
  having timed out returns bits that met its condition, without control bits.
\<close>

theorem no_missed_event:
  assumes "unborn (gkern s)" "distinct (i # map fst ts)" "\<forall>x \<in> set ts. snd x < configMAX_PRIORITIES"
    "Suc (length ts) < 2 ^ 32"
  shows "\<exists>c. group_boot n ts i s = Some c \<and> (\<forall>es. group_all_permitted i n es c \<longrightarrow>
    (\<exists>outs c'. group_run es c = Some (outs, c') \<and>
       (\<forall>(t, call, v, timeout) \<in> set outs. v AND eventEVENT_BITS_CONTROL_BYTES = 0 \<and> (\<not> timeout \<longrightarrow> met call v)) \<and>
       (\<forall>t g. container (gkern (gsys c')) (EventItem t) = Some (EventList g) \<longrightarrow>
          (\<exists>call ticks ph. gcalls c' t = Some (call, ticks, ph) \<and> call_group call = g \<and>
             \<not> met call (uxEventBits (gsys c') g)))))"
proof -
  obtain c where c: "group_boot n ts i s = Some c" "group_rel i n c" using group_boot_ok [OF assms] by blast
  have "\<exists>outs c'. group_run es c = Some (outs, c') \<and>
       (\<forall>(t, call, v, timeout) \<in> set outs. v AND eventEVENT_BITS_CONTROL_BYTES = 0 \<and> (\<not> timeout \<longrightarrow> met call v)) \<and>
       (\<forall>t g. container (gkern (gsys c')) (EventItem t) = Some (EventList g) \<longrightarrow>
          (\<exists>call ticks ph. gcalls c' t = Some (call, ticks, ph) \<and> call_group call = g \<and>
             \<not> met call (uxEventBits (gsys c') g)))"
    if es: "group_all_permitted i n es c" for es
  proof -
    obtain outs c' where r: "group_run es c = Some (outs, c')" "group_rel i n c'" "\<forall>x \<in> set outs. truthful x"
      using group_run_ok [OF c(2) es] by blast
    have "\<exists>call ticks ph. gcalls c' t = Some (call, ticks, ph) \<and> call_group call = g \<and> \<not> met call (uxEventBits (gsys c') g)"
      if "container (gkern (gsys c')) (EventItem t) = Some (EventList g)" for t g
      using wait_invD(3) [OF group_relD(4) [OF r(2)], of g t] that by (fastforce simp: waits_for_def)
    moreover have "\<forall>(t, call, v, timeout) \<in> set outs. v AND eventEVENT_BITS_CONTROL_BYTES = 0 \<and> (\<not> timeout \<longrightarrow> met call v)"
      using r(3) by (fastforce simp: truthful_def plain_def)
    ultimately show ?thesis using r(1) by blast
  qed
  then show ?thesis using c(1) by blast
qed

theorem no_missed_event_witness:
  "\<exists>outs c'. group_run demo_group_events demo_group_conf = Some (outs, c') \<and>
     (\<forall>(t, call, v, timeout) \<in> set outs. v AND eventEVENT_BITS_CONTROL_BYTES = 0 \<and> (\<not> timeout \<longrightarrow> met call v)) \<and>
     (\<forall>t g. container (gkern (gsys c')) (EventItem t) = Some (EventList g) \<longrightarrow>
        (\<exists>call ticks ph. gcalls c' t = Some (call, ticks, ph) \<and> call_group call = g \<and>
           \<not> met call (uxEventBits (gsys c') g)))"
  using no_missed_event [OF demo_group_unborn, of 0 "[(2, 3), (1, 3)]" 1] demo_group_boots demo_group_permitted
  by (simp add: configMAX_PRIORITIES_def)


definition demo_waiting :: groups where
  "demo_waiting = gsys (snd (the (group_run (take 3 demo_group_events) demo_group_conf)))"

lemma demo_waiting_ready:
  "kernel_wf 0 (gkern demo_waiting)" "uxSchedulerSuspended (gkern demo_waiting) = 0" "no_pending (gkern demo_waiting)"
proof -
  have "group_all_permitted 0 1 (take 3 demo_group_events) demo_group_conf" by code_simp
  moreover have "group_rel 0 1 demo_group_conf"
    using group_boot_ok [OF demo_group_unborn, of 0 "[(2, 3), (1, 3)]" 1] demo_group_boots by (simp add: configMAX_PRIORITIES_def)
  ultimately obtain outs c' where c': "group_run (take 3 demo_group_events) demo_group_conf = Some (outs, c')" "group_rel 0 1 c'"
    using group_run_ok by blast
  then have "demo_waiting = gsys c'" by (simp add: demo_waiting_def)
  then show "kernel_wf 0 (gkern demo_waiting)" "uxSchedulerSuspended (gkern demo_waiting) = 0" "no_pending (gkern demo_waiting)"
    using group_relD(1-3) [OF c'(2)] calmD(2) by auto
qed


text \<open>
  C40. vEventGroupDelete returns, however many tasks wait: each is made ready and will
  return without bits and without having timed out; no other task is touched.
\<close>

theorem delete_releases_all:
  assumes "kernel_wf i (gkern s)" "uxSchedulerSuspended (gkern s) = 0" "no_pending (gkern s)" "xPendedTicks (gkern s) = 0"
  shows "\<exists>s'. vEventGroupDelete g s = Some s' \<and> kernel_wf i (gkern s') \<and>
    (\<forall>t. if container (gkern s) (EventItem t) = Some (EventList g)
         then container (gkern s') (EventItem t) = None \<and>
           container (gkern s') (StateItem t) = Some (ReadyList (uxPriority (tcbs (gkern s) t))) \<and>
           item_value (gkern s') (EventItem t) AND eventUNBLOCKED_DUE_TO_BIT_SET \<noteq> 0 \<and>
           item_value (gkern s') (EventItem t) AND NOT eventEVENT_BITS_CONTROL_BYTES = 0
         else container (gkern s') (EventItem t) = container (gkern s) (EventItem t) \<and>
           container (gkern s') (StateItem t) = container (gkern s) (StateItem t) \<and>
           item_value (gkern s') (EventItem t) = item_value (gkern s) (EventItem t))"
proof -
  obtain k1 where k1: "delete_loop g (vTaskSuspendAll (gkern s)) = Some k1" "kernel_wf i k1"
    "released {t. waits_for (gkern s) g t} (eventUNBLOCKED_DUE_TO_BIT_SET OR taskEVENT_LIST_ITEM_VALUE_IN_USE)
       (vTaskSuspendAll (gkern s)) k1"
    using delete_loop_ok [OF wf_suspend_all [OF assms(1)], of g] assms(2) by (auto simp: waits_for_def suspend_frame)
  note rel = releasedD [OF k1(3), unfolded suspend_frame]
  have q: "no_pending k1" "xPendedTicks k1 = 0"
    using no_pending_released [OF _ k1(3)] assms(3,4) rel(7) by (simp_all add: no_pending_def suspend_frame vTaskSuspendAll_def)
  obtain y k2 where k2: "xTaskResumeAll k1 = Some (y, k2)" "kernel_wf i k2" "same_tasks (k1\<lparr>uxSchedulerSuspended := 0\<rparr>) k2"
    using resume_quiet [OF k1(2) _ q] rel(6) assms(2) by auto
  have "container k2 = container k1" "item_value k2 = item_value k1" using k2(3) by (simp_all add: same_tasks_def)
  then show ?thesis using k1(1) k2(1,2) rel(1-3) by (auto simp: vEventGroupDelete_def waits_for_def)
qed

theorem delete_releases_all_witness:
  "\<exists>s'. vEventGroupDelete 0 demo_waiting = Some s' \<and> container (gkern s') (EventItem 2) = None \<and>
     container (gkern s') (StateItem 2) = Some (ReadyList 3)"
proof -
  have p: "xPendedTicks (gkern demo_waiting) = 0" by code_simp
  have c: "container (gkern demo_waiting) (EventItem 2) = Some (EventList 0)" "uxPriority (tcbs (gkern demo_waiting) 2) = 3"
    by code_simp+
  obtain s' where s': "vEventGroupDelete 0 demo_waiting = Some s'"
    "\<forall>t. if container (gkern demo_waiting) (EventItem t) = Some (EventList 0)
         then container (gkern s') (EventItem t) = None \<and>
           container (gkern s') (StateItem t) = Some (ReadyList (uxPriority (tcbs (gkern demo_waiting) t))) \<and>
           item_value (gkern s') (EventItem t) AND eventUNBLOCKED_DUE_TO_BIT_SET \<noteq> 0 \<and>
           item_value (gkern s') (EventItem t) AND NOT eventEVENT_BITS_CONTROL_BYTES = 0
         else container (gkern s') (EventItem t) = container (gkern demo_waiting) (EventItem t) \<and>
           container (gkern s') (StateItem t) = container (gkern demo_waiting) (StateItem t) \<and>
           item_value (gkern s') (EventItem t) = item_value (gkern demo_waiting) (EventItem t)"
    using delete_releases_all [OF demo_waiting_ready p, of 0] by blast
  then show ?thesis using c spec [OF s'(2), of 2] by auto
qed

end
